(* ===== verification/I4A_Prelude.thy ===== *)
theory I4A_Prelude
  imports Main "HOL-Library.Word" "HOL-Library.Monad_Syntax"
begin

unbundle bit_operations_syntax

text \<open>
  Shared vocabulary of the development: the machine integer types of the firmware, the
  little-endian byte order in which the ESP32 (ILP32, little-endian) lays out the integers of a
  structure, the interface of a structure that is copied raw between boards, and the
  collections of lemmas the component theories fill.

  A C operation with an undefined case (a shift by the width of its operand or more, an array
  index out of range) returns an \<open>option\<close>, with \<open>None\<close> for the undefined case;
  \<open>os_panic\<close> is not such a case, it logs and returns.
\<close>

section \<open>Machine integers\<close>

type_synonym u8 = "8 word"
type_synonym u16 = "16 word"
type_synonym u32 = "32 word"
type_synonym u64 = "64 word"
type_synonym i8 = "8 word"
type_synonym byte = "8 word"

named_theorems frame_simps "operations that leave a part of the state alone"
named_theorems codec_defs "definitions of the wire formats"

section \<open>Little-endian integers\<close>

definition le16 :: "u16 \<Rightarrow> byte list" where
  "le16 x = [ucast x, ucast (drop_bit 8 x)]"

definition le32 :: "u32 \<Rightarrow> byte list" where
  "le32 x = [ucast x, ucast (drop_bit 8 x), ucast (drop_bit 16 x), ucast (drop_bit 24 x)]"

definition le64 :: "u64 \<Rightarrow> byte list" where
  "le64 x = le32 (ucast x) @ le32 (ucast (drop_bit 32 x))"

fun un16 :: "byte list \<Rightarrow> u16" where
  "un16 (a # b # _) = ucast a OR push_bit 8 (ucast b)"
| "un16 _ = 0"

fun un32 :: "byte list \<Rightarrow> u32" where
  "un32 (a # b # c # d # _) =
     ucast a OR push_bit 8 (ucast b) OR push_bit 16 (ucast c) OR push_bit 24 (ucast d)"
| "un32 _ = 0"

definition un64 :: "byte list \<Rightarrow> u64" where
  "un64 bs = ucast (un32 bs) OR push_bit 32 (ucast (un32 (drop 4 bs)))"

lemma length_le [simp]: "length (le16 x) = 2" "length (le32 y) = 4" "length (le64 z) = 8"
  by (simp_all add: le16_def le32_def le64_def)

lemma un16_le16 [simp]: "un16 (le16 x @ bs) = x"
  by (auto simp: le16_def intro!: bit_word_eqI)
     (auto simp: bit_simps)

lemma un32_le32 [simp]: "un32 (le32 x @ bs) = x"
proof (rule bit_word_eqI)
  fix n
  assume "n < LENGTH(32)"
  then consider "n < 8" | "8 \<le> n" "n < 16" | "16 \<le> n" "n < 24" | "24 \<le> n" "n < 32"
    by fastforce
  then show "bit (un32 (le32 x @ bs)) n = bit x n"
    by cases (auto simp: le32_def bit_simps)
qed

lemma un64_le64 [simp]: "un64 (le64 x @ bs) = x"
proof (rule bit_word_eqI)
  fix n
  assume "n < LENGTH(64)"
  then consider "n < 32" | "32 \<le> n" "n < 64"
    by fastforce
  then show "bit (un64 (le64 x @ bs)) n = bit x n"
    by cases (auto simp: le64_def un64_def bit_simps)
qed

lemma un16_le16_nil [simp]: "un16 (le16 x) = x"
  using un16_le16 [of x "[]"] by simp

lemma un32_le32_nil [simp]: "un32 (le32 x) = x"
  using un32_le32 [of x "[]"] by simp

lemma unat_u8_less: "unat (n :: u8) < 256"
  by (rule order.strict_trans2 [OF unsigned_less]) simp

lemma unat_inc_u8: "unat n < 255 \<Longrightarrow> unat (n + 1 :: u8) = unat n + 1"
  by (simp add: unat_word_ariths)

lemma unat_dec_u8: "unat n > 0 \<Longrightarrow> unat (n - 1 :: u8) = unat n - 1"
  by (metis unat_0 neq0_conv unat_minus_one)

section \<open>Structures copied raw between boards\<close>

text \<open>
  A structure that is handed to \<open>rs_broadcast\<close> or \<open>wl_send_peer_message\<close> as raw bytes and
  cast back by the receiver. \<open>enc\<close> is the memory image of the sender's structure, \<open>dec\<close> the
  receiver's view of the bytes, \<open>sz\<close> the \<open>sizeof\<close> that the receiver compares the length with.
\<close>

locale wire_format =
  fixes enc :: "'a \<Rightarrow> byte list"
    and dec :: "byte list \<Rightarrow> 'a"
    and sz :: nat
    and valid :: "'a \<Rightarrow> bool"
  assumes length_enc: "valid x \<Longrightarrow> length (enc x) = sz"
    and dec_enc: "valid x \<Longrightarrow> dec (enc x) = x"
begin

lemma enc_inject: "valid x \<Longrightarrow> valid y \<Longrightarrow> enc x = enc y \<longleftrightarrow> x = y"
  by (metis dec_enc)

lemma framed_length: "valid x \<Longrightarrow> length (tag # enc x) = Suc sz"
  by (simp add: length_enc)

lemma framed_dec: "valid x \<Longrightarrow> dec (tl (tag # enc x)) = x"
  by (simp add: dec_enc)

lemma map_dec_enc: "list_all valid xs \<Longrightarrow> map dec (map enc xs) = xs"
  by (induction xs) (simp_all add: dec_enc)

end

section \<open>Arrays\<close>

text \<open>Reading and writing a C array: out of range is undefined.\<close>

definition aget :: "'a list \<Rightarrow> nat \<Rightarrow> 'a option" where
  "aget xs i = (if i < length xs then Some (xs ! i) else None)"

definition aset :: "'a list \<Rightarrow> nat \<Rightarrow> 'a \<Rightarrow> 'a list option" where
  "aset xs i x = (if i < length xs then Some (xs[i := x]) else None)"

lemma aget_Some [simp]: "i < length xs \<Longrightarrow> aget xs i = Some (xs ! i)"
  by (simp add: aget_def)

lemma aget_eq_Some: "aget xs i = Some x \<longleftrightarrow> i < length xs \<and> xs ! i = x"
  by (auto simp: aget_def)

lemma aget_eq_None: "aget xs i = None \<longleftrightarrow> length xs \<le> i"
  by (auto simp: aget_def)

lemma aset_Some [simp]: "i < length xs \<Longrightarrow> aset xs i x = Some (xs[i := x])"
  by (simp add: aset_def)

lemma aset_eq_Some: "aset xs i x = Some ys \<longleftrightarrow> i < length xs \<and> ys = xs[i := x]"
  by (auto simp: aset_def)

lemma aget_aset: "aset xs i x = Some ys \<Longrightarrow> aget ys j = (if j = i then Some x else aget xs j)"
  by (auto simp: aget_def aset_eq_Some)

section \<open>C strings\<close>

text \<open>
  A character array is the list of its bytes. The string in it is what precedes the first zero;
  an array without one runs on into unmodelled memory, so the operations that need a terminated
  string are applied to terminated arrays only (\<open>terminated\<close>).
\<close>

definition c_str :: "byte list \<Rightarrow> byte list" where
  "c_str bs = takeWhile (\<lambda>b. b \<noteq> 0) bs"

definition terminated :: "byte list \<Rightarrow> bool" where
  "terminated bs \<longleftrightarrow> 0 \<in> set bs"

text \<open>\<open>strstr(hay, needle) != NULL\<close> on the strings.\<close>

fun has_substring :: "byte list \<Rightarrow> byte list \<Rightarrow> bool" where
  "has_substring needle [] = (needle = [])"
| "has_substring needle (b # bs) =
     (take (length needle) (b # bs) = needle \<or> has_substring needle bs)"

text \<open>\<open>strncpy(dst, src, n)\<close>: at most \<open>n\<close> bytes, the rest filled with zeros.\<close>

definition strncpy_bytes :: "nat \<Rightarrow> byte list \<Rightarrow> byte list" where
  "strncpy_bytes n src = take n (c_str src) @ replicate (n - length (c_str src)) 0"

lemma strncpy_length [simp]: "length (strncpy_bytes n src) = n"
  by (simp add: strncpy_bytes_def)

lemma c_str_length: "length (c_str bs) \<le> length bs"
  by (simp add: c_str_def length_takeWhile_le)

lemma c_str_c_str [simp]: "c_str (c_str bs) = c_str bs"
  by (simp add: c_str_def)

lemma c_str_no_zero: "0 \<notin> set (c_str bs)"
  unfolding c_str_def by (metis (mono_tags, lifting) set_takeWhileD)

lemma c_str_id: "0 \<notin> set bs \<Longrightarrow> c_str (bs @ 0 # rest) = bs"
  unfolding c_str_def by (induction bs) auto

lemma has_substring_append: "has_substring needle (pre @ needle @ post)"
proof (induction pre)
  case Nil
  show ?case
  proof (cases needle)
    case Nil
    then show ?thesis by (cases post) simp_all
  next
    case (Cons b bs)
    then show ?thesis by simp
  qed
qed auto

section \<open>Characters\<close>

definition chars :: "string \<Rightarrow> byte list" where
  "chars s = map of_char s"

end
