(* ===== verification/Subnets.thy ===== *)
theory Subnets
  imports I4A_Prelude
begin

text \<open>
  Address arithmetic of the routing component (\<open>routing/src/utils.c\<close>): the length of a mask, the
  block of a node's network that a board of the node is given, and the first free slot of a
  list of networks. Membership of an address in a network is the test of the routing table.
\<close>

section \<open>Networks\<close>

record network_t =
  nw_addr :: u32
  nw_mask :: u32

definition NETWORK :: "u32 \<Rightarrow> u32 \<Rightarrow> network_t" where
  "NETWORK a m = \<lparr>nw_addr = a, nw_mask = m\<rparr>"

lemma NETWORK_sel [simp]: "nw_addr (NETWORK a m) = a" "nw_mask (NETWORK a m) = m"
  by (simp_all add: NETWORK_def)

definition in_network :: "u32 \<Rightarrow> network_t \<Rightarrow> bool" where
  "in_network ip n \<longleftrightarrow> ip AND nw_mask n = nw_addr n"

section \<open>mask_size\<close>

text \<open>The loop shifts \<open>n\<close> to the left until no bit is left, and counts.\<close>

lemma shift_out: "push_bit 32 (n :: u32) = 0"
  by (rule bit_word_eqI) (simp add: bit_simps)

definition shifts :: "u32 \<Rightarrow> nat" where
  "shifts n = (LEAST k. push_bit k n = 0)"

lemma shifts_le: "push_bit k n = 0 \<Longrightarrow> shifts n \<le> k"
  unfolding shifts_def by (rule Least_le)

lemma shifts_zero: "push_bit (shifts n) n = 0"
  unfolding shifts_def by (rule LeastI [of _ 32]) (rule shift_out)

lemma shifts_step:
  assumes "n \<noteq> 0"
  shows "shifts n = Suc (shifts (push_bit 1 n))"
proof (rule antisym)
  have "push_bit (Suc (shifts (push_bit 1 n))) n = push_bit (shifts (push_bit 1 n)) (push_bit 1 n)"
    by (simp add: push_bit_push_bit)
  then show "shifts n \<le> Suc (shifts (push_bit 1 n))"
    by (intro shifts_le) (simp only: shifts_zero)
  have "shifts n \<noteq> 0"
    using assms shifts_zero [of n] by (metis push_bit_0_id id_apply)
  then obtain k where k: "shifts n = Suc k"
    by (cases "shifts n") auto
  have "push_bit k (push_bit 1 n) = 0"
    using shifts_zero [of n] by (simp add: k push_bit_push_bit)
  then show "Suc (shifts (push_bit 1 n)) \<le> shifts n"
    by (simp add: k shifts_le)
qed

function mask_size_loop :: "u32 \<Rightarrow> u32 \<Rightarrow> u32" where
  "mask_size_loop n c = (if n = 0 then c else mask_size_loop (push_bit 1 n) (c + 1))"
  by pat_completeness auto
termination
  by (relation "measure (\<lambda>(n, c). shifts n)") (simp_all add: shifts_step)

declare mask_size_loop.simps [simp del]

definition mask_size :: "u32 \<Rightarrow> u32" where
  "mask_size n = mask_size_loop n 0"

lemma mask_size_loop_shifts: "mask_size_loop n c = c + of_nat (shifts n)"
proof (induction n c rule: mask_size_loop.induct)
  case (1 n c)
  show ?case
  proof (cases "n = 0")
    case True
    then have "shifts n = 0" using shifts_le [of 0 n] by simp
    with True show ?thesis by (simp add: mask_size_loop.simps)
  next
    case False
    with "1.IH" show ?thesis
      by (simp add: mask_size_loop.simps [of n] shifts_step [OF False] algebra_simps)
  qed
qed

text \<open>The mask of a prefix of length \<open>p\<close>.\<close>

definition prefix_mask :: "nat \<Rightarrow> u32" where
  "prefix_mask p = push_bit (32 - p) (mask p)"

lemma bit_prefix_mask: "p \<le> 32 \<Longrightarrow> bit (prefix_mask p) i \<longleftrightarrow> 32 - p \<le> i \<and> i < 32"
  by (auto simp: prefix_mask_def bit_simps)

lemma shifts_prefix_mask:
  assumes "p \<le> 32"
  shows "shifts (prefix_mask p) = p"
proof -
  have "push_bit k (prefix_mask p) = 0 \<longleftrightarrow> p \<le> k" for k
  proof
    assume z: "push_bit k (prefix_mask p) = 0"
    show "p \<le> k"
    proof (rule ccontr)
      assume "\<not> p \<le> k"
      then have "bit (push_bit k (prefix_mask p)) (k + (32 - p))"
        using assms by (simp add: bit_simps bit_prefix_mask) arith
      with z show False by simp
    qed
  next
    assume "p \<le> k"
    then show "push_bit k (prefix_mask p) = 0"
      using assms by (auto intro!: bit_word_eqI simp: bit_simps bit_prefix_mask)
  qed
  then show ?thesis
    unfolding shifts_def by (simp add: Least_equality)
qed

lemma mask_size_prefix: "p \<le> 32 \<Longrightarrow> mask_size (prefix_mask p) = of_nat p"
  by (simp add: mask_size_def mask_size_loop_shifts shifts_prefix_mask)

lemma shifts_bound: "shifts n \<le> 32"
  by (rule shifts_le) (rule shift_out)

text \<open>
  The loop of \<open>mask_size\<close> ends for every word after at most 32 shifts, and
  returns the prefix length of every contiguous mask.
\<close>

lemma mask_size_total:
  "mask_size n \<le> 32 \<and> push_bit (unat (mask_size n)) n = 0 \<and>
   (\<forall>p \<le> 32. n = prefix_mask p \<longrightarrow> mask_size n = of_nat p)"
proof (intro conjI allI impI)
  have u: "unat (mask_size n) = shifts n"
    using shifts_bound [of n] by (simp add: mask_size_def mask_size_loop_shifts unat_of_nat)
  show "mask_size n \<le> 32"
    using shifts_bound [of n] by (simp add: word_le_nat_alt u)
  show "push_bit (unat (mask_size n)) n = 0"
    by (simp add: u shifts_zero)
qed (simp add: mask_size_prefix)

section \<open>get_node_subnet\<close>

text \<open>
  \<open>(1 << prefix_len) - 1\<close> is computed in \<open>int\<close>: a shift by 32 or more is undefined, and for 31 the
  subtraction overflows. The other shifts follow GCC, which keeps the low 32 bits.
\<close>

definition get_node_subnet :: "network_t \<Rightarrow> u32 \<Rightarrow> network_t option" where
  "get_node_subnet node_network orientation =
     (let assigned_block = orientation;
          prefix_len = mask_size (nw_mask node_network) + 3;
          new_mask = push_bit (unat (32 - prefix_len)) (push_bit (unat prefix_len) 1 - 1);
          new_network = nw_addr node_network OR
            push_bit (unat (32 - mask_size new_mask)) assigned_block
      in if prefix_len \<ge> 31 then None
         else Some \<lparr>nw_addr = new_network, nw_mask = new_mask\<rparr>)"

text \<open>The index of the first network with address 0; \<open>None\<close> is the C \<open>NULL\<close>.\<close>

fun find_free_from :: "network_t list \<Rightarrow> nat \<Rightarrow> nat option" where
  "find_free_from [] i = None"
| "find_free_from (n # ns) i = (if nw_addr n = 0 then Some i else find_free_from ns (Suc i))"

definition find_free_spot :: "network_t list \<Rightarrow> nat option" where
  "find_free_spot networks = find_free_from networks 0"

text \<open>A network whose mask is the prefix of length \<open>p\<close> and whose address has no host bits.\<close>

definition wf_network :: "nat \<Rightarrow> network_t \<Rightarrow> bool" where
  "wf_network p n \<longleftrightarrow> p \<le> 32 \<and> nw_mask n = prefix_mask p \<and> nw_addr n AND prefix_mask p = nw_addr n"

lemma mask_minus_one: "push_bit p (1 :: u32) - 1 = mask p"
  by (simp add: mask_eq_exp_minus_1 push_bit_eq_mult)

lemma get_node_subnet_wf:
  assumes "wf_network p n" "p \<le> 27"
  shows "get_node_subnet n b =
    Some \<lparr>nw_addr = nw_addr n OR push_bit (29 - p) b, nw_mask = prefix_mask (p + 3)\<rparr>"
proof -
  have ms: "mask_size (nw_mask n) = of_nat p"
    using assms by (simp add: wf_network_def mask_size_prefix)
  have pl: "mask_size (nw_mask n) + 3 = of_nat (p + 3)"
    by (simp add: ms)
  have u: "unat (of_nat (p + 3) :: u32) = p + 3"
    using assms by (simp add: unat_of_nat del: of_nat_add)
  have d: "(32 :: u32) - of_nat (p + 3) = of_nat (29 - p)"
  proof -
    have "(of_nat 32 :: u32) - of_nat (p + 3) = of_nat (32 - (p + 3))"
      using assms by (subst of_nat_diff) simp_all
    then show ?thesis by simp
  qed
  have u2: "unat (of_nat (29 - p) :: u32) = 29 - p"
    by (simp add: unat_of_nat)
  have u3: "unat (29 - of_nat p :: u32) = 29 - p"
    using d u2 by simp
  have nm: "push_bit (29 - p) (push_bit (p + 3) (1 :: u32) - 1) = prefix_mask (p + 3)"
    unfolding mask_minus_one prefix_mask_def using assms(2) by simp
  have small: "\<not> (of_nat (p + 3) :: u32) \<ge> 31"
    using assms by (simp add: word_le_nat_alt u del: of_nat_add)
  show ?thesis
    unfolding get_node_subnet_def Let_def pl d u u2 nm mask_size_prefix [of "p + 3"]
    using assms small mask_size_prefix [of "p + 3"]
    by (simp add: u3)
qed


lemma get_node_subnet_none:
  assumes "mask_size (nw_mask n) + 3 \<ge> 31"
  shows "get_node_subnet n b = None"
  using assms by (simp add: get_node_subnet_def Let_def)

text \<open>An orientation is 1 to 5 and fits the three bits of a block.\<close>

lemma bit_less_8: "(b :: u32) < 8 \<Longrightarrow> bit b k \<Longrightarrow> k < 3"
proof -
  assume "b < 8" "bit b k"
  have "unat (take_bit 3 b) = unat b"
    using \<open>b < 8\<close> by (simp add: unsigned_take_bit_eq take_bit_nat_eq_self word_less_nat_alt)
  then have "b = take_bit 3 b"
    by (metis word_unat_eq_iff)
  then show "k < 3"
    using \<open>bit b k\<close> by (metis bit_take_bit_iff)
qed

lemma addr_bits: "wf_network p n \<Longrightarrow> bit (nw_addr n) i \<Longrightarrow> 32 - p \<le> i"
proof -
  assume w: "wf_network p n" and b: "bit (nw_addr n) i"
  have "bit (nw_addr n AND prefix_mask p) i"
    using w b by (simp add: wf_network_def)
  then show "32 - p \<le> i"
    using w by (simp add: bit_simps bit_prefix_mask wf_network_def)
qed

lemma in_network_bits:
  "wf_network p n \<Longrightarrow> in_network ip n \<longleftrightarrow> (\<forall>i < 32. 32 - p \<le> i \<longrightarrow> bit ip i = bit (nw_addr n) i)"
  unfolding in_network_def
  using addr_bits [of p n]
  by (auto simp: bit_eq_iff bit_simps bit_prefix_mask wf_network_def)

lemma subnet_bits:
  assumes "wf_network p n" "p \<le> 27" "b < 8" "get_node_subnet n b = Some s" "i < 32"
  shows "bit (nw_addr s) i \<longleftrightarrow>
    (if 32 - p \<le> i then bit (nw_addr n) i else 29 - p \<le> i \<and> bit b (i - (29 - p)))"
proof -
  have s: "nw_addr s = nw_addr n OR push_bit (29 - p) b"
    using assms(4) get_node_subnet_wf [OF assms(1,2), of b] by auto
  show ?thesis
    using assms(2,5) addr_bits [OF assms(1), of i] bit_less_8 [OF assms(3), of "i - (29 - p)"]
    by (auto simp: s bit_simps)
qed

lemma subnet_wf:
  assumes "wf_network p n" "p \<le> 27" "b < 8" "get_node_subnet n b = Some s"
  shows "wf_network (p + 3) s"
proof -
  have m: "nw_mask s = prefix_mask (p + 3)"
    using assms(4) get_node_subnet_wf [OF assms(1,2), of b] by auto
  have "nw_addr s AND prefix_mask (p + 3) = nw_addr s"
  proof (rule bit_word_eqI)
    fix i
    assume "i < LENGTH(32)"
    then show "bit (nw_addr s AND prefix_mask (p + 3)) i = bit (nw_addr s) i"
      using assms(2) subnet_bits [OF assms, of i]
      by (auto simp: bit_simps bit_prefix_mask split: if_splits)
  qed
  with m assms(2) show ?thesis by (simp add: wf_network_def)
qed

lemma in_subnet:
  assumes "wf_network p n" "p \<le> 27" "b < 8" "get_node_subnet n b = Some s"
  shows "in_network ip s \<longleftrightarrow> in_network ip n \<and> (\<forall>k < 3. bit ip (29 - p + k) = bit b k)"
proof -
  have "in_network ip s \<longleftrightarrow> (\<forall>i < 32. 29 - p \<le> i \<longrightarrow> bit ip i = bit (nw_addr s) i)"
    using in_network_bits [OF subnet_wf [OF assms], of ip] assms(2) by simp
  also have "\<dots> \<longleftrightarrow> (\<forall>i < 32. 32 - p \<le> i \<longrightarrow> bit ip i = bit (nw_addr n) i) \<and>
      (\<forall>i < 32. 29 - p \<le> i \<and> i < 32 - p \<longrightarrow> bit ip i = bit b (i - (29 - p)))"
    using subnet_bits [OF assms] assms(2) by (auto simp: not_le)
  also have "(\<forall>i < 32. 29 - p \<le> i \<and> i < 32 - p \<longrightarrow> bit ip i = bit b (i - (29 - p))) \<longleftrightarrow>
      (\<forall>k < 3. bit ip (29 - p + k) = bit b k)"
  proof (rule iffI; intro allI impI)
    fix k :: nat
    assume a: "\<forall>i < 32. 29 - p \<le> i \<and> i < 32 - p \<longrightarrow> bit ip i = bit b (i - (29 - p))" and "k < 3"
    have "29 - p + k < 32" "29 - p \<le> 29 - p + k" "29 - p + k < 32 - p"
      using \<open>k < 3\<close> assms(2) by arith+
    with a have "bit ip (29 - p + k) = bit b (29 - p + k - (29 - p))"
      by blast
    then show "bit ip (29 - p + k) = bit b k"
      by (simp only: diff_add_inverse)
  next
    fix i :: nat
    assume a: "\<forall>k < 3. bit ip (29 - p + k) = bit b k" and i: "i < 32" "29 - p \<le> i \<and> i < 32 - p"
    have "i - (29 - p) < 3" "29 - p + (i - (29 - p)) = i"
      using i assms(2) by arith+
    then show "bit ip i = bit b (i - (29 - p))"
      using a [rule_format, of "i - (29 - p)"] by simp
  qed
  finally show ?thesis
    using in_network_bits [OF assms(1)] by simp
qed

lemma blocks_differ:
  assumes "(b :: u32) < 8" "c < 8" "b \<noteq> c"
  shows "\<exists>k < 3. bit b k \<noteq> bit c k"
proof (rule ccontr)
  assume "\<not> (\<exists>k < 3. bit b k \<noteq> bit c k)"
  then have "b = c"
    using bit_less_8 [OF assms(1)] bit_less_8 [OF assms(2)] by (auto simp: bit_eq_iff)
  with assms(3) show False ..
qed

lemma subnets_apart:
  assumes "wf_network p n" "p \<le> 27" "b < 8" "c < 8" "b \<noteq> c"
    and "get_node_subnet n b = Some s" "get_node_subnet n c = Some t"
  shows "\<not> (in_network ip s \<and> in_network ip t)"
  using blocks_differ [OF assms(3-5)] in_subnet [OF assms(1-3,6)] in_subnet [OF assms(1,2,4,7)] by auto

lemma board_number_less: "(b :: u32) \<in> {1..5} \<Longrightarrow> b < 8"
  using order_le_less_trans [of b 5 8] by auto

text \<open>
  Property C16 (utils): from a network with a contiguous mask of at most 27 bits and no host
  bits, every board gets a network of its own, three bits longer and well formed, which lies
  inside the node's network, and the networks of two boards of different orientation have no
  address in common.
\<close>

theorem node_subnets_partition:
  assumes "wf_network p n" and "p \<le> 27" and "b \<in> {1..5}" and "c \<in> {1..5}"
  shows "\<exists>s t. get_node_subnet n b = Some s \<and> get_node_subnet n c = Some t \<and>
    wf_network (p + 3) s \<and> (\<forall>ip. in_network ip s \<longrightarrow> in_network ip n) \<and>
    (b \<noteq> c \<longrightarrow> \<not> (\<exists>ip. in_network ip s \<and> in_network ip t))"
proof -
  obtain s t where s: "get_node_subnet n b = Some s" and t: "get_node_subnet n c = Some t"
    using get_node_subnet_wf [OF assms(1,2)] by blast
  note b = board_number_less [OF assms(3)] board_number_less [OF assms(4)]
  have "b \<noteq> c \<Longrightarrow> \<not> (\<exists>ip. in_network ip s \<and> in_network ip t)"
    using subnets_apart [OF assms(1,2) b _ s t] by blast
  with s t in_subnet [OF assms(1,2) b(1) s] subnet_wf [OF assms(1,2) b(1) s] show ?thesis by blast
qed

theorem node_subnets_partition_witness:
  "\<exists>s t. get_node_subnet (NETWORK 0x0A000000 0xFF000000) 1 = Some s \<and>
     get_node_subnet (NETWORK 0x0A000000 0xFF000000) 2 = Some t \<and>
     \<not> (\<exists>ip. in_network ip s \<and> in_network ip t)"
proof -
  have "wf_network 8 (NETWORK 0x0A000000 0xFF000000)"
    by (simp add: wf_network_def prefix_mask_def mask_eq_exp_minus_1 push_bit_eq_mult)
  from node_subnets_partition [OF this, of 1 2] show ?thesis by auto
qed

text \<open>The networks along a chain of boards, each given a block of the network before it.\<close>

fun subnet_chain :: "network_t \<Rightarrow> u32 list \<Rightarrow> network_t option" where
  "subnet_chain n [] = Some n"
| "subnet_chain n (b # bs) = do { s \<leftarrow> get_node_subnet n b; subnet_chain s bs }"

lemma subnet_chain_wf:
  assumes "wf_network p n" "p + 3 * length bs \<le> 30" "\<forall>b \<in> set bs. b < 8"
  shows "\<exists>s. subnet_chain n bs = Some s \<and> wf_network (p + 3 * length bs) s"
  using assms
proof (induction bs arbitrary: p n)
  case Nil
  then show ?case by simp
next
  case (Cons b bs)
  obtain s where s: "get_node_subnet n b = Some s"
    using get_node_subnet_wf [OF Cons.prems(1)] Cons.prems(2) by auto
  have "wf_network (p + 3) s"
    using Cons.prems s by (intro subnet_wf [of _ n b]) auto
  from Cons.IH [OF this] Cons.prems s show ?case
    by (auto simp: algebra_simps)
qed

lemma subnet_chain_append:
  "subnet_chain n (bs @ cs) = do { s \<leftarrow> subnet_chain n bs; subnet_chain s cs }"
  by (induction bs arbitrary: n) (simp_all split: Option.bind_splits)

text \<open>
  Property C34 (utils): starting from the network 10.0.0.0/8 of the root, the block computation is
  defined for every chain of up to seven boards, with a prefix three bits longer at each, and
  undefined (a shift by 32) for every chain of eight or more: the mesh is seven levels deep.
\<close>

theorem subnet_depth:
  assumes "\<forall>b \<in> set bs. b \<in> {1..5}"
  shows "if length bs \<le> 7
    then \<exists>s. subnet_chain (NETWORK 0x0A000000 0xFF000000) bs = Some s \<and>
           wf_network (8 + 3 * length bs) s
    else subnet_chain (NETWORK 0x0A000000 0xFF000000) bs = None"
proof -
  let ?root = "NETWORK 0x0A000000 0xFF000000"
  have root: "wf_network 8 ?root"
    by (simp add: wf_network_def prefix_mask_def mask_eq_exp_minus_1 push_bit_eq_mult)
  have le: "(5 :: u32) < 8" by simp
  have small: "\<forall>b \<in> set bs. b < 8"
    using assms order_le_less_trans [OF _ le] by auto
  show ?thesis
  proof (cases "length bs \<le> 7")
    case True
    with subnet_chain_wf [OF root _ small] show ?thesis by simp
  next
    case False
    let ?front = "take 7 bs"
    have len: "length ?front = 7" using False by simp
    have "\<forall>b \<in> set ?front. b < 8" using small by (auto dest: in_set_takeD)
    from subnet_chain_wf [OF root _ this] len
    obtain s where s: "subnet_chain ?root ?front = Some s" "wf_network 29 s"
      by auto
    have ge: "mask_size (nw_mask s) + 3 \<ge> 31"
      using s(2) by (simp add: wf_network_def mask_size_prefix)
    obtain c cs where d: "drop 7 bs = c # cs"
      using False by (cases "drop 7 bs") auto
    have "subnet_chain ?root (?front @ drop 7 bs) = None"
      unfolding subnet_chain_append s(1) d
      using get_node_subnet_none [OF ge] by simp
    then show ?thesis using False by simp
  qed
qed

theorem subnet_depth_witness:
  "subnet_chain (NETWORK 0x0A000000 0xFF000000) (replicate 8 1) = None"
  using subnet_depth [of "replicate 8 1"] by simp

end
