(* ===== verification/Routing_Table.thy ===== *)
theory Routing_Table
  imports Subnets
begin

text \<open>
  The node's routing table (\<open>routing/src/routing_table.c\<close>): an array of sixteen entries of which
  the first \<open>count\<close> are in use, ordered by decreasing mask, and a default gateway. The model keeps
  the array: insertion moves the tail with \<open>memmove\<close>, removal compacts a copy, and stale entries
  stay behind \<open>count\<close>. The loops read \<open>entries[i]\<close> for \<open>i < count\<close> only, and \<open>count\<close> is at most 16
  in every table the operations make (\<open>table_wf\<close>).

  The contract of the component is that of a map from (network, mask) to an output, looked up by
  longest match; \<open>prefix_router\<close> states it, and the table is an instance.
\<close>

section \<open>State\<close>

definition MAX_ROUTING_ENTRIES :: nat where "MAX_ROUTING_ENTRIES = 16"

record rt_routing_entry =
  re_network :: u32
  re_mask :: u32
  re_output :: u8

record rt_routing_table =
  default_gateway :: u8
  rt_count :: nat
  rt_entries :: "rt_routing_entry list"

definition zero_entry :: rt_routing_entry where
  "zero_entry = \<lparr>re_network = 0, re_mask = 0, re_output = 0\<rparr>"

definition used :: "rt_routing_table \<Rightarrow> rt_routing_entry list" where
  "used t = take (rt_count t) (rt_entries t)"

section \<open>Operations\<close>

definition routing_table_init :: "u8 \<Rightarrow> rt_routing_table" where
  "routing_table_init gw =
     \<lparr>default_gateway = gw, rt_count = 0, rt_entries = replicate MAX_ROUTING_ENTRIES zero_entry\<rparr>"

text \<open>Where the first loop of \<open>routing_table_add\<close> stops: at the same entry, or at a position.\<close>

datatype add_scan = SameEntry nat | Position nat

fun scan_entries :: "rt_routing_entry list \<Rightarrow> nat \<Rightarrow> u32 \<Rightarrow> u32 \<Rightarrow> add_scan" where
  "scan_entries [] i network msk = Position i"
| "scan_entries (e # es) i network msk =
     (if re_network e = network \<and> re_mask e = msk then SameEntry i
      else if re_mask e < msk then Position i
      else scan_entries es (Suc i) network msk)"

text \<open>\<open>memmove\<close> of \<open>n\<close> elements from \<open>pos\<close> to \<open>pos + 1\<close>.\<close>

definition memmove_right :: "nat \<Rightarrow> nat \<Rightarrow> 'a list \<Rightarrow> 'a list" where
  "memmove_right pos n es = take (Suc pos) es @ take n (drop pos es) @ drop (Suc pos + n) es"

text \<open>The second component tells whether \<open>os_panic\<close> was called.\<close>

definition routing_table_add ::
  "u32 \<Rightarrow> u32 \<Rightarrow> u8 \<Rightarrow> rt_routing_table \<Rightarrow> rt_routing_table \<times> bool" where
  "routing_table_add network msk output t =
     (if network = 0 \<and> msk = 0 then (t\<lparr>default_gateway := output\<rparr>, False)
      else case scan_entries (used t) 0 network msk of
        SameEntry i \<Rightarrow>
          (t\<lparr>rt_entries := (rt_entries t)[i := (rt_entries t ! i)\<lparr>re_output := output\<rparr>]\<rparr>, False)
      | Position position \<Rightarrow>
          if rt_count t \<ge> MAX_ROUTING_ENTRIES \<or> position \<ge> MAX_ROUTING_ENTRIES then (t, True)
          else
            let elements_to_move = rt_count t - position;
                es = (if elements_to_move > 0
                      then memmove_right position elements_to_move (rt_entries t)
                      else rt_entries t);
                new = (es ! position)\<lparr>re_mask := msk, re_network := network, re_output := output\<rparr>
            in (t\<lparr>rt_entries := es[position := new], rt_count := rt_count t + 1\<rparr>, False))"

text \<open>The loop of \<open>routing_table_remove_by_output\<close> over the used entries of the shadow copy.\<close>

fun remove_loop ::
  "rt_routing_entry list \<Rightarrow> u8 \<Rightarrow> rt_routing_entry list \<Rightarrow> nat \<Rightarrow> rt_routing_entry list \<times> nat" where
  "remove_loop [] output es new_count = (es, new_count)"
| "remove_loop (e # shadow) output es new_count =
     (if re_output e = output then remove_loop shadow output es new_count
      else remove_loop shadow output (es[new_count := e]) (Suc new_count))"

definition routing_table_remove_by_output :: "u8 \<Rightarrow> rt_routing_table \<Rightarrow> rt_routing_table" where
  "routing_table_remove_by_output output t =
     (let (es, new_count) = remove_loop (used t) output (rt_entries t) 0
      in t\<lparr>rt_entries := es, rt_count := new_count\<rparr>)"

fun route_loop :: "rt_routing_entry list \<Rightarrow> u32 \<Rightarrow> u8 \<Rightarrow> u8" where
  "route_loop [] ip dflt = dflt"
| "route_loop (e # es) ip dflt =
     (if ip AND re_mask e = re_network e then re_output e else route_loop es ip dflt)"

definition routing_table_route :: "rt_routing_table \<Rightarrow> u32 \<Rightarrow> u8" where
  "routing_table_route t ip = route_loop (used t) ip (default_gateway t)"

section \<open>Invariant and abstraction\<close>

definition entry_key :: "rt_routing_entry \<Rightarrow> u32 \<times> u32" where
  "entry_key e = (re_network e, re_mask e)"

definition table_wf :: "rt_routing_table \<Rightarrow> bool" where
  "table_wf t \<longleftrightarrow> length (rt_entries t) = MAX_ROUTING_ENTRIES \<and> rt_count t \<le> MAX_ROUTING_ENTRIES \<and>
     sorted_wrt (\<lambda>a b. re_mask b \<le> re_mask a) (used t) \<and> distinct (map entry_key (used t)) \<and>
     (0, 0) \<notin> entry_key ` set (used t)"

text \<open>The table as a map from (network, mask) to the output.\<close>

definition route_map :: "rt_routing_table \<Rightarrow> (u32 \<times> u32) \<rightharpoonup> u8" where
  "route_map t = map_of (map (\<lambda>e. (entry_key e, re_output e)) (used t))"

section \<open>Insertion into the used entries\<close>

text \<open>What the array operations do to the list of used entries.\<close>

fun insert_route :: "rt_routing_entry \<Rightarrow> rt_routing_entry list \<Rightarrow> rt_routing_entry list" where
  "insert_route n [] = [n]"
| "insert_route n (e # es) =
     (if entry_key e = entry_key n then n # es
      else if re_mask e < re_mask n then n # e # es
      else e # insert_route n es)"

definition mk_entry :: "u32 \<Rightarrow> u32 \<Rightarrow> u8 \<Rightarrow> rt_routing_entry" where
  "mk_entry network msk output = \<lparr>re_network = network, re_mask = msk, re_output = output\<rparr>"

lemma mk_entry_key [simp]: "entry_key (mk_entry n m out) = (n, m)" "re_mask (mk_entry n m out) = m"
  "re_output (mk_entry n m out) = out" "re_network (mk_entry n m out) = n"
  by (simp_all add: mk_entry_def entry_key_def)

lemma scan_same:
  "scan_entries es i n m = SameEntry j \<Longrightarrow>
     \<exists>k < length es. j = i + k \<and> entry_key (es ! k) = (n, m) \<and>
       insert_route (mk_entry n m out) es = es[k := mk_entry n m out]"
proof (induction es arbitrary: i)
  case Nil
  then show ?case by simp
next
  case (Cons e es)
  show ?case
  proof (cases "re_network e = n \<and> re_mask e = m")
    case True
    with Cons.prems show ?thesis
      by (intro exI [of _ 0]) (auto simp: entry_key_def mk_entry_def)
  next
    case False
    with Cons.prems have s: "scan_entries es (Suc i) n m = SameEntry j" and "\<not> re_mask e < m"
      by (auto split: if_splits)
    with Cons.IH [OF s] False show ?thesis
      by (auto simp: entry_key_def mk_entry_def intro!: exI [of _ "Suc _"])
  qed
qed

lemma scan_position:
  "scan_entries es i n m = Position j \<Longrightarrow>
     \<exists>k \<le> length es. j = i + k \<and>
       insert_route (mk_entry n m out) es = take k es @ mk_entry n m out # drop k es \<and>
       (\<forall>e \<in> set (take k es). m \<le> re_mask e \<and> entry_key e \<noteq> (n, m)) \<and>
       (\<forall>e es'. drop k es = e # es' \<longrightarrow> re_mask e < m)"
proof (induction es arbitrary: i)
  case Nil
  then show ?case by simp
next
  case (Cons e es)
  have ne: "\<not> (re_network e = n \<and> re_mask e = m)"
    using Cons.prems by (auto split: if_splits)
  show ?case
  proof (cases "re_mask e < m")
    case True
    with Cons.prems ne show ?thesis
      by (intro exI [of _ 0]) (auto simp: entry_key_def mk_entry_def split: if_splits)
  next
    case False
    with Cons.prems ne have s: "scan_entries es (Suc i) n m = Position j"
      by (auto split: if_splits)
    with Cons.IH [OF s] False ne show ?thesis
      by (auto simp: entry_key_def mk_entry_def not_less intro!: exI [of _ "Suc _"])
  qed
qed

lemma insert_keys: "entry_key ` set (insert_route x es) \<subseteq> insert (entry_key x) (entry_key ` set es)"
  by (induction es) auto

lemma insert_masks:
  "e \<in> set (insert_route x es) \<Longrightarrow> e = x \<or> e \<in> set es"
  by (induction es) (auto split: if_splits)

lemma sorted_insert_route:
  "sorted_wrt (\<lambda>a b. re_mask b \<le> re_mask a) es \<Longrightarrow>
   sorted_wrt (\<lambda>a b. re_mask b \<le> re_mask a) (insert_route x es)"
proof (induction es)
  case (Cons e es)
  show ?case
  proof (cases "entry_key e = entry_key x")
    case True
    then have "re_mask e = re_mask x" by (simp add: entry_key_def)
    with Cons True show ?thesis by simp
  next
    case False
    with Cons show ?thesis
      by (auto dest!: insert_masks simp: not_less)
  qed
qed simp

lemma distinct_insert_route:
  assumes "sorted_wrt (\<lambda>a b. re_mask b \<le> re_mask a) es" "distinct (map entry_key es)"
  shows "distinct (map entry_key (insert_route x es))"
  using assms
proof (induction es)
  case (Cons e es)
  have smaller: "entry_key x \<notin> entry_key ` set (e # es)" if "re_mask e < re_mask x"
    using that Cons.prems(1) by (auto simp: entry_key_def)
  show ?case
    using Cons smaller insert_keys [of x es] by auto
qed simp

lemma map_of_insert_route:
  assumes "sorted_wrt (\<lambda>a b. re_mask b \<le> re_mask a) es"
  shows "map_of (map (\<lambda>e. (entry_key e, re_output e)) (insert_route x es)) =
    (map_of (map (\<lambda>e. (entry_key e, re_output e)) es))(entry_key x \<mapsto> re_output x)"
  using assms
  by (induction es) (auto simp: fun_upd_twist)

lemma remove_loop_list:
  assumes "length (filter (\<lambda>e. re_output e \<noteq> out) shadow) + k \<le> length es"
  shows "let (es', c) = remove_loop shadow out es k in
     c = k + length (filter (\<lambda>e. re_output e \<noteq> out) shadow) \<and> length es' = length es \<and>
     take c es' = take k es @ filter (\<lambda>e. re_output e \<noteq> out) shadow"
  using assms
proof (induction shadow arbitrary: es k)
  case Nil
  then show ?case by simp
next
  case (Cons e shadow)
  show ?case
  proof (cases "re_output e = out")
    case True
    with Cons show ?thesis by simp
  next
    case False
    with Cons.prems have "length (filter (\<lambda>e. re_output e \<noteq> out) shadow) + Suc k \<le> length (es[k := e])"
      by simp
    note IH = Cons.IH [OF this]
    have "take (Suc k) (es[k := e]) = take k es @ [e]"
      using Cons.prems False by (simp add: take_Suc_conv_app_nth)
    with IH False show ?thesis by (simp add: case_prod_unfold)
  qed
qed

section \<open>The operations on the used entries\<close>

lemma table_wf_lengths:
  "table_wf t \<Longrightarrow> length (rt_entries t) = 16 \<and> rt_count t \<le> 16 \<and> length (used t) = rt_count t"
  by (simp add: table_wf_def MAX_ROUTING_ENTRIES_def used_def)

lemma init_used [simp]: "used (routing_table_init gw) = []"
  by (simp add: used_def routing_table_init_def)

lemma memmove_insert:
  assumes "k \<le> c" "c < length es" "es' = (if c - k > 0 then memmove_right k (c - k) es else es)"
  shows "take (Suc c) (es'[k := x]) = take k (take c es) @ x # drop k (take c es) \<and>
    length es' = length es"
proof (cases "k < c")
  case True
  let ?mid = "take (c - k) (drop k es)"
  have "es' = take k es @ es ! k # ?mid @ drop (Suc c) es"
    using True assms(2,3) by (simp add: memmove_right_def take_Suc_conv_app_nth)
  moreover have "length (take k es) = k"
    using assms(1,2) by simp
  ultimately have "es'[k := x] = (take k es @ x # ?mid) @ drop (Suc c) es"
    by (metis append.assoc append_Cons list_update_length)
  moreover have "length (take k es @ x # ?mid) = Suc c"
    using True assms(2) by simp
  ultimately have "take (Suc c) (es'[k := x]) = take k es @ x # ?mid"
    by (metis append_eq_conv_conj)
  moreover have "length es' = length es"
    using True assms(2,3) by (simp add: memmove_right_def)
  ultimately show ?thesis
    using assms(1) by (simp add: drop_take min_def)
next
  case False
  then have "k = c" "es' = es" using assms by auto
  then show ?thesis
    using assms(2) by (simp add: take_Suc_conv_app_nth)
qed

text \<open>An insertion either changes the default gateway, or fills the table, or inserts.\<close>

lemma add_default [simp]: "routing_table_add 0 0 out t = (t\<lparr>default_gateway := out\<rparr>, False)"
  by (simp add: routing_table_add_def)

text \<open>
  The two ways a route goes into the table: its key is there and the output is changed in place,
  or it goes in front of the first entry with a shorter mask, behind which the others move up.
\<close>

lemma position_is_fresh:
  assumes wf: "table_wf t" and j: "scan_entries (used t) 0 n m = Position j"
  shows "(n, m) \<notin> entry_key ` set (used t)"
proof -
  from scan_position [OF j] have before: "\<forall>e \<in> set (take j (used t)). m \<le> re_mask e \<and> entry_key e \<noteq> (n, m)"
    and after: "\<forall>e es'. drop j (used t) = e # es' \<longrightarrow> re_mask e < m" by auto
  have "\<forall>e \<in> set (drop j (used t)). re_mask e < m"
  proof (cases "drop j (used t)")
    case (Cons e es')
    have "sorted_wrt (\<lambda>a b. re_mask b \<le> re_mask a) (drop j (used t))"
      using wf by (simp add: table_wf_def sorted_wrt_drop)
    with Cons after show ?thesis by (auto intro: order_le_less_trans)
  qed simp
  then have "\<forall>e \<in> set (drop j (used t)). entry_key e \<noteq> (n, m)"
    by (auto simp: entry_key_def)
  with before show ?thesis
    by (metis (no_types, lifting) UnE append_take_drop_id imageE set_append)
qed

lemma add_at_position:
  assumes wf: "table_wf t" and nz: "(n, m) \<noteq> (0, 0)"
    and j: "scan_entries (used t) 0 n m = Position j" and room: "rt_count t \<noteq> 16"
  obtains es where "routing_table_add n m out t = (t\<lparr>rt_entries := es, rt_count := rt_count t + 1\<rparr>, False)"
    "take (Suc (rt_count t)) es = insert_route (mk_entry n m out) (used t)" "length es = 16" "rt_count t < 16"
proof -
  note len = table_wf_lengths [OF wf]
  have z: "(n = 0 \<and> m = 0) = False" using nz by simp
  from scan_position [OF j, of out] have le: "j \<le> rt_count t"
    and ins: "insert_route (mk_entry n m out) (used t) = take j (used t) @ mk_entry n m out # drop j (used t)"
    using len by auto
  with room len have full: "\<not> (rt_count t \<ge> 16 \<or> j \<ge> 16)" and c: "rt_count t < length (rt_entries t)"
    by auto
  define es where "es = (if rt_count t - j > 0
    then memmove_right j (rt_count t - j) (rt_entries t) else rt_entries t)"
  have new: "(es ! j)\<lparr>re_mask := m, re_network := n, re_output := out\<rparr> = mk_entry n m out"
    by (simp add: mk_entry_def)
  have "take (Suc (rt_count t)) (es[j := mk_entry n m out]) = insert_route (mk_entry n m out) (used t)"
      "length es = 16"
    using memmove_insert [OF le c es_def, of "mk_entry n m out"] ins len by (simp_all add: used_def)
  moreover have "routing_table_add n m out t =
      (t\<lparr>rt_entries := es[j := mk_entry n m out], rt_count := rt_count t + 1\<rparr>, False)"
    unfolding routing_table_add_def z if_False j add_scan.case
    using full by (simp only: MAX_ROUTING_ENTRIES_def if_False Let_def es_def [symmetric] new)
  ultimately show thesis using that full by simp
qed

lemma add_used:
  assumes wf: "table_wf t" and nz: "(n, m) \<noteq> (0, 0)"
  shows "(case routing_table_add n m out t of (t', panicked) \<Rightarrow>
     panicked = (rt_count t = 16 \<and> (n, m) \<notin> entry_key ` set (used t)) \<and>
     (if panicked then t' = t
      else used t' = insert_route (mk_entry n m out) (used t) \<and> rt_count t' = length (used t') \<and>
           length (rt_entries t') = 16 \<and> default_gateway t' = default_gateway t))"
proof -
  note len = table_wf_lengths [OF wf]
  have z: "(n = 0 \<and> m = 0) = False" using nz by simp
  note add = routing_table_add_def [of n m out t, unfolded z if_False]
  show ?thesis
  proof (cases "scan_entries (used t) 0 n m")
    case (SameEntry j)
    from scan_same [OF this, of out] have j: "j < rt_count t" "entry_key (used t ! j) = (n, m)"
      "insert_route (mk_entry n m out) (used t) = (used t)[j := mk_entry n m out]"
      using len by auto
    have e: "(rt_entries t ! j)\<lparr>re_output := out\<rparr> = mk_entry n m out"
      using j(1,2) by (simp add: used_def entry_key_def mk_entry_def)
    have "(n, m) \<in> entry_key ` set (used t)"
      using j(1,2) len by (metis image_eqI nth_mem)
    then show ?thesis
      using SameEntry len j(1,3) by (simp add: add e used_def take_update_swap)
  next
    case (Position j)
    note fresh = position_is_fresh [OF wf Position]
    show ?thesis
    proof (cases "rt_count t = 16")
      case True
      with Position fresh show ?thesis by (simp add: add MAX_ROUTING_ENTRIES_def)
    next
      case False
      obtain es where "routing_table_add n m out t = (t\<lparr>rt_entries := es, rt_count := rt_count t + 1\<rparr>, False)"
        "take (Suc (rt_count t)) es = insert_route (mk_entry n m out) (used t)" "length es = 16" "rt_count t < 16"
        by (rule add_at_position [OF wf nz Position False])
      moreover from this have "length (insert_route (mk_entry n m out) (used t)) = Suc (rt_count t)"
        by (metis Suc_leI length_take min.absorb2)
      ultimately show ?thesis using False by (simp add: used_def)
    qed
  qed
qed

lemma remove_used:
  assumes "table_wf t"
  shows "used (routing_table_remove_by_output out t) = filter (\<lambda>e. re_output e \<noteq> out) (used t)"
    and "length (rt_entries (routing_table_remove_by_output out t)) = 16"
    and "rt_count (routing_table_remove_by_output out t) = length (filter (\<lambda>e. re_output e \<noteq> out) (used t))"
    and "default_gateway (routing_table_remove_by_output out t) = default_gateway t"
proof -
  note len = table_wf_lengths [OF assms]
  have "length (filter (\<lambda>e. re_output e \<noteq> out) (used t)) + 0 \<le> length (rt_entries t)"
    using len length_filter_le [of "\<lambda>e. re_output e \<noteq> out" "used t"] by linarith
  note R = remove_loop_list [OF this, unfolded Let_def case_prod_unfold]
  have r: "routing_table_remove_by_output out t =
      t\<lparr>rt_entries := fst (remove_loop (used t) out (rt_entries t) 0),
        rt_count := snd (remove_loop (used t) out (rt_entries t) 0)\<rparr>"
    by (simp add: routing_table_remove_by_output_def case_prod_unfold Let_def)
  show "used (routing_table_remove_by_output out t) = filter (\<lambda>e. re_output e \<noteq> out) (used t)"
    unfolding r used_def [of "_\<lparr>rt_entries := _, rt_count := _\<rparr>"] using R by auto
  show "length (rt_entries (routing_table_remove_by_output out t)) = 16"
    "rt_count (routing_table_remove_by_output out t) = length (filter (\<lambda>e. re_output e \<noteq> out) (used t))"
    "default_gateway (routing_table_remove_by_output out t) = default_gateway t"
    using R len by (simp_all add: r)
qed

lemma table_wf_init: "table_wf (routing_table_init gw)"
  by (simp add: table_wf_def) (simp add: routing_table_init_def)

lemma table_wf_add:
  assumes "table_wf t"
  shows "table_wf (fst (routing_table_add n m out t))"
proof (cases "(n, m) = (0, 0)")
  case True
  with assms show ?thesis by (simp add: table_wf_def used_def)
next
  case False
  let ?u = "used t"
  have s: "sorted_wrt (\<lambda>a b. re_mask b \<le> re_mask a) ?u" "distinct (map entry_key ?u)"
    "(0, 0) \<notin> entry_key ` set ?u" "rt_count t \<le> 16" "length ?u = rt_count t"
    using assms table_wf_lengths [OF assms] by (simp_all add: table_wf_def)
  have z: "(0, 0) \<notin> entry_key ` set (insert_route (mk_entry n m out) ?u)"
    using insert_keys [of "mk_entry n m out" ?u] s(3) False by auto
  have le: "length (insert_route x es) \<le> Suc (length es)" for x es
    by (induction es) auto
  have same: "length (insert_route x es) = length es" if "entry_key x \<in> entry_key ` set es"
    "sorted_wrt (\<lambda>a b. re_mask b \<le> re_mask a) es" for x es
    using that by (induction es) (force simp: entry_key_def)+
  obtain t' pan where t': "routing_table_add n m out t = (t', pan)"
    by (cases "routing_table_add n m out t")
  note A = add_used [OF assms False, of out, unfolded t' prod.case]
  show ?thesis
  proof (cases pan)
    case True
    with A assms t' show ?thesis by simp
  next
    case pan: False
    have "rt_count t' \<le> 16"
    proof (cases "(n, m) \<in> entry_key ` set ?u")
      case True
      then show ?thesis using A pan same [of "mk_entry n m out" ?u] s by simp
    next
      case False
      then show ?thesis using A pan le [of "mk_entry n m out" ?u] s by auto
    qed
    then show ?thesis
      using A pan t' z sorted_insert_route [OF s(1)] distinct_insert_route [OF s(1,2)]
      by (simp add: table_wf_def MAX_ROUTING_ENTRIES_def)
  qed
qed

lemma table_wf_remove:
  assumes "table_wf t"
  shows "table_wf (routing_table_remove_by_output out t)"
proof -
  have "length (filter (\<lambda>e. re_output e \<noteq> out) (used t)) \<le> 16"
    using table_wf_lengths [OF assms] length_filter_le [of "\<lambda>e. re_output e \<noteq> out" "used t"] by linarith
  then show ?thesis
    using assms
    by (auto simp: table_wf_def remove_used [OF assms] MAX_ROUTING_ENTRIES_def sorted_wrt_filter
        distinct_map_filter)
qed

section \<open>The abstract router\<close>

text \<open>
  What the routing component relies on: routes are a finite map from (network, mask) to an
  output; an address is sent to the output of a matching route with the greatest mask, and to
  the default gateway when no route matches.
\<close>

definition matches :: "u32 \<Rightarrow> u32 \<times> u32 \<Rightarrow> bool" where
  "matches ip k \<longleftrightarrow> ip AND snd k = fst k"

locale prefix_router =
  fixes inv :: "'t \<Rightarrow> bool"
    and routes :: "'t \<Rightarrow> (u32 \<times> u32) \<rightharpoonup> u8"
    and gateway :: "'t \<Rightarrow> u8"
    and add_route :: "u32 \<Rightarrow> u32 \<Rightarrow> u8 \<Rightarrow> 't \<Rightarrow> 't \<times> bool"
    and remove_output :: "u8 \<Rightarrow> 't \<Rightarrow> 't"
    and route :: "'t \<Rightarrow> u32 \<Rightarrow> u8"
  assumes inv_add: "inv t \<Longrightarrow> inv (fst (add_route n m out t))"
    and inv_remove: "inv t \<Longrightarrow> inv (remove_output out t)"
    and finite_routes: "inv t \<Longrightarrow> finite (dom (routes t))"
    and add_full: "inv t \<Longrightarrow> snd (add_route n m out t) \<Longrightarrow> fst (add_route n m out t) = t"
    and routes_add: "inv t \<Longrightarrow> (n, m) \<noteq> (0, 0) \<Longrightarrow> \<not> snd (add_route n m out t) \<Longrightarrow>
      routes (fst (add_route n m out t)) = (routes t)((n, m) \<mapsto> out) \<and>
      gateway (fst (add_route n m out t)) = gateway t"
    and add_default: "inv t \<Longrightarrow> routes (fst (add_route 0 0 out t)) = routes t \<and>
      gateway (fst (add_route 0 0 out t)) = out"
    and routes_remove: "inv t \<Longrightarrow> routes (remove_output out t) k =
      (if routes t k = Some out then None else routes t k) \<and>
      gateway (remove_output out t) = gateway t"
    and route_match: "inv t \<Longrightarrow> routes t k = Some out \<Longrightarrow> matches ip k \<Longrightarrow>
      (\<forall>k' \<in> dom (routes t). matches ip k' \<longrightarrow> snd k' \<le> snd k) \<Longrightarrow> route t ip = out"
    and route_no_match: "inv t \<Longrightarrow> (\<forall>k \<in> dom (routes t). \<not> matches ip k) \<Longrightarrow>
      route t ip = gateway t"
begin

text \<open>Of the routes that match an address, one has the greatest mask, and only one.\<close>

lemma best_match:
  assumes "inv t" and "k \<in> dom (routes t)" and "matches ip k"
  obtains b out where "routes t b = Some out" "matches ip b" "route t ip = out"
    "\<forall>k' \<in> dom (routes t). matches ip k' \<longrightarrow> snd k' \<le> snd b"
proof -
  let ?M = "{k \<in> dom (routes t). matches ip k}"
  have fin: "finite (snd ` ?M)"
    using finite_routes [OF assms(1)] by simp
  have "snd ` ?M \<noteq> {}"
    using assms(2,3) by blast
  with fin have "Max (snd ` ?M) \<in> snd ` ?M"
    by (rule Max_in)
  then obtain b where b: "b \<in> ?M" "snd b = Max (snd ` ?M)"
    by (metis (no_types, lifting) imageE)
  have top: "\<forall>k' \<in> dom (routes t). matches ip k' \<longrightarrow> snd k' \<le> snd b"
    unfolding b(2) using fin by (auto intro!: Max_ge)
  from b(1) obtain out where "routes t b = Some out" "matches ip b"
    by auto
  then show thesis
    using that route_match [OF assms(1) _ _ top] top by metis
qed

lemma route_range:
  assumes "inv t"
  shows "route t ip = gateway t \<or> route t ip \<in> ran (routes t)"
proof (cases "\<exists>k \<in> dom (routes t). matches ip k")
  case True
  then show ?thesis
    using best_match [OF assms] by (metis ranI)
next
  case False
  then show ?thesis using route_no_match [OF assms, of ip] by blast
qed

lemma route_after_add:
  assumes "inv t" "(n, m) \<noteq> (0, 0)" "\<not> snd (add_route n m out t)" "ip AND m = n"
    and "\<forall>k \<in> dom (routes t). matches ip k \<longrightarrow> snd k \<le> m"
  shows "route (fst (add_route n m out t)) ip = out"
  using assms routes_add [OF assms(1-3)]
  by (intro route_match [of _ "(n, m)"]) (auto simp: matches_def inv_add)

lemma route_add_other:
  assumes "inv t" "(n, m) \<noteq> (0, 0)" "ip AND m \<noteq> n"
  shows "route (fst (add_route n m out t)) ip = route t ip"
proof (cases "snd (add_route n m out t)")
  case True
  with assms show ?thesis by (simp add: add_full)
next
  case False
  note R = routes_add [OF assms(1,2) False]
  have i: "inv (fst (add_route n m out t))" using assms(1) by (rule inv_add)
  show ?thesis
  proof (cases "\<exists>k \<in> dom (routes t). matches ip k")
    case True
    then obtain b q where b: "routes t b = Some q" "matches ip b" "route t ip = q"
      "\<forall>k' \<in> dom (routes t). matches ip k' \<longrightarrow> snd k' \<le> snd b"
      using best_match [OF assms(1)] by metis
    have "b \<noteq> (n, m)" using b(2) assms(3) by (auto simp: matches_def)
    then have "route (fst (add_route n m out t)) ip = q"
      using R b assms(3) by (intro route_match [OF i, of b]) (auto simp: matches_def)
    with b show ?thesis by simp
  next
    case False
    then have "route (fst (add_route n m out t)) ip = gateway (fst (add_route n m out t))"
      using R assms(3) by (intro route_no_match [OF i]) (auto simp: matches_def)
    with False R show ?thesis
      using route_no_match [OF assms(1), of ip] by simp
  qed
qed

lemma route_after_remove:
  assumes "inv t"
  shows "route (remove_output out t) ip = out \<Longrightarrow> gateway t = out"
  using route_range [OF inv_remove [OF assms], of out ip] routes_remove [OF assms]
  by (auto simp: ran_def split: if_splits)

end


section \<open>The table is a prefix router\<close>

lemma dom_route_map: "dom (route_map t) = entry_key ` set (used t)"
  by (simp add: route_map_def dom_map_of_conv_image_fst image_image)

lemma route_map_Some:
  assumes "table_wf t"
  shows "route_map t k = Some out \<longleftrightarrow> (\<exists>e \<in> set (used t). entry_key e = k \<and> re_output e = out)"
proof -
  have "distinct (map fst (map (\<lambda>e. (entry_key e, re_output e)) (used t)))"
    using assms by (simp add: table_wf_def comp_def)
  then show ?thesis
    by (auto simp: route_map_def)
qed

lemma route_loop_none: "\<forall>e \<in> set es. \<not> matches ip (entry_key e) \<Longrightarrow> route_loop es ip d = d"
  by (induction es) (auto simp: matches_def entry_key_def)

lemma route_loop_first:
  assumes "sorted_wrt (\<lambda>a b. re_mask b \<le> re_mask a) es" "distinct (map entry_key es)"
    and "e \<in> set es" "matches ip (entry_key e)"
    and "\<forall>e' \<in> set es. matches ip (entry_key e') \<longrightarrow> re_mask e' \<le> re_mask e"
  shows "route_loop es ip d = re_output e"
  using assms
proof (induction es)
  case Nil
  then show ?case by simp
next
  case (Cons a es)
  show ?case
  proof (cases "matches ip (entry_key a)")
    case True
    have "a = e"
    proof (rule ccontr)
      assume "a \<noteq> e"
      then have e: "e \<in> set es" using Cons.prems(3) by auto
      then have "re_mask e = re_mask a" using Cons.prems True by (auto intro: order_antisym)
      then have "entry_key e = entry_key a"
        using True Cons.prems(4) by (auto simp: matches_def entry_key_def)
      then show False using e Cons.prems(2) by (auto simp: image_iff)
    qed
    with True show ?thesis by (simp add: matches_def entry_key_def)
  next
    case False
    with Cons show ?thesis by (auto simp: matches_def entry_key_def)
  qed
qed

lemma route_map_filter:
  assumes "distinct (map entry_key es)"
  shows "map_of (map (\<lambda>e. (entry_key e, re_output e)) (filter (\<lambda>e. re_output e \<noteq> out) es)) k =
    (let r = map_of (map (\<lambda>e. (entry_key e, re_output e)) es) k
     in if r = Some out then None else r)"
proof -
  have "map_of (map (\<lambda>e. (entry_key e, re_output e)) (filter (\<lambda>e. re_output e \<noteq> out) es)) k = None"
    if "k \<notin> entry_key ` set es" for es
    using that by (auto simp: map_of_eq_None_iff)
  with assms show ?thesis
    by (induction es) (auto simp: Let_def)
qed

lemma route_map_add:
  assumes "table_wf t" "(n, m) \<noteq> (0, 0)" "\<not> snd (routing_table_add n m out t)"
  shows "route_map (fst (routing_table_add n m out t)) = (route_map t)((n, m) \<mapsto> out) \<and>
    default_gateway (fst (routing_table_add n m out t)) = default_gateway t"
proof -
  have "sorted_wrt (\<lambda>a b. re_mask b \<le> re_mask a) (used t)"
    using assms(1) by (simp add: table_wf_def)
  then show ?thesis
    using add_used [OF assms(1,2), of out] assms(3) map_of_insert_route [of "used t" "mk_entry n m out"]
    by (simp add: route_map_def case_prod_unfold)
qed

interpretation rt: prefix_router table_wf route_map default_gateway
  routing_table_add routing_table_remove_by_output routing_table_route
proof
  fix t n m out ip k
  assume wf: "table_wf t"
  show "table_wf (fst (routing_table_add n m out t))"
    by (rule table_wf_add [OF wf])
  show "table_wf (routing_table_remove_by_output out t)"
    by (rule table_wf_remove [OF wf])
  show "finite (dom (route_map t))"
    by (simp add: dom_route_map)
  show "fst (routing_table_add n m out t) = t" if "snd (routing_table_add n m out t)"
    using that add_used [OF wf, of n m out] by (cases "(n, m) = (0, 0)") (auto simp: case_prod_unfold)
  show "route_map (fst (routing_table_add n m out t)) = (route_map t)((n, m) \<mapsto> out) \<and>
    default_gateway (fst (routing_table_add n m out t)) = default_gateway t"
    if "(n, m) \<noteq> (0, 0)" "\<not> snd (routing_table_add n m out t)"
    using route_map_add [OF wf] that by blast
  show "route_map (fst (routing_table_add 0 0 out t)) = route_map t \<and>
    default_gateway (fst (routing_table_add 0 0 out t)) = out"
    by (simp add: route_map_def used_def)
  show "route_map (routing_table_remove_by_output out t) k =
      (if route_map t k = Some out then None else route_map t k) \<and>
    default_gateway (routing_table_remove_by_output out t) = default_gateway t"
    using wf by (simp add: route_map_def remove_used [OF wf] route_map_filter table_wf_def Let_def)
  show "routing_table_route t ip = out" if "route_map t k = Some out" "matches ip k"
    "\<forall>k' \<in> dom (route_map t). matches ip k' \<longrightarrow> snd k' \<le> snd k"
    using that wf route_loop_first [of "used t" _ ip]
    by (auto simp: routing_table_route_def route_map_Some [OF wf] dom_route_map table_wf_def entry_key_def)
  show "routing_table_route t ip = default_gateway t" if "\<forall>k \<in> dom (route_map t). \<not> matches ip k"
    using that by (auto simp: routing_table_route_def dom_route_map intro: route_loop_none)
qed

section \<open>The table as raw bytes\<close>

text \<open>
  \<open>rt_routing_table_t\<close> is shared raw between the boards. On the ESP32 it takes 200 bytes: the
  gateway and three bytes of padding, \<open>count\<close> in four bytes, and sixteen entries of twelve bytes,
  the last three of them padding. \<open>pad\<close> is whatever the padding holds; the receiver never
  looks at it.
\<close>

definition entry_bytes :: "byte \<Rightarrow> rt_routing_entry \<Rightarrow> byte list" where
  "entry_bytes pad e = le32 (re_network e) @ le32 (re_mask e) @ [re_output e, pad, pad, pad]"

definition entry_of_bytes :: "byte list \<Rightarrow> rt_routing_entry" where
  "entry_of_bytes bs =
     \<lparr>re_network = un32 bs, re_mask = un32 (drop 4 bs), re_output = bs ! 8\<rparr>"

definition table_bytes :: "byte \<Rightarrow> rt_routing_table \<Rightarrow> byte list" where
  "table_bytes pad t =
     [default_gateway t, pad, pad, pad] @ le32 (of_nat (rt_count t)) @
     concat (map (entry_bytes pad) (rt_entries t))"

fun entries_of_bytes :: "nat \<Rightarrow> byte list \<Rightarrow> rt_routing_entry list" where
  "entries_of_bytes 0 bs = []"
| "entries_of_bytes (Suc n) bs = entry_of_bytes bs # entries_of_bytes n (drop 12 bs)"

definition table_of_bytes :: "byte list \<Rightarrow> rt_routing_table" where
  "table_of_bytes bs =
     \<lparr>default_gateway = bs ! 0, rt_count = unat (un32 (drop 4 bs)),
       rt_entries = entries_of_bytes MAX_ROUTING_ENTRIES (drop 8 bs)\<rparr>"

definition SIZEOF_ROUTING_TABLE :: nat where "SIZEOF_ROUTING_TABLE = 200"

lemma entry_bytes_length [simp]: "length (entry_bytes pad e) = 12"
  by (simp add: entry_bytes_def)

lemma entry_roundtrip [simp]: "entry_of_bytes (entry_bytes pad e @ bs) = e"
  by (simp add: entry_bytes_def entry_of_bytes_def nth_append)

lemma entries_roundtrip:
  "entries_of_bytes (length es) (concat (map (entry_bytes pad) es) @ bs) = es"
  by (induction es) simp_all

lemma entries_length: "length (concat (map (entry_bytes pad) es)) = 12 * length es"
  by (induction es) simp_all

interpretation rt_wire: wire_format "table_bytes pad" table_of_bytes SIZEOF_ROUTING_TABLE table_wf
  for pad
proof
  fix t
  assume wf: "table_wf t"
  note len = table_wf_lengths [OF wf]
  show "length (table_bytes pad t) = SIZEOF_ROUTING_TABLE"
    using len by (simp add: table_bytes_def entries_length SIZEOF_ROUTING_TABLE_def)
  have "unat (of_nat (rt_count t) :: u32) = rt_count t"
    using len by (simp add: unat_of_nat)
  then show "table_of_bytes (table_bytes pad t) = t"
    using len entries_roundtrip [of "rt_entries t" pad "[]"]
    by (simp add: table_bytes_def table_of_bytes_def MAX_ROUTING_ENTRIES_def)
qed

section \<open>Histories of a table\<close>

datatype table_op = AddRoute u32 u32 u8 | RemoveOutput u8

fun table_step :: "rt_routing_table \<Rightarrow> table_op \<Rightarrow> rt_routing_table" where
  "table_step t (AddRoute n m out) = fst (routing_table_add n m out t)"
| "table_step t (RemoveOutput out) = routing_table_remove_by_output out t"

definition table_run :: "u8 \<Rightarrow> table_op list \<Rightarrow> rt_routing_table" where
  "table_run gw ops = foldl table_step (routing_table_init gw) ops"

text \<open>The specification: a gateway and a map of at most sixteen routes.\<close>

type_synonym routes_spec = "u8 \<times> ((u32 \<times> u32) \<rightharpoonup> u8)"

fun spec_step :: "routes_spec \<Rightarrow> table_op \<Rightarrow> routes_spec" where
  "spec_step (gw, r) (AddRoute n m out) =
     (if n = 0 \<and> m = 0 then (out, r)
      else if (n, m) \<notin> dom r \<and> card (dom r) = 16 then (gw, r)
      else (gw, r((n, m) \<mapsto> out)))"
| "spec_step (gw, r) (RemoveOutput out) = (gw, \<lambda>k. if r k = Some out then None else r k)"

definition spec_run :: "u8 \<Rightarrow> table_op list \<Rightarrow> routes_spec" where
  "spec_run gw ops = foldl spec_step (gw, Map.empty) ops"

lemma card_routes: "table_wf t \<Longrightarrow> card (dom (route_map t)) = rt_count t"
  using distinct_card [of "map entry_key (used t)"] table_wf_lengths [of t]
  by (simp add: dom_route_map table_wf_def)

lemma table_wf_step: "table_wf t \<Longrightarrow> table_wf (table_step t op)"
  by (cases op) (simp_all add: table_wf_add table_wf_remove)

lemma table_step_refines:
  assumes "table_wf t"
  shows "(default_gateway (table_step t op), route_map (table_step t op)) =
    spec_step (default_gateway t, route_map t) op"
proof (cases op)
  case (AddRoute n m out)
  show ?thesis
  proof (cases "n = 0 \<and> m = 0")
    case True
    then show ?thesis using rt.add_default [OF assms] AddRoute by simp
  next
    case False
    then have pan: "snd (routing_table_add n m out t) \<longleftrightarrow>
        (n, m) \<notin> dom (route_map t) \<and> card (dom (route_map t)) = 16"
      using add_used [OF assms, of n m out]
      by (auto simp: case_prod_unfold card_routes [OF assms] simp flip: dom_route_map)
    with False AddRoute show ?thesis
      using rt.routes_add [OF assms, of n m out] rt.add_full [OF assms, of n m out] by auto
  qed
next
  case (RemoveOutput out)
  then show ?thesis using rt.routes_remove [OF assms, of out] by auto
qed

text \<open>The routes that match an address, and a table with two nested networks.\<close>

definition matching_routes :: "rt_routing_table \<Rightarrow> u32 \<Rightarrow> (u32 \<times> u32) set" where
  "matching_routes t ip = {k \<in> dom (route_map t). matches ip k}"

definition two_routes :: rt_routing_table where
  "two_routes = table_run 0 [AddRoute 0x0A000000 0xFF000000 1, AddRoute 0x0A200000 0xFFE00000 2]"

lemma table_run_wf: "table_wf (table_run gw ops)"
proof -
  have "table_wf t \<Longrightarrow> table_wf (foldl table_step t ops)" for t
    by (induction ops arbitrary: t) (simp_all add: table_wf_step)
  then show ?thesis by (simp add: table_run_def table_wf_init)
qed

section \<open>Properties\<close>

text \<open>
  Property C2 (routing_table, refinement): after any sequence of insertions and removals the table
  holds exactly the routes of the specification, a map of at most sixteen routes in which an
  insertion of 0/0 sets the default gateway, a known network is updated, a new one is dropped
  when the map is full, and a removal keeps the gateway; the array stays ordered by decreasing
  mask without duplicates.
\<close>

theorem routing_table_refines_spec:
  "(default_gateway (table_run gw ops), route_map (table_run gw ops)) = spec_run gw ops \<and>
   table_wf (table_run gw ops)"
proof -
  have "table_wf t \<Longrightarrow> (default_gateway (foldl table_step t ops), route_map (foldl table_step t ops)) =
      foldl spec_step (default_gateway t, route_map t) ops" for t
    by (induction ops arbitrary: t) (simp_all add: table_wf_step table_step_refines [symmetric])
  from this [OF table_wf_init] show ?thesis
    using table_run_wf
    by (simp add: table_run_def spec_run_def route_map_def) (simp add: routing_table_init_def)
qed

text \<open>
  Property C5 (routing_table, longest match): in a table that the operations made, an address that
  some route matches goes to the output of the matching route with the greatest mask, and there
  is exactly one such route; an address that no route matches goes to the default gateway.
\<close>

theorem routing_table_longest_match:
  "if matching_routes (table_run gw ops) ip = {}
   then routing_table_route (table_run gw ops) ip = default_gateway (table_run gw ops)
   else \<exists>!k. k \<in> matching_routes (table_run gw ops) ip \<and>
          (\<forall>k' \<in> matching_routes (table_run gw ops) ip. snd k' \<le> snd k) \<and>
          route_map (table_run gw ops) k = Some (routing_table_route (table_run gw ops) ip)"
proof (cases "matching_routes (table_run gw ops) ip = {}")
  case True
  then have "\<forall>k \<in> dom (route_map (table_run gw ops)). \<not> matches ip k"
    unfolding matching_routes_def by blast
  with True show ?thesis using rt.route_no_match [OF table_run_wf [of gw ops], of ip] by simp
next
  case False
  let ?t = "table_run gw ops" and ?M = "matching_routes (table_run gw ops) ip"
  obtain k where k: "k \<in> dom (route_map ?t)" "matches ip k"
    using False unfolding matching_routes_def by blast
  obtain b out where b: "route_map ?t b = Some out" "matches ip b"
    "routing_table_route ?t ip = out" "\<forall>k \<in> ?M. snd k \<le> snd b"
  proof (rule rt.best_match [OF table_run_wf [of gw ops] k])
    fix b out
    assume b: "route_map ?t b = Some out" "matches ip b" "routing_table_route ?t ip = out"
      "\<forall>k' \<in> dom (route_map ?t). matches ip k' \<longrightarrow> snd k' \<le> snd b"
    from b(4) have "\<forall>k \<in> ?M. snd k \<le> snd b" by (simp add: matching_routes_def)
    with b(1-3) show thesis by (rule that)
  qed
  have M: "b \<in> ?M" using b by (auto simp: matching_routes_def)
  have only: "k = b" if "k \<in> ?M" "\<forall>k' \<in> ?M. snd k' \<le> snd k" for k
  proof -
    have "snd k = snd b" using that b(4) M by (intro order_antisym) blast+
    then show ?thesis using that(1) b(2) by (auto simp: matching_routes_def matches_def prod_eq_iff)
  qed
  show ?thesis
    unfolding if_not_P [OF False] b(3)
  proof (rule ex1I [of _ b])
    show "b \<in> ?M \<and> (\<forall>k' \<in> ?M. snd k' \<le> snd b) \<and> route_map ?t b = Some out"
      using M b(1,4) by blast
    show "k = b" if "k \<in> ?M \<and> (\<forall>k' \<in> ?M. snd k' \<le> snd k) \<and> route_map ?t k = Some out" for k
      using that by (intro only) blast+
  qed
qed

theorem routing_table_longest_match_witness:
  "\<exists>!k. k \<in> matching_routes two_routes 0x0A200001 \<and>
     (\<forall>k' \<in> matching_routes two_routes 0x0A200001. snd k' \<le> snd k) \<and>
     route_map two_routes k = Some (routing_table_route two_routes 0x0A200001)"
proof -
  have r: "two_routes = table_run 0 [AddRoute 0x0A000000 0xFF000000 1, AddRoute 0x0A200000 0xFFE00000 2]"
    by (simp add: two_routes_def)
  have "used two_routes = [mk_entry 0x0A200000 0xFFE00000 2, mk_entry 0x0A000000 0xFF000000 1]"
    by code_simp
  then have "(0x0A000000, 0xFF000000) \<in> matching_routes two_routes 0x0A200001"
    by (simp add: matching_routes_def dom_route_map matches_def)
  then have "matching_routes two_routes 0x0A200001 \<noteq> {}"
    by blast
  with routing_table_longest_match [where gw = 0 and ip = "0x0A200001" and ops = "[AddRoute 0x0A000000 0xFF000000 1, AddRoute 0x0A200000 0xFFE00000 2]"] show ?thesis
    by (simp only: r [symmetric] if_False)
qed

text \<open>
  Once the routes to an output are removed no address is routed to it
  any more, unless it is the default gateway; addresses that were routed elsewhere keep their
  output.
\<close>

lemma routing_table_remove_output:
  assumes "table_wf t"
  shows "(routing_table_route (routing_table_remove_by_output out t) ip = out \<longrightarrow>
      default_gateway t = out) \<and>
    (routing_table_route t ip \<noteq> out \<longrightarrow>
      routing_table_route (routing_table_remove_by_output out t) ip = routing_table_route t ip)"
proof (intro conjI impI)
  show "default_gateway t = out" if "routing_table_route (routing_table_remove_by_output out t) ip = out"
    using rt.route_after_remove [OF assms] that by simp
  assume keep: "routing_table_route t ip \<noteq> out"
  have "route_loop (filter (\<lambda>e. re_output e \<noteq> out) es) ip d = route_loop es ip d"
    if "route_loop es ip d \<noteq> out" for es d
    using that by (induction es) (auto split: if_splits)
  with keep show "routing_table_route (routing_table_remove_by_output out t) ip = routing_table_route t ip"
    by (simp add: routing_table_route_def remove_used [OF assms])
qed

text \<open>
  The 200 bytes of a table that the operations made are
  read back as the same table by the board that receives them, whatever the padding.
\<close>

lemma routing_table_wire_roundtrip:
  "length (table_bytes pad (table_run gw ops)) = SIZEOF_ROUTING_TABLE \<and>
   table_of_bytes (table_bytes pad (table_run gw ops)) = table_run gw ops"
  using rt_wire.length_enc [OF table_run_wf] rt_wire.dec_enc [OF table_run_wf] by blast

end
