(* ===== verification/Config.thy ===== *)
theory Config
  imports I4A_Prelude
begin

text \<open>
  Board configuration (\<open>components/internal/config\<close>): the three configuration pins decide the
  board's id, its mode and its orientation, and from the orientation the two addresses of the
  SPI network interfaces. The enumerations are packed to one byte and are cast from the pin bits,
  so they are bytes here, with a definition for each enumerator.

  \<open>ESP_IP4TOADDR\<close> is an ESP-IDF macro and is the parameter \<open>ip4\<close> of the definitions.
\<close>

section \<open>Enumerators\<close>

definition CONFIG_ORIENTATION_NORTH :: u8 where "CONFIG_ORIENTATION_NORTH = 0"
definition CONFIG_ORIENTATION_SOUTH :: u8 where "CONFIG_ORIENTATION_SOUTH = 1"
definition CONFIG_ORIENTATION_EAST :: u8 where "CONFIG_ORIENTATION_EAST = 2"
definition CONFIG_ORIENTATION_WEST :: u8 where "CONFIG_ORIENTATION_WEST = 3"
definition CONFIG_ORIENTATION_NONE :: u8 where "CONFIG_ORIENTATION_NONE = 9"

definition CONFIG_MODE_PEER_LINK :: u8 where "CONFIG_MODE_PEER_LINK = 0"
definition CONFIG_MODE_ACCESS_POINT :: u8 where "CONFIG_MODE_ACCESS_POINT = 4"
definition CONFIG_MODE_ROOT :: u8 where "CONFIG_MODE_ROOT = 5"
definition CONFIG_MODE_NONE :: u8 where "CONFIG_MODE_NONE = 9"

definition CONFIG_ID_CENTER :: u8 where "CONFIG_ID_CENTER = 4"
definition CONFIG_ID_NONE :: u8 where "CONFIG_ID_NONE = 9"
definition CONFIG_ID_ANY :: u8 where "CONFIG_ID_ANY = 10"
definition CONFIG_ID_ALL :: u8 where "CONFIG_ID_ALL = 11"

lemmas config_enums =
  CONFIG_ORIENTATION_NORTH_def CONFIG_ORIENTATION_SOUTH_def CONFIG_ORIENTATION_EAST_def
  CONFIG_ORIENTATION_WEST_def CONFIG_ORIENTATION_NONE_def CONFIG_MODE_PEER_LINK_def
  CONFIG_MODE_ACCESS_POINT_def CONFIG_MODE_ROOT_def CONFIG_MODE_NONE_def CONFIG_ID_CENTER_def
  CONFIG_ID_NONE_def CONFIG_ID_ANY_def CONFIG_ID_ALL_def

section \<open>State\<close>

record config_t =
  cfg_id :: u8
  cfg_mode :: u8
  cfg_orientation :: u8
  rx_ip_addr :: u32
  tx_ip_addr :: u32

definition s_config_init :: config_t where
  "s_config_init = \<lparr>cfg_id = CONFIG_ID_NONE, cfg_mode = CONFIG_MODE_NONE,
     cfg_orientation = CONFIG_ORIENTATION_NONE, rx_ip_addr = 0, tx_ip_addr = 0\<rparr>"

record ip_info_t =
  ii_ip :: u32
  ii_gw :: u32
  ii_netmask :: u32

section \<open>Operations\<close>

text \<open>\<open>gpio_get_level\<close> is external: the three levels it returns are the arguments.\<close>

definition read_config_bits :: "u32 \<Rightarrow> u32 \<Rightarrow> u32 \<Rightarrow> u8" where
  "read_config_bits level0 level1 level2 =
     (let b0 = 0 OR ucast (push_bit 0 (NOT level0 AND 1));
          b1 = b0 OR ucast (push_bit 1 (NOT level1 AND 1));
          b2 = b1 OR ucast (push_bit 2 (NOT level2 AND 1))
      in b2)"

definition config_setup ::
  "(int \<Rightarrow> int \<Rightarrow> int \<Rightarrow> int \<Rightarrow> u32) \<Rightarrow> u8 \<Rightarrow> config_t \<Rightarrow> config_t" where
  "config_setup ip4 config_bits c =
     (let c1 = c\<lparr>cfg_id := config_bits\<rparr>;
          c2 = (if drop_bit 2 config_bits = 0
                then c1\<lparr>cfg_mode := CONFIG_MODE_PEER_LINK, cfg_orientation := config_bits\<rparr>
                else c1\<lparr>cfg_mode := config_bits, cfg_orientation := CONFIG_ORIENTATION_NONE\<rparr>)
      in c2\<lparr>rx_ip_addr := ip4 192 168 0 (uint (cfg_orientation c2) + 1),
            tx_ip_addr := ip4 192 168 0 (uint (cfg_orientation c2) + 10)\<rparr>)"

definition config_get_id :: "config_t \<Rightarrow> u8" where
  "config_get_id c = cfg_id c"

definition config_get_rx_ip_info :: "(int \<Rightarrow> int \<Rightarrow> int \<Rightarrow> int \<Rightarrow> u32) \<Rightarrow> config_t \<Rightarrow> ip_info_t" where
  "config_get_rx_ip_info ip4 c =
     \<lparr>ii_ip = rx_ip_addr c, ii_gw = tx_ip_addr c, ii_netmask = ip4 255 255 255 255\<rparr>"

definition config_get_tx_ip_info :: "(int \<Rightarrow> int \<Rightarrow> int \<Rightarrow> int \<Rightarrow> u32) \<Rightarrow> config_t \<Rightarrow> ip_info_t" where
  "config_get_tx_ip_info ip4 c =
     \<lparr>ii_ip = tx_ip_addr c, ii_gw = tx_ip_addr c, ii_netmask = ip4 255 255 0 0\<rparr>"

definition config_mode_is :: "u8 \<Rightarrow> config_t \<Rightarrow> bool" where
  "config_mode_is mode c \<longleftrightarrow> cfg_mode c = mode"

definition config_orientation_is :: "u8 \<Rightarrow> config_t \<Rightarrow> bool" where
  "config_orientation_is ori c \<longleftrightarrow> cfg_orientation c = ori"

section \<open>Properties\<close>

text \<open>A pin level is 0 or 1; the bits are the negated levels.\<close>

definition pin_level :: "bool \<Rightarrow> u32" where
  "pin_level high = (if high then 1 else 0)"

lemma read_config_bits_cases:
  "read_config_bits (pin_level a) (pin_level b) (pin_level c) =
     (if a then 0 else 1) + (if b then 0 else 2) + (if c then 0 else 4)"
  by (cases a; cases b; cases c) (simp_all add: read_config_bits_def pin_level_def)

text \<open>
  For every position of the three pins, the id is the value of the
  inverted pins, at most 7; a board whose highest pin is high is a peer link with its
  orientation equal to its id, one whose highest pin is low has its id as mode and no
  orientation, and its mode is \<open>ROOT\<close> exactly for the pattern 101.
\<close>

lemma config_setup_roles:
  "let bits = read_config_bits (pin_level a) (pin_level b) (pin_level c);
       cfg = config_setup ip4 bits s_config_init
   in config_get_id cfg = bits \<and> bits \<le> 7 \<and>
      (config_mode_is CONFIG_MODE_PEER_LINK cfg \<longleftrightarrow> c) \<and>
      cfg_orientation cfg = (if c then bits else CONFIG_ORIENTATION_NONE) \<and>
      (config_mode_is CONFIG_MODE_ROOT cfg \<longleftrightarrow> \<not> a \<and> b \<and> \<not> c) \<and>
      (config_mode_is CONFIG_MODE_ACCESS_POINT cfg \<longleftrightarrow> a \<and> b \<and> \<not> c)"
  by (cases a; cases b; cases c)
     (simp_all add: read_config_bits_cases config_setup_def config_get_id_def config_mode_is_def
       config_enums Let_def)

text \<open>
  The address of the receiving SPI interface of a board in the center is
  the address of the transmitting SPI interface of the north board of the same ring, whatever
  the macro \<open>ESP_IP4TOADDR\<close> computes: the orientation \<open>NONE\<close> (9) plus 1 is the offset 10.
\<close>

lemma config_center_rx_is_north_tx:
  "rx_ip_addr (config_setup ip4 CONFIG_ID_CENTER s_config_init) =
   tx_ip_addr (config_setup ip4 CONFIG_ORIENTATION_NORTH s_config_init)"
  by (simp add: config_setup_def config_enums Let_def)

end
