(* ===== verification/Ring_Link.thy ===== *)
theory Ring_Link
  imports Config
begin

text \<open>
  The SPI ring between the boards of a node: the payload and its predicates
  (\<open>ring_link_lowlevel/ring_link_payload.c\<close>), the transmission and forwarding of a payload
  (\<open>ring_link_lowlevel.c\<close>, \<open>spi_transmit\<close>), the classification of a received payload
  (\<open>ring_link/ring_link.c\<close>), the internal handler with the broadcast protocol
  (\<open>ring_link_internal/\<close>). The IP interfaces on the ring are in \<open>Ring_Netif\<close>.

  The state \<open>link\<close> holds the configuration, the counters of the three senders, whether a task
  waits for the return of a broadcast, and a log \<open>trace\<close> of the calls that leave the modelled
  code, oldest first. What FreeRTOS, the SPI driver, the wifi driver, the sockets and the
  CRC routine answer is the record \<open>environment\<close>; a call whose answer may differ from one time
  to the next is a function of \<open>now\<close>, the number of such calls made before.
\<close>

section \<open>External answers\<close>

datatype esp_err = ESP_OK | ESP_FAIL | ESP_ERR_INVALID_SIZE | ESP_ERR_NO_MEM | ESP_ERR_OTHER u32

record environment =
  env_spi_buffer_size :: nat  \<comment> \<open>\<open>CONFIG_SPI_BUFFER_SIZE\<close> of Kconfig, 200 to 1600\<close>
  env_crc32 :: "byte list \<Rightarrow> u32"  \<comment> \<open>\<open>esp_crc32_le(0, bytes)\<close>\<close>
  env_padding :: "byte list"  \<comment> \<open>the padding of a payload built by this board\<close>
  env_bcast_sem :: "nat \<Rightarrow> bool"  \<comment> \<open>\<open>xSemaphoreTake(s_broadcast_mutex, 400)\<close>\<close>
  env_tx_sem :: "nat \<Rightarrow> bool"  \<comment> \<open>\<open>xSemaphoreTake(s_tx_semaphore_handle, 10)\<close>\<close>
  env_spi_tx :: "nat \<Rightarrow> esp_err"  \<comment> \<open>\<open>spi_device_transmit\<close>\<close>
  env_notify :: "nat \<Rightarrow> u32"  \<comment> \<open>\<open>ulTaskNotifyTake(pdTRUE, 500 ms)\<close>\<close>
  env_sock_send :: "nat \<Rightarrow> int"  \<comment> \<open>\<open>send\<close> on a TCP socket\<close>
  env_time_us :: "nat \<Rightarrow> 64 word"  \<comment> \<open>\<open>esp_timer_get_time\<close>\<close>
  env_random :: "nat \<Rightarrow> u32"  \<comment> \<open>\<open>esp_random\<close>\<close>
  env_mac :: "byte list"  \<comment> \<open>\<open>esp_read_mac\<close> of the access point interface, 6 bytes\<close>

section \<open>The payload\<close>

record ring_link_payload =
  pl_id :: u8
  pl_type :: u8
  pl_len :: u16
  pl_ttl :: u8
  pl_src :: u8
  pl_dst :: u8
  pl_buffer :: "byte list"
  pl_pad :: "byte list"
  pl_crc32 :: u32

definition RING_LINK_PAYLOAD_TYPE_INTERNAL :: u8 where "RING_LINK_PAYLOAD_TYPE_INTERNAL = 0x11"
definition RING_LINK_PAYLOAD_TYPE_ESP_NETIF :: u8 where "RING_LINK_PAYLOAD_TYPE_ESP_NETIF = 0x80"
definition RING_LINK_PAYLOAD_TTL :: u8 where "RING_LINK_PAYLOAD_TTL = 4"

definition ring_link_netif_mtu :: "environment \<Rightarrow> nat" where
  "ring_link_netif_mtu e = env_spi_buffer_size e - 12"

lemmas payload_consts = RING_LINK_PAYLOAD_TYPE_INTERNAL_def RING_LINK_PAYLOAD_TYPE_ESP_NETIF_def
  RING_LINK_PAYLOAD_TTL_def

text \<open>An environment in which every call succeeds, for concrete runs.\<close>

definition quiet_env :: environment where
  "quiet_env = \<lparr>env_spi_buffer_size = 200, env_crc32 = (\<lambda>_. 0), env_padding = [0],
     env_bcast_sem = (\<lambda>_. True), env_tx_sem = (\<lambda>_. True), env_spi_tx = (\<lambda>_. ESP_OK),
     env_notify = (\<lambda>_. 1), env_sock_send = (\<lambda>_. -1),
     env_time_us = (\<lambda>_. 0), env_random = (\<lambda>_. 0), env_mac = [0, 0, 0, 0, 0, 0]\<rparr>"

datatype effect =
    SpiFrame esp_err ring_link_payload  \<comment> \<open>\<open>spi_device_transmit\<close> and its result\<close>
  | OnSibling "byte list" u16  \<comment> \<open>\<open>node_on_sibling_message(buffer, len)\<close>\<close>
  | NetifInput "byte list"  \<comment> \<open>\<open>esp_netif_receive\<close> of an IP packet\<close>
  | NotifyGive  \<comment> \<open>\<open>xTaskNotifyGive(s_broadcast_task)\<close>\<close>
  | FreeRx ring_link_payload  \<comment> \<open>\<open>ring_link_lowlevel_free_rx_buffer\<close>\<close>
  | Panic string  \<comment> \<open>\<open>os_panic\<close>\<close>
  | Delay u32  \<comment> \<open>\<open>vTaskDelay\<close>, in milliseconds\<close>
  | SockSend "byte list" int  \<comment> \<open>\<open>send\<close> on the peer socket and its result\<close>
  | Restart  \<comment> \<open>\<open>esp_restart\<close>\<close>
  | Driver string "u32 list"  \<comment> \<open>a call of the wifi or network driver, with its numbers\<close>

record link =
  env :: environment
  now :: nat
  trace :: "effect list"
  s_config :: config_t
  s_id_counter :: u8
  s_id_counter_rx :: u8
  s_id_counter_tx :: u8
  s_broadcast_task :: bool

definition link_init :: "environment \<Rightarrow> config_t \<Rightarrow> link" where
  "link_init e cfg = \<lparr>env = e, now = 0, trace = [], s_config = cfg, s_id_counter = 0,
     s_id_counter_rx = 0, s_id_counter_tx = 0, s_broadcast_task = False\<rparr>"

lemma link_init_simps [simp]:
  "env (link_init e c) = e" "now (link_init e c) = 0" "trace (link_init e c) = []"
  "s_config (link_init e c) = c" "s_id_counter (link_init e c) = 0"
  "s_broadcast_task (link_init e c) = False"
  by (simp_all add: link_init_def)

definition emit :: "effect \<Rightarrow> link \<Rightarrow> link" where
  "emit e l = l\<lparr>trace := trace l @ [e]\<rparr>"

definition tick :: "link \<Rightarrow> link" where
  "tick l = l\<lparr>now := now l + 1\<rparr>"

definition os_panic :: "string \<Rightarrow> link \<Rightarrow> link" where
  "os_panic msg l = emit (Panic msg) l"

definition vTaskDelay_ms :: "u32 \<Rightarrow> link \<Rightarrow> link" where
  "vTaskDelay_ms ms l = emit (Delay ms) l"

lemma emit_simps [simp]:
  "env (emit e l) = env l" "now (emit e l) = now l" "trace (emit e l) = trace l @ [e]"
  "s_config (emit e l) = s_config l" "s_id_counter (emit e l) = s_id_counter l"
  "s_id_counter_rx (emit e l) = s_id_counter_rx l" "s_id_counter_tx (emit e l) = s_id_counter_tx l"
  "s_broadcast_task (emit e l) = s_broadcast_task l"
  by (simp_all add: emit_def)

lemma tick_simps [simp]:
  "env (tick l) = env l" "now (tick l) = now l + 1" "trace (tick l) = trace l"
  "s_config (tick l) = s_config l" "s_id_counter (tick l) = s_id_counter l"
  "s_id_counter_rx (tick l) = s_id_counter_rx l" "s_id_counter_tx (tick l) = s_id_counter_tx l"
  "s_broadcast_task (tick l) = s_broadcast_task l"
  by (simp_all add: tick_def)

section \<open>Payload predicates and checksum\<close>

definition ring_link_payload_is_for_device :: "ring_link_payload \<Rightarrow> link \<Rightarrow> bool" where
  "ring_link_payload_is_for_device p l \<longleftrightarrow>
     pl_dst p = config_get_id (s_config l) \<or> pl_dst p = CONFIG_ID_ANY"

definition ring_link_payload_is_from_device :: "ring_link_payload \<Rightarrow> link \<Rightarrow> bool" where
  "ring_link_payload_is_from_device p l \<longleftrightarrow> pl_src p = config_get_id (s_config l)"

definition ring_link_payload_is_broadcast :: "ring_link_payload \<Rightarrow> bool" where
  "ring_link_payload_is_broadcast p \<longleftrightarrow> pl_dst p = CONFIG_ID_ALL"

definition ring_link_payload_is_internal :: "ring_link_payload \<Rightarrow> bool" where
  "ring_link_payload_is_internal p \<longleftrightarrow> pl_type p = RING_LINK_PAYLOAD_TYPE_INTERNAL"

definition ring_link_payload_is_esp_netif :: "ring_link_payload \<Rightarrow> bool" where
  "ring_link_payload_is_esp_netif p \<longleftrightarrow> pl_type p = RING_LINK_PAYLOAD_TYPE_ESP_NETIF"

text \<open>The bytes the checksum covers: the structure up to the field \<open>crc32\<close>.\<close>

definition payload_crc_bytes :: "ring_link_payload \<Rightarrow> byte list" where
  "payload_crc_bytes p =
     [pl_id p, pl_type p] @ le16 (pl_len p) @ [pl_ttl p, pl_src p, pl_dst p] @
     pl_buffer p @ pl_pad p"

definition ring_link_compute_crc32 :: "link \<Rightarrow> ring_link_payload \<Rightarrow> u32" where
  "ring_link_compute_crc32 l p = env_crc32 (env l) (payload_crc_bytes p)"

section \<open>Transmission and forwarding\<close>

definition spi_transmit :: "ring_link_payload \<Rightarrow> link \<Rightarrow> esp_err \<times> link" where
  "spi_transmit p l =
     (let rc = env_spi_tx (env l) (now l) in (rc, emit (SpiFrame rc p) (tick l)))"

definition ring_link_lowlevel_transmit_payload ::
  "ring_link_payload \<Rightarrow> link \<Rightarrow> esp_err \<times> link" where
  "ring_link_lowlevel_transmit_payload p l =
     (let p1 = p\<lparr>pl_crc32 := ring_link_compute_crc32 l p\<rparr>;
          taken = env_tx_sem (env l) (now l);
          l1 = tick l
      in if taken then spi_transmit p1 l1 else (ESP_FAIL, l1))"

definition ring_link_lowlevel_forward_payload ::
  "ring_link_payload \<Rightarrow> link \<Rightarrow> esp_err \<times> link" where
  "ring_link_lowlevel_forward_payload p l =
     (if pl_ttl p \<le> 0 then (ESP_OK, l)
      else ring_link_lowlevel_transmit_payload (p\<lparr>pl_ttl := pl_ttl p - 1\<rparr>) l)"

section \<open>Broadcasts\<close>

text \<open>\<open>memcpy(p.buffer, msg, len)\<close> into the zeroed buffer of a payload.\<close>

definition fill_buffer :: "environment \<Rightarrow> byte list \<Rightarrow> byte list" where
  "fill_buffer e msg = msg @ replicate (ring_link_netif_mtu e - length msg) 0"

text \<open>\<open>len\<close> is the length of the message: every caller passes the size of what \<open>msg\<close> points to.\<close>

definition send_broadcast :: "byte list \<Rightarrow> link \<Rightarrow> esp_err \<times> link" where
  "send_broadcast msg l =
     (let p = \<lparr>pl_id = s_id_counter l, pl_type = RING_LINK_PAYLOAD_TYPE_INTERNAL,
               pl_len = of_nat (length msg), pl_ttl = RING_LINK_PAYLOAD_TTL,
               pl_src = config_get_id (s_config l), pl_dst = CONFIG_ID_ALL,
               pl_buffer = fill_buffer (env l) msg, pl_pad = env_padding (env l),
               pl_crc32 = 0\<rparr>;
          l1 = l\<lparr>s_id_counter := s_id_counter l + 1\<rparr>
      in if length msg > ring_link_netif_mtu (env l) then (ESP_ERR_INVALID_SIZE, l1)
         else ring_link_lowlevel_transmit_payload p l1)"

definition broadcast_to_siblings :: "byte list \<Rightarrow> link \<Rightarrow> bool \<times> link" where
  "broadcast_to_siblings msg l =
     (let taken = env_bcast_sem (env l) (now l); l1 = tick l
      in if taken
         then let (rc, l2) = send_broadcast msg (l1\<lparr>s_broadcast_task := True\<rparr>);
                  (result, l3) =
                    (if rc = ESP_OK then (env_notify (env l2) (now l2) = 1, tick l2)
                     else (False, l2))
              in (result, l3\<lparr>s_broadcast_task := False\<rparr>)
         else (False, l1))"

definition ring_link_internal_process :: "ring_link_payload \<Rightarrow> link \<Rightarrow> esp_err \<times> link" where
  "ring_link_internal_process p l = (ESP_OK, emit (OnSibling (pl_buffer p) (pl_len p)) l)"

definition broadcast_handler :: "ring_link_payload \<Rightarrow> link \<Rightarrow> esp_err \<times> link" where
  "broadcast_handler p l =
     (if ring_link_payload_is_from_device p l
      then (ESP_OK, if s_broadcast_task l then emit NotifyGive l else l)
      else ring_link_lowlevel_forward_payload p (snd (ring_link_internal_process p l)))"

definition ring_link_internal_handler :: "ring_link_payload \<Rightarrow> link \<Rightarrow> esp_err \<times> link" where
  "ring_link_internal_handler p l =
     (if ring_link_payload_is_broadcast p then broadcast_handler p l
      else if ring_link_payload_is_for_device p l then ring_link_internal_process p l
      else ring_link_lowlevel_forward_payload p l)"

section \<open>Classification of a received payload\<close>

datatype rx_queue = InternalQueue | NetifQueue

text \<open>
  The queue for a payload; \<open>None\<close> when the checksum is wrong or the type is unknown, and the
  buffer is freed. \<open>Spi_Pool\<close> has the send to the queue.
\<close>

definition payload_queue :: "link \<Rightarrow> ring_link_payload \<Rightarrow> rx_queue option" where
  "payload_queue l p =
     (if ring_link_compute_crc32 l p \<noteq> pl_crc32 p then None
      else if ring_link_payload_is_internal p then Some InternalQueue
      else if ring_link_payload_is_esp_netif p then Some NetifQueue
      else None)"

end
