(* ===== verification/Ring_Broadcast.thy ===== *)
theory Ring_Broadcast
  imports Ring_Link
begin

text \<open>
  The path of a broadcast round the ring. A board receives what the board before it put on the
  SPI bus; \<open>travel\<close> runs the real handler of each board of a path on the frames it receives and
  hands what that board sent to the next one. The frames a board has sent, and the messages it
  has given to its callbacks, are read off its log.
\<close>

section \<open>Frames along a path of boards\<close>

fun sent_frames :: "effect list \<Rightarrow> ring_link_payload list" where
  "sent_frames [] = []"
| "sent_frames (SpiFrame rc p # es) = (if rc = ESP_OK then p # sent_frames es else sent_frames es)"
| "sent_frames (_ # es) = sent_frames es"

fun sibling_messages :: "effect list \<Rightarrow> (byte list \<times> u16) list" where
  "sibling_messages [] = []"
| "sibling_messages (OnSibling b n # es) = (b, n) # sibling_messages es"
| "sibling_messages (_ # es) = sibling_messages es"

definition new_effects :: "link \<Rightarrow> link \<Rightarrow> effect list" where
  "new_effects l l' = drop (length (trace l)) (trace l')"

fun receive_frames :: "ring_link_payload list \<Rightarrow> link \<Rightarrow> link" where
  "receive_frames [] l = l"
| "receive_frames (p # ps) l = receive_frames ps (snd (ring_link_internal_handler p l))"

fun travel :: "ring_link_payload list \<Rightarrow> link list \<Rightarrow> link list \<times> ring_link_payload list" where
  "travel ps [] = ([], ps)"
| "travel ps (l # ls) =
     (let l' = receive_frames ps l;
          (ls', rest) = travel (sent_frames (new_effects l l')) ls
      in (l' # ls', rest))"

text \<open>A board whose bus always answers.\<close>

definition bus_free :: "link \<Rightarrow> bool" where
  "bus_free l \<longleftrightarrow> (\<forall>n. env_tx_sem (env l) n \<and> env_spi_tx (env l) n = ESP_OK)"

definition same_message :: "ring_link_payload \<Rightarrow> ring_link_payload \<Rightarrow> bool" where
  "same_message p q \<longleftrightarrow> pl_id p = pl_id q \<and> pl_type p = pl_type q \<and> pl_len p = pl_len q \<and>
     pl_src p = pl_src q \<and> pl_dst p = pl_dst q \<and> pl_buffer p = pl_buffer q"

lemma new_effects_emit [simp]: "new_effects l (emit e l) = [e]"
  by (simp add: new_effects_def)

lemma new_effects_refl [simp]: "new_effects l l = []"
  by (simp add: new_effects_def)

section \<open>One board\<close>

lemma foreign_broadcast_step:
  assumes "ring_link_payload_is_broadcast p" "\<not> ring_link_payload_is_from_device p l" "bus_free l"
  shows "sibling_messages (new_effects l (receive_frames [p] l)) = [(pl_buffer p, pl_len p)]"
    and "pl_ttl p = 0 \<Longrightarrow> sent_frames (new_effects l (receive_frames [p] l)) = []"
    and "pl_ttl p \<noteq> 0 \<Longrightarrow> \<exists>q. sent_frames (new_effects l (receive_frames [p] l)) = [q] \<and>
           same_message p q \<and> pl_ttl q = pl_ttl p - 1"
  using assms
  by (auto simp: ring_link_internal_handler_def broadcast_handler_def new_effects_def
      ring_link_internal_process_def ring_link_lowlevel_forward_payload_def bus_free_def
      ring_link_lowlevel_transmit_payload_def spi_transmit_def same_message_def)

lemma same_message_broadcast:
  "same_message p q \<Longrightarrow> ring_link_payload_is_broadcast q = ring_link_payload_is_broadcast p"
  "same_message p q \<Longrightarrow> ring_link_payload_is_from_device q l = ring_link_payload_is_from_device p l"
  by (simp_all add: same_message_def ring_link_payload_is_broadcast_def
      ring_link_payload_is_from_device_def)

lemma same_message_trans: "same_message p q \<Longrightarrow> same_message q r \<Longrightarrow> same_message p r"
  by (simp add: same_message_def)

lemma same_message_refl [simp]: "same_message p p"
  by (simp add: same_message_def)

section \<open>A path of boards\<close>

lemma travel_nothing: "travel [] ls = (ls, [])"
  by (induction ls) simp_all

lemma travel_append:
  "travel ps (ls @ ms) =
     (let (ls', ps') = travel ps ls; (ms', ps'') = travel ps' ms in (ls' @ ms', ps''))"
  by (induction ls arbitrary: ps) (simp_all add: Let_def split: prod.splits)

lemma length_travel: "length (fst (travel ps ls)) = length ls"
  by (induction ls arbitrary: ps) (simp_all add: Let_def case_prod_unfold)

lemma word_pred_unat: "(x :: u8) \<noteq> 0 \<Longrightarrow> unat (x - 1) = unat x - 1"
  by (simp add: unat_minus_one)

lemma travel_foreign:
  assumes "ring_link_payload_is_broadcast p"
    and "\<forall>l \<in> set ls. \<not> ring_link_payload_is_from_device p l \<and> bus_free l"
  shows "(\<forall>i < length ls. sibling_messages (new_effects (ls ! i) (fst (travel [p] ls) ! i)) =
            (if i \<le> unat (pl_ttl p) then [(pl_buffer p, pl_len p)] else [])) \<and>
         (if length ls \<le> unat (pl_ttl p) then \<exists>q. snd (travel [p] ls) = [q] \<and> same_message p q
          else snd (travel [p] ls) = [])"
  using assms
proof (induction ls arbitrary: p)
  case Nil
  then show ?case by simp
next
  case (Cons l ls)
  let ?l' = "receive_frames [p] l"
  note step = foreign_broadcast_step [of p l]
  have first: "sibling_messages (new_effects l ?l') = [(pl_buffer p, pl_len p)]"
    using Cons.prems by (intro step(1)) auto
  show ?case
  proof (cases "pl_ttl p = 0")
    case True
    then have "sent_frames (new_effects l ?l') = []"
      using Cons.prems by (intro step(2)) auto
    with first True show ?thesis
      by (auto simp: travel_nothing sibling_messages.simps nth_Cons split: nat.splits)
  next
    case False
    then obtain q where q: "sent_frames (new_effects l ?l') = [q]" "same_message p q"
        "pl_ttl q = pl_ttl p - 1"
      using step(3) Cons.prems by auto
    have ttl: "unat (pl_ttl p) = Suc (unat (pl_ttl q))"
      using False q(3) by (simp add: word_pred_unat unat_gt_0)
    have "ring_link_payload_is_broadcast q"
      "\<forall>l \<in> set ls. \<not> ring_link_payload_is_from_device q l \<and> bus_free l"
      using Cons.prems same_message_broadcast [OF q(2)] by auto
    note IH = Cons.IH [OF this]
    have [simp]: "pl_buffer q = pl_buffer p" "pl_len q = pl_len p"
      using q(2) by (simp_all add: same_message_def)
    show ?thesis
      using IH first q ttl same_message_trans [of p q]
      by (auto simp: nth_Cons split: nat.splits prod.splits if_splits)
  qed
qed

section \<open>A whole broadcast\<close>

text \<open>
  What \<open>broadcast_to_siblings\<close> does up to the point where it waits for the notification, then the
  frame's way through the other boards in ring order and back to the sender.
\<close>

definition broadcast_round :: "byte list \<Rightarrow> link \<Rightarrow> link list \<Rightarrow> link list \<times> link" where
  "broadcast_round msg origin others =
     (let l1 = origin\<lparr>s_broadcast_task := True\<rparr>;
          l2 = snd (send_broadcast msg l1);
          (others', back) = travel (sent_frames (new_effects l1 l2)) others
      in (others', receive_frames back l2))"

lemma send_broadcast_frame:
  assumes "bus_free l" and "length msg \<le> ring_link_netif_mtu (env l)"
  obtains p where "trace (snd (send_broadcast msg l)) = trace l @ [SpiFrame ESP_OK p]"
    and "ring_link_payload_is_broadcast p" and "pl_src p = config_get_id (s_config l)"
    and "pl_ttl p = RING_LINK_PAYLOAD_TTL" and "pl_buffer p = fill_buffer (env l) msg"
    and "pl_len p = of_nat (length msg)"
proof -
  have "\<exists>p. trace (snd (send_broadcast msg l)) = trace l @ [SpiFrame ESP_OK p] \<and>
      ring_link_payload_is_broadcast p \<and> pl_src p = config_get_id (s_config l) \<and>
      pl_ttl p = RING_LINK_PAYLOAD_TTL \<and> pl_buffer p = fill_buffer (env l) msg \<and>
      pl_len p = of_nat (length msg)"
    using assms
    by (auto simp: send_broadcast_def ring_link_lowlevel_transmit_payload_def spi_transmit_def
      bus_free_def ring_link_payload_is_broadcast_def Let_def)
  then show thesis using that by blast
qed

lemma send_broadcast_keeps:
  "s_broadcast_task (snd (send_broadcast msg l)) = s_broadcast_task l"
  "s_config (snd (send_broadcast msg l)) = s_config l"
  by (simp_all add: send_broadcast_def ring_link_lowlevel_transmit_payload_def spi_transmit_def Let_def)

lemma own_broadcast_step:
  assumes "ring_link_payload_is_broadcast p" "pl_src p = config_get_id (s_config l)"
    "s_broadcast_task l"
  shows "receive_frames [p] l = emit NotifyGive l"
  using assms by (simp add: ring_link_internal_handler_def broadcast_handler_def
      ring_link_payload_is_from_device_def)

text \<open>The sender is notified exactly when its own broadcast has come round the ring.\<close>

lemma own_broadcast_returns:
  assumes tr: "trace l = trace origin @ [SpiFrame ESP_OK p]" and p: "ring_link_payload_is_broadcast p"
    and src: "pl_src p = config_get_id (s_config l)" and task: "s_broadcast_task l"
    and home: "if n \<le> 4 then \<exists>q. fs = [q] \<and> same_message p q else fs = []"
  shows "NotifyGive \<in> set (new_effects origin (receive_frames fs l)) \<longleftrightarrow> n \<le> 4"
proof (cases "n \<le> 4")
  case True
  with home obtain q where q: "fs = [q]" "same_message p q" by auto
  have "receive_frames [q] l = emit NotifyGive l"
    using same_message_broadcast(1) [OF q(2)] p q(2) src task
    by (intro own_broadcast_step) (simp_all add: same_message_def)
  then show ?thesis using True by (simp add: new_effects_def tr q(1))
next
  case False
  with home show ?thesis by (simp add: new_effects_def tr)
qed

text \<open>
  Property C4 (ring broadcast): a broadcast whose length fits the payload, on a ring of boards
  with ids different from the sender's and buses that answer, is given to the callbacks of the
  i-th board after the sender exactly once if i is at most 5 (counting from 1) and never
  otherwise, each time with the bytes of the message in front of the buffer and with its
  length; and the sender is notified that the broadcast is complete exactly when the ring has at
  most four other boards. So the hop limit of 4 fits rings of up to five boards and no larger
  ones.
\<close>

theorem ring_broadcast_reach:
  assumes "length msg \<le> ring_link_netif_mtu (env origin)"
    and "bus_free origin"
    and "\<forall>l \<in> set others. bus_free l \<and> config_get_id (s_config l) \<noteq> config_get_id (s_config origin)"
    and "broadcast_round msg origin others = (others', origin')"
  shows "length others' = length others \<and>
    (\<forall>i < length others. sibling_messages (new_effects (others ! i) (others' ! i)) =
       (if i < 5 then [(fill_buffer (env origin) msg, of_nat (length msg))] else [])) \<and>
    (NotifyGive \<in> set (new_effects origin origin') \<longleftrightarrow> length others \<le> 4)"
proof -
  let ?l1 = "origin\<lparr>s_broadcast_task := True\<rparr>"
  let ?l2 = "snd (send_broadcast msg ?l1)"
  have "bus_free ?l1" "length msg \<le> ring_link_netif_mtu (env ?l1)"
    using assms(1,2) by (simp_all add: bus_free_def)
  then obtain p where tr: "trace ?l2 = trace origin @ [SpiFrame ESP_OK p]"
    and p: "ring_link_payload_is_broadcast p"
    "pl_src p = config_get_id (s_config origin)" "pl_ttl p = RING_LINK_PAYLOAD_TTL"
    "pl_buffer p = fill_buffer (env origin) msg" "pl_len p = of_nat (length msg)"
    by (rule send_broadcast_frame) simp_all
  have ttl: "unat (pl_ttl p) = 4"
    by (simp add: p(3) payload_consts)
  have sent: "sent_frames (new_effects ?l1 ?l2) = [p]"
    by (simp add: new_effects_def tr)
  have foreign: "\<forall>l \<in> set others. \<not> ring_link_payload_is_from_device p l \<and> bus_free l"
    using assms(3) p(2) by (auto simp: ring_link_payload_is_from_device_def)
  note T = travel_foreign [OF p(1) foreign, unfolded ttl p(4,5)]
  have o: "others' = fst (travel [p] others)" "origin' = receive_frames (snd (travel [p] others)) ?l2"
    using assms(4) sent by (simp_all add: broadcast_round_def Let_def case_prod_unfold)
  have "ring_link_payload_is_broadcast p" "pl_src p = config_get_id (s_config ?l2)" "s_broadcast_task ?l2"
    using p by (simp_all add: send_broadcast_keeps)
  from own_broadcast_returns [OF tr this conjunct2 [OF T]]
  have notified: "NotifyGive \<in> set (new_effects origin origin') \<longleftrightarrow> length others \<le> 4" by (simp add: o(2))
  have le: "i < 5 \<longleftrightarrow> i \<le> 4" for i :: nat
    by linarith
  have "length others' = length others"
    by (simp only: o(1) length_travel)
  moreover have "\<forall>i < length others. sibling_messages (new_effects (others ! i) (others' ! i)) =
       (if i < 5 then [(fill_buffer (env origin) msg, of_nat (length msg))] else [])"
    unfolding o(1) le using T [THEN conjunct1] by simp
  ultimately show ?thesis
    using notified by blast
qed


definition quiet_board :: "u8 \<Rightarrow> link" where
  "quiet_board i = link_init quiet_env (s_config_init\<lparr>cfg_id := i\<rparr>)"

lemma quiet_board_simps [simp]:
  "bus_free (quiet_board i)" "config_get_id (s_config (quiet_board i)) = i"
  "env (quiet_board i) = quiet_env"
  by (simp_all add: quiet_board_def bus_free_def quiet_env_def config_get_id_def)

theorem ring_broadcast_reach_witness:
  "NotifyGive \<in> set (new_effects (quiet_board 4)
     (snd (broadcast_round [1, 7] (quiet_board 4) [quiet_board 0, quiet_board 1]))) \<and>
   length (fst (broadcast_round [1, 7] (quiet_board 4) [quiet_board 0, quiet_board 1])) = 2"
proof -
  obtain os o' where r: "broadcast_round [1, 7] (quiet_board 4) [quiet_board 0, quiet_board 1] = (os, o')"
    by (cases "broadcast_round [1, 7] (quiet_board 4) [quiet_board 0, quiet_board 1]") blast
  have "length ([1, 7] :: byte list) \<le> ring_link_netif_mtu (env (quiet_board 4))"
    by (simp add: ring_link_netif_mtu_def quiet_env_def)
  from ring_broadcast_reach [OF this _ _ r] show ?thesis
    by (simp add: r)
qed

end
