(* ===== verification/Ring_Share.thy ===== *)
theory Ring_Share
  imports Ring_Broadcast
begin

text \<open>
  The message bus between the boards of a node: \<open>siblings\<close> and \<open>ring_share\<close>
  (\<open>components/routing\<close>) on top of \<open>node_broadcast_to_siblings\<close> (\<open>integration/node\<close>). The first
  byte of a message is the component it is for; a component registers its callback under its
  number. A function pointer is the name of the function it points to.
\<close>

section \<open>Repeated attempts\<close>

text \<open>The loop of \<open>node_broadcast_to_siblings\<close> and \<open>node_send_wireless_message\<close>.\<close>

definition MAX_RETRIES :: nat where "MAX_RETRIES = 5"
definition RETRY_DELAY_MS :: u32 where "RETRY_DELAY_MS = 500"

fun retry :: "nat \<Rightarrow> (link \<Rightarrow> bool \<times> link) \<Rightarrow> link \<Rightarrow> bool \<times> link" where
  "retry 0 f l = (False, l)"
| "retry (Suc n) f l =
     (let (ok, l1) = f l
      in if ok then (True, l1) else retry n f (vTaskDelay_ms RETRY_DELAY_MS l1))"

definition node_broadcast_to_siblings :: "byte list \<Rightarrow> link \<Rightarrow> bool \<times> link" where
  "node_broadcast_to_siblings msg l = retry MAX_RETRIES (broadcast_to_siblings msg) l"

definition sb_broadcast_to_siblings :: "byte list \<Rightarrow> link \<Rightarrow> bool \<times> link" where
  "sb_broadcast_to_siblings msg l = node_broadcast_to_siblings msg l"

section \<open>ring_share\<close>

definition RS_MAX_BROADCAST_LEN :: nat where "RS_MAX_BROADCAST_LEN = 512"
definition RS_MAX_COMPONENTS :: nat where "RS_MAX_COMPONENTS = 10"

datatype component_id = RS_SYNC | RS_ROUTING | RS_SHARED_STATE | RS_CHANNEL_MANAGER
  | RS_RESET_MANAGER | RS_INFO_MANAGER | RS_PRIORITY_MANAGER

primrec component_num :: "component_id \<Rightarrow> nat" where
  "component_num RS_SYNC = 0"
| "component_num RS_ROUTING = 1"
| "component_num RS_SHARED_STATE = 2"
| "component_num RS_CHANNEL_MANAGER = 3"
| "component_num RS_RESET_MANAGER = 4"
| "component_num RS_INFO_MANAGER = 5"
| "component_num RS_PRIORITY_MANAGER = 6"

definition RS_LAST_COMPONENT_ID :: nat where "RS_LAST_COMPONENT_ID = 7"

definition component_byte :: "component_id \<Rightarrow> u8" where
  "component_byte c = of_nat (component_num c)"

text \<open>The callbacks the components register, one for each of them.\<close>

datatype rs_callback = SyncOnSibling | RoutingOnSibling | SharedStateOnSibling
  | ChannelManagerOnSibling | ResetManagerOnSibling | InfoManagerOnSibling
  | PriorityManagerOnSibling

record ring_share =
  rs_siblings_set :: bool  \<comment> \<open>\<open>siblings\<close> points to the siblings instance\<close>
  rs_components :: "rs_callback option list"

definition ring_share_zero :: ring_share where
  "ring_share_zero = \<lparr>rs_siblings_set = False,
     rs_components = replicate RS_MAX_COMPONENTS None\<rparr>"

text \<open>The argument of \<open>rs_init\<close> tells whether \<open>mutex_create\<close> succeeds.\<close>

definition rs_init :: "bool \<Rightarrow> ring_share \<Rightarrow> link \<Rightarrow> bool \<times> ring_share \<times> link" where
  "rs_init mutex_ok rs l =
     (if \<not> mutex_ok then (False, ring_share_zero, os_panic ''Could not create mutex'' l)
      else (True, ring_share_zero\<lparr>rs_siblings_set := True\<rparr>, l))"

definition rs_register_component ::
  "component_id \<Rightarrow> rs_callback option \<Rightarrow> ring_share \<Rightarrow> ring_share" where
  "rs_register_component c cb rs =
     rs\<lparr>rs_components := (rs_components rs)[component_num c := cb]\<rparr>"

definition rs_broadcast :: "component_id \<Rightarrow> byte list \<Rightarrow> link \<Rightarrow> bool \<times> link" where
  "rs_broadcast c msg l =
     (if length msg > RS_MAX_BROADCAST_LEN
      then (False, os_panic ''rs_broadcast message too long'' l)
      else sb_broadcast_to_siblings (component_byte c # msg) l)"

text \<open>
  \<open>on_sibling_message\<close> of \<open>ring_share.c\<close>: the callback that is called, if any, and the bytes it
  is called with.
\<close>

definition rs_on_sibling_message ::
  "ring_share \<Rightarrow> byte list \<Rightarrow> link \<Rightarrow> (rs_callback \<times> byte list) option \<times> link" where
  "rs_on_sibling_message rs msg l =
     (case msg of
        [] \<Rightarrow> (None, os_panic ''Got sibling message of length = 0'' l)
      | c # rest \<Rightarrow>
          if unat c \<ge> RS_MAX_COMPONENTS
          then (None, os_panic ''sibling message for a component out of range'' l)
          else (case rs_components rs ! unat c of
                  None \<Rightarrow> (None, l)
                | Some cb \<Rightarrow> (Some (cb, rest), l)))"

definition rs_shutdown :: "ring_share \<Rightarrow> ring_share" where
  "rs_shutdown rs = ring_share_zero"

lemmas rs_consts = RS_MAX_BROADCAST_LEN_def RS_MAX_COMPONENTS_def RS_LAST_COMPONENT_ID_def
  MAX_RETRIES_def RETRY_DELAY_MS_def


section \<open>What an operation of the bus leaves alone\<close>

text \<open>
  \<open>link_step l l'\<close>: from \<open>l\<close> to \<open>l'\<close> the board only added calls to its log and advanced its
  counters; the environment and the configuration are those of \<open>l\<close>.
\<close>

definition link_step :: "link \<Rightarrow> link \<Rightarrow> bool" where
  "link_step l l' \<longleftrightarrow> env l' = env l \<and> s_config l' = s_config l \<and>
     (\<exists>es. trace l' = trace l @ es)"

lemma link_step_refl [simp]: "link_step l l"
  by (simp add: link_step_def)

lemma link_step_trans: "link_step a b \<Longrightarrow> link_step b c \<Longrightarrow> link_step a c"
  by (auto simp: link_step_def)

lemma link_step_emit [simp]: "link_step l (emit e l)"
  by (simp add: link_step_def)

lemma link_step_tick [simp]: "link_step l (tick l)"
  by (simp add: link_step_def)

lemma link_step_panic [simp]: "link_step l (os_panic msg l)"
  by (simp add: os_panic_def)

lemma link_step_delay [simp]: "link_step l (vTaskDelay_ms ms l)"
  by (simp add: vTaskDelay_ms_def)

lemma new_effects_trans:
  assumes "link_step a b" "link_step b c"
  shows "new_effects a c = new_effects a b @ new_effects b c"
  using assms by (auto simp: link_step_def new_effects_def)

lemma trace_new_effects: "link_step a b \<Longrightarrow> trace b = trace a @ new_effects a b"
  by (auto simp: link_step_def new_effects_def)

text \<open>Every payload handed to the SPI driver, whatever its answer.\<close>

fun spi_attempts :: "effect list \<Rightarrow> ring_link_payload list" where
  "spi_attempts [] = []"
| "spi_attempts (SpiFrame rc p # es) = p # spi_attempts es"
| "spi_attempts (_ # es) = spi_attempts es"

lemma spi_attempts_append [simp]: "spi_attempts (es @ fs) = spi_attempts es @ spi_attempts fs"
  by (induction es rule: spi_attempts.induct) simp_all

text \<open>The frames of a broadcast of the message \<open>m\<close> by the board \<open>l\<close>.\<close>

definition carries :: "link \<Rightarrow> byte list \<Rightarrow> ring_link_payload \<Rightarrow> bool" where
  "carries l m p \<longleftrightarrow> ring_link_payload_is_broadcast p \<and> ring_link_payload_is_internal p \<and>
     pl_src p = config_get_id (s_config l) \<and> pl_ttl p = RING_LINK_PAYLOAD_TTL \<and>
     pl_buffer p = fill_buffer (env l) m \<and> pl_len p = of_nat (length m) \<and>
     length m \<le> ring_link_netif_mtu (env l)"

lemma carries_cong: "link_step l l' \<Longrightarrow> carries l' m p = carries l m p"
  by (auto simp: carries_def link_step_def)

lemma broadcast_attempt:
  assumes "broadcast_to_siblings msg l = (ok, l')"
  shows "link_step l l'" and "length (spi_attempts (new_effects l l')) \<le> 1"
    and "ok \<Longrightarrow> spi_attempts (new_effects l l') \<noteq> []"
    and "\<forall>p \<in> set (spi_attempts (new_effects l l')). carries l msg p"
  using assms
  by (auto simp: broadcast_to_siblings_def send_broadcast_def Let_def spi_transmit_def
      ring_link_lowlevel_transmit_payload_def new_effects_def link_step_def carries_def
      ring_link_payload_is_broadcast_def ring_link_payload_is_internal_def payload_consts
      split: if_splits prod.splits)

lemma retry_attempts:
  assumes "retry n (broadcast_to_siblings msg) l = (ok, l')"
  shows "link_step l l' \<and> length (spi_attempts (new_effects l l')) \<le> n \<and>
    (ok \<longrightarrow> spi_attempts (new_effects l l') \<noteq> []) \<and>
    (\<forall>p \<in> set (spi_attempts (new_effects l l')). carries l msg p)"
  using assms
proof (induction n arbitrary: l)
  case 0
  then show ?case by simp
next
  case (Suc n)
  obtain ok1 l1 where one: "broadcast_to_siblings msg l = (ok1, l1)"
    by (cases "broadcast_to_siblings msg l")
  note A = broadcast_attempt [OF one]
  show ?case
  proof (cases ok1)
    case True
    with Suc.prems one A show ?thesis by auto
  next
    case False
    let ?l2 = "vTaskDelay_ms RETRY_DELAY_MS l1"
    have 2: "retry n (broadcast_to_siblings msg) ?l2 = (ok, l')"
      using Suc.prems one False by simp
    note IH = Suc.IH [OF 2]
    have s: "link_step l ?l2"
      using A(1) link_step_delay link_step_trans by blast
    have e: "new_effects l l' = new_effects l l1 @ [Delay RETRY_DELAY_MS] @ new_effects ?l2 l'"
    proof -
      have "new_effects l1 ?l2 = [Delay RETRY_DELAY_MS]"
        by (simp add: vTaskDelay_ms_def)
      then show ?thesis
        using new_effects_trans [OF s conjunct1 [OF IH]]
          new_effects_trans [OF A(1) link_step_delay] by simp
    qed
    show ?thesis
      unfolding e using A IH link_step_trans [OF s] by (auto simp: carries_cong [OF s])
  qed
qed

lemma rs_broadcast_attempts:
  assumes "rs_broadcast c msg l = (ok, l')"
  shows "link_step l l'" and "length (spi_attempts (new_effects l l')) \<le> 5"
    and "ok \<Longrightarrow> spi_attempts (new_effects l l') \<noteq> []"
    and "\<forall>p \<in> set (spi_attempts (new_effects l l')). carries l (component_byte c # msg) p"
    and "length msg > RS_MAX_BROADCAST_LEN \<Longrightarrow> \<not> ok \<and> spi_attempts (new_effects l l') = []"
  using assms retry_attempts [of MAX_RETRIES "component_byte c # msg" l ok l']
  by (auto simp: rs_broadcast_def sb_broadcast_to_siblings_def node_broadcast_to_siblings_def
      os_panic_def MAX_RETRIES_def split: if_splits)

lemma link_step_rs_broadcast [simp]: "link_step l (snd (rs_broadcast c msg l))"
  by (cases "rs_broadcast c msg l") (auto dest: rs_broadcast_attempts(1))

lemma rs_broadcast_frame [simp, frame_simps]:
  "env (snd (rs_broadcast c msg l)) = env l"
  "s_config (snd (rs_broadcast c msg l)) = s_config l"
  using link_step_rs_broadcast [of l c msg] by (simp_all add: link_step_def)

lemma fill_buffer_take:
  assumes "length m \<le> ring_link_netif_mtu e" "length m < 2 ^ 16"
  shows "take (unat (of_nat (length m) :: u16)) (fill_buffer e m) = m"
  using assms by (simp add: fill_buffer_def unat_of_nat)

lemma component_byte_num [simp]: "unat (component_byte c) = component_num c"
  by (cases c) (simp_all add: component_byte_def)

lemma component_num_less: "component_num c < RS_LAST_COMPONENT_ID"
  by (cases c) (simp_all add: rs_consts)

text \<open>The message that a frame of a broadcast brings to the other boards.\<close>

definition frame_message :: "ring_link_payload \<Rightarrow> byte list" where
  "frame_message p = take (unat (pl_len p)) (pl_buffer p)"

lemma rs_frame_bytes:
  assumes "rs_broadcast c msg l = (ok, l')" "p \<in> set (spi_attempts (new_effects l l'))"
  shows "frame_message p = component_byte c # msg"
proof -
  have p: "carries l (component_byte c # msg) p"
    using rs_broadcast_attempts(4) [OF assms(1)] assms(2) by blast
  have len: "length msg \<le> 512"
    using rs_broadcast_attempts(5) [OF assms(1)] assms(2)
    by (cases "length msg \<le> 512") (auto simp: rs_consts)
  then show ?thesis
    using p fill_buffer_take [of "component_byte c # msg" "env l"]
    by (simp add: carries_def frame_message_def)
qed

section \<open>Properties\<close>

text \<open>
  A broadcast hands at most five frames to the SPI driver; each of them
  is an internal broadcast frame of this board that carries the component's number followed by
  the message, and one at least was handed over when the broadcast reports success. A message
  longer than 512 bytes is refused without a frame.
\<close>

lemma rs_broadcast_bounded:
  assumes "rs_broadcast c msg l = (ok, l')"
  shows "length (spi_attempts (new_effects l l')) \<le> 5 \<and>
    (\<forall>p \<in> set (spi_attempts (new_effects l l')). carries l (component_byte c # msg) p) \<and>
    (ok \<longrightarrow> spi_attempts (new_effects l l') \<noteq> []) \<and>
    (length msg > 512 \<longrightarrow> \<not> ok \<and> spi_attempts (new_effects l l') = [])"
  using rs_broadcast_attempts [OF assms] by (auto simp: rs_consts)

text \<open>
  Property C15 (ring_share): the bytes that a frame of a broadcast brings to another board make
  its \<open>ring_share\<close> call the callback registered for the sending component with exactly the
  message that was broadcast, and none when no callback is registered.
\<close>

theorem rs_message_delivered:
  assumes "rs_broadcast c msg l = (ok, l')"
    and "p \<in> set (spi_attempts (new_effects l l'))"
    and "length (rs_components rs) = RS_MAX_COMPONENTS"
  shows "rs_on_sibling_message rs (frame_message p) m =
    (map_option (\<lambda>cb. (cb, msg)) (rs_components rs ! component_num c), m)"
  using component_num_less [of c]
  by (simp add: rs_frame_bytes [OF assms(1,2)] rs_on_sibling_message_def rs_consts split: option.splits)

theorem rs_message_delivered_witness:
  "\<exists>p \<in> set (spi_attempts (new_effects (quiet_board 0) (snd (rs_broadcast RS_SYNC [2] (quiet_board 0))))).
     rs_on_sibling_message (rs_register_component RS_SYNC (Some SyncOnSibling) ring_share_zero)
       (frame_message p) (quiet_board 1) =
     (Some (SyncOnSibling, [2]), quiet_board 1)"
proof -
  let ?l = "quiet_board 0" and ?rs = "rs_register_component RS_SYNC (Some SyncOnSibling) ring_share_zero"
  obtain ok l' where r: "rs_broadcast RS_SYNC [2] ?l = (ok, l')"
    by (cases "rs_broadcast RS_SYNC [2] ?l")
  have ok: "fst (rs_broadcast RS_SYNC [2] ?l)"
    by (simp add: rs_broadcast_def sb_broadcast_to_siblings_def node_broadcast_to_siblings_def
        rs_consts broadcast_to_siblings_def send_broadcast_def quiet_board_def quiet_env_def
        ring_link_netif_mtu_def ring_link_lowlevel_transmit_payload_def spi_transmit_def Let_def
        eval_nat_numeral)
  then obtain p where p: "p \<in> set (spi_attempts (new_effects ?l l'))"
    using rs_broadcast_attempts(3) [OF r] r by (cases "spi_attempts (new_effects ?l l')") auto
  have "length (rs_components ?rs) = RS_MAX_COMPONENTS"
    by (simp add: rs_register_component_def ring_share_zero_def)
  from rs_message_delivered [OF r p this, of "quiet_board 1"] p show ?thesis
    by (auto simp: r rs_register_component_def ring_share_zero_def rs_consts)
qed

end
