(* ===== verification/Sync.thy ===== *)
theory Sync
  imports Ring_Share
begin

text \<open>
  The distributed lock of a node (\<open>components/routing/sync\<close>): the leader (the center board) issues
  one token per component and the boards pass it on in the order of their orientation.

  A board is the record \<open>sys\<close>, the link and the sync state, which the components that use the lock
  extend with their own state. The callback of a critical section is a name, and the operations
  take the function \<open>run\<close> that says what the named callback does to the board; it may change
  every part of it, as the C callback may. An index out of range of the arrays of the sync state
  is undefined, \<open>None\<close>.
\<close>

section \<open>State\<close>

definition N_DEVICES :: u8 where "N_DEVICES = 5"

definition ORIENTATION_NORTH :: u8 where "ORIENTATION_NORTH = 1"
definition ORIENTATION_SOUTH :: u8 where "ORIENTATION_SOUTH = 2"
definition ORIENTATION_EAST :: u8 where "ORIENTATION_EAST = 3"
definition ORIENTATION_WEST :: u8 where "ORIENTATION_WEST = 4"
definition ORIENTATION_CENTER :: u8 where "ORIENTATION_CENTER = 5"

lemmas orientations = ORIENTATION_NORTH_def ORIENTATION_SOUTH_def ORIENTATION_EAST_def
  ORIENTATION_WEST_def ORIENTATION_CENTER_def N_DEVICES_def

text \<open>The only callback that the program registers for a critical section.\<close>

datatype cs_callback = RoutingOnCriticalSection

record sync_cs_callback_t =
  cs_function :: "cs_callback option"
  is_inside :: bool

datatype sync_impl = LEADER_IMPL | FOLLOWER_IMPL

record sync_leader_t =
  first_device_to_get_token :: u8
  requested_tokens :: "u8 list"
  is_token_out :: "bool list"

record sync_t =
  sync_orientation :: u8
  is_leader :: bool
  critical_sections :: "sync_cs_callback_t list"
  sync_impl :: sync_impl
  leader_st :: sync_leader_t

text \<open>A board as the lock sees it; the components on top extend the record.\<close>

record sys =
  lk :: link
  sy :: sync_t

section \<open>Messages\<close>

datatype sync_msg = TokenRequest u8 | TokenGrant u8 u8  \<comment> \<open>destination, critical section\<close>

definition SYNC_MSG_TOKEN_REQUEST :: u8 where "SYNC_MSG_TOKEN_REQUEST = 1"
definition SYNC_MSG_TOKEN_GRANT :: u8 where "SYNC_MSG_TOKEN_GRANT = 2"
definition SIZEOF_SYNC_MSG :: nat where "SIZEOF_SYNC_MSG = 3"

text \<open>The second byte of the union is not set by a request; it is never read.\<close>

fun sync_msg_bytes :: "sync_msg \<Rightarrow> byte list" where
  "sync_msg_bytes (TokenRequest cs) = [SYNC_MSG_TOKEN_REQUEST, cs, 0]"
| "sync_msg_bytes (TokenGrant destination cs) = [SYNC_MSG_TOKEN_GRANT, destination, cs]"

definition sync_msg_of_bytes :: "byte list \<Rightarrow> sync_msg option" where
  "sync_msg_of_bytes bs =
     (if bs ! 0 = SYNC_MSG_TOKEN_GRANT then Some (TokenGrant (bs ! 1) (bs ! 2))
      else if bs ! 0 = SYNC_MSG_TOKEN_REQUEST then Some (TokenRequest (bs ! 1))
      else None)"

lemmas sync_msg_consts = SYNC_MSG_TOKEN_REQUEST_def SYNC_MSG_TOKEN_GRANT_def SIZEOF_SYNC_MSG_def

interpretation sync_wire: wire_format "sync_msg_bytes" "the \<circ> sync_msg_of_bytes" SIZEOF_SYNC_MSG
  "\<lambda>_. True"
proof
  fix m
  show "length (sync_msg_bytes m) = SIZEOF_SYNC_MSG"
    by (cases m) (simp_all add: sync_msg_consts)
  show "(the \<circ> sync_msg_of_bytes) (sync_msg_bytes m) = m"
    by (cases m) (simp_all add: sync_msg_of_bytes_def sync_msg_consts)
qed

lemma sync_msg_roundtrip [simp]: "sync_msg_of_bytes (sync_msg_bytes m) = Some m"
  by (cases m) (simp_all add: sync_msg_of_bytes_def sync_msg_consts)

lemma sync_msg_length [simp]: "length (sync_msg_bytes m) = 3"
  using sync_wire.length_enc by (simp add: sync_msg_consts)

section \<open>Broadcasting from a board\<close>

definition board_broadcast ::
  "component_id \<Rightarrow> byte list \<Rightarrow> 'a sys_scheme \<Rightarrow> bool \<times> 'a sys_scheme" where
  "board_broadcast c msg d = (let (ok, l) = rs_broadcast c msg (lk d) in (ok, d\<lparr>lk := l\<rparr>))"

definition sync_broadcast :: "sync_msg \<Rightarrow> 'a sys_scheme \<Rightarrow> 'a sys_scheme" where
  "sync_broadcast m d = snd (board_broadcast RS_SYNC (sync_msg_bytes m) d)"

definition board_panic :: "string \<Rightarrow> 'a sys_scheme \<Rightarrow> 'a sys_scheme" where
  "board_panic msg d = d\<lparr>lk := os_panic msg (lk d)\<rparr>"

definition on_leader :: "(sync_leader_t \<Rightarrow> sync_leader_t) \<Rightarrow> 'a sys_scheme \<Rightarrow> 'a sys_scheme" where
  "on_leader f d = d\<lparr>sy := (sy d)\<lparr>leader_st := f (leader_st (sy d))\<rparr>\<rparr>"

section \<open>The leader\<close>

definition issue_new_token :: "nat \<Rightarrow> 'a sys_scheme \<Rightarrow> 'a sys_scheme option" where
  "issue_new_token cs d =
     do { out \<leftarrow> aset (is_token_out (leader_st (sy d))) cs True;
          let d1 = on_leader (\<lambda>s. s\<lparr>is_token_out := out\<rparr>) d;
          let msg = TokenGrant (first_device_to_get_token (leader_st (sy d1))) (of_nat cs);
          Some (sync_broadcast msg d1) }"

definition leader_request_critical_section :: "nat \<Rightarrow> 'a sys_scheme \<Rightarrow> 'a sys_scheme option" where
  "leader_request_critical_section cs d =
     do { out \<leftarrow> aget (is_token_out (leader_st (sy d))) cs;
          if out
          then do { n \<leftarrow> aget (requested_tokens (leader_st (sy d))) cs;
                    if n < 255
                    then do { ns \<leftarrow> aset (requested_tokens (leader_st (sy d))) cs (n + 1);
                              Some (on_leader (\<lambda>s. s\<lparr>requested_tokens := ns\<rparr>) d) }
                    else Some d }
          else issue_new_token cs d }"

text \<open>
  The part of \<open>on_token_grant\<close> that leader and follower share: the callback is called with
  \<open>is_inside\<close> set.
\<close>

definition set_inside :: "nat \<Rightarrow> bool \<Rightarrow> 'a sys_scheme \<Rightarrow> 'a sys_scheme option" where
  "set_inside cs b d =
     do { x \<leftarrow> aget (critical_sections (sy d)) cs;
          xs \<leftarrow> aset (critical_sections (sy d)) cs (x\<lparr>is_inside := b\<rparr>);
          Some (d\<lparr>sy := (sy d)\<lparr>critical_sections := xs\<rparr>\<rparr>) }"

definition run_callback ::
  "(cs_callback \<Rightarrow> 'a sys_scheme \<Rightarrow> 'a sys_scheme option) \<Rightarrow> nat \<Rightarrow> 'a sys_scheme \<Rightarrow>
   'a sys_scheme option" where
  "run_callback run cs d =
     do { x \<leftarrow> aget (critical_sections (sy d)) cs;
          case cs_function x of
            None \<Rightarrow> Some d
          | Some cb \<Rightarrow> do { d1 \<leftarrow> set_inside cs True d;
                            d2 \<leftarrow> run cb d1;
                            set_inside cs False d2 } }"

text \<open>What the leader does when the token is back.\<close>

definition leader_token_back :: "nat \<Rightarrow> 'a sys_scheme \<Rightarrow> 'a sys_scheme option" where
  "leader_token_back cs d =
     do { n \<leftarrow> aget (requested_tokens (leader_st (sy d))) cs;
          if n > 0
          then do { ns \<leftarrow> aset (requested_tokens (leader_st (sy d))) cs (n - 1);
                    issue_new_token cs (on_leader (\<lambda>s. s\<lparr>requested_tokens := ns\<rparr>) d) }
          else do { out \<leftarrow> aset (is_token_out (leader_st (sy d))) cs False;
                    Some (on_leader (\<lambda>s. s\<lparr>is_token_out := out\<rparr>) d) } }"

definition leader_on_token_grant ::
  "(cs_callback \<Rightarrow> 'a sys_scheme \<Rightarrow> 'a sys_scheme option) \<Rightarrow> u8 \<Rightarrow> u8 \<Rightarrow> 'a sys_scheme \<Rightarrow>
   'a sys_scheme option" where
  "leader_on_token_grant run destination cs d =
     (if destination \<noteq> sync_orientation (sy d) then Some d
      else do { d1 \<leftarrow> run_callback run (unat cs) d;
                leader_token_back (unat cs) d1 })"

definition leader_on_token_request :: "u8 \<Rightarrow> 'a sys_scheme \<Rightarrow> 'a sys_scheme option" where
  "leader_on_token_request cs d = leader_request_critical_section (unat cs) d"

definition sync_leader_init :: "sync_t \<Rightarrow> sync_t" where
  "sync_leader_init s = s\<lparr>leader_st :=
     \<lparr>first_device_to_get_token = ORIENTATION_NORTH,
       requested_tokens = replicate RS_LAST_COMPONENT_ID 0,
       is_token_out = replicate RS_LAST_COMPONENT_ID False\<rparr>, sync_impl := LEADER_IMPL\<rparr>"

section \<open>The followers\<close>

definition next_device :: "u8 \<Rightarrow> u8" where
  "next_device ori = (ori mod N_DEVICES) + 1"

definition follower_pass_token :: "u8 \<Rightarrow> 'a sys_scheme \<Rightarrow> 'a sys_scheme" where
  "follower_pass_token cs d =
     sync_broadcast (TokenGrant (next_device (sync_orientation (sy d))) cs) d"

definition follower_on_token_grant ::
  "(cs_callback \<Rightarrow> 'a sys_scheme \<Rightarrow> 'a sys_scheme option) \<Rightarrow> u8 \<Rightarrow> u8 \<Rightarrow> 'a sys_scheme \<Rightarrow>
   'a sys_scheme option" where
  "follower_on_token_grant run destination cs d =
     (if destination \<noteq> sync_orientation (sy d) then Some d
      else do { d1 \<leftarrow> run_callback run (unat cs) d;
                Some (follower_pass_token cs d1) })"

definition follower_request_critical_section :: "nat \<Rightarrow> 'a sys_scheme \<Rightarrow> 'a sys_scheme option" where
  "follower_request_critical_section cs d = Some (sync_broadcast (TokenRequest (of_nat cs)) d)"

definition sync_follower_init :: "sync_t \<Rightarrow> sync_t" where
  "sync_follower_init s = s\<lparr>sync_impl := FOLLOWER_IMPL\<rparr>"

section \<open>The component\<close>

text \<open>\<open>memset(self, 0, sizeof(sync_t))\<close>, with the arrays of the leader in the union.\<close>

definition sync_zero :: sync_t where
  "sync_zero = \<lparr>sync_orientation = 0, is_leader = False,
     critical_sections = replicate RS_LAST_COMPONENT_ID \<lparr>cs_function = None, is_inside = False\<rparr>,
     sync_impl = FOLLOWER_IMPL,
     leader_st = \<lparr>first_device_to_get_token = 0,
       requested_tokens = replicate RS_LAST_COMPONENT_ID 0,
       is_token_out = replicate RS_LAST_COMPONENT_ID False\<rparr>\<rparr>"

definition sync_init :: "ring_share \<Rightarrow> u8 \<Rightarrow> bool \<times> sync_t \<times> ring_share" where
  "sync_init rs ori =
     (let s = sync_zero\<lparr>sync_orientation := ori, is_leader := (ori = ORIENTATION_CENTER)\<rparr>;
          rs1 = rs_register_component RS_SYNC (Some SyncOnSibling) rs
      in (True, if is_leader s then sync_leader_init s else sync_follower_init s, rs1))"

definition sync_register_critical_section ::
  "component_id \<Rightarrow> cs_callback option \<Rightarrow> sync_t \<Rightarrow> sync_t" where
  "sync_register_critical_section c cb s =
     s\<lparr>critical_sections := (critical_sections s)
         [component_num c := \<lparr>cs_function = cb, is_inside = False\<rparr>]\<rparr>"

definition sync_request_critical_section ::
  "component_id \<Rightarrow> 'a sys_scheme \<Rightarrow> 'a sys_scheme option" where
  "sync_request_critical_section c d =
     (case sync_impl (sy d) of
        LEADER_IMPL \<Rightarrow> leader_request_critical_section (component_num c) d
      | FOLLOWER_IMPL \<Rightarrow> follower_request_critical_section (component_num c) d)"

definition sync_is_inside_critical_section :: "sync_t \<Rightarrow> component_id \<Rightarrow> bool" where
  "sync_is_inside_critical_section s c = is_inside (critical_sections s ! component_num c)"

definition sync_destroy :: "ring_share \<Rightarrow> ring_share" where
  "sync_destroy rs = rs_register_component RS_SYNC None rs"

definition sync_on_sibling_message ::
  "(cs_callback \<Rightarrow> 'a sys_scheme \<Rightarrow> 'a sys_scheme option) \<Rightarrow> byte list \<Rightarrow> 'a sys_scheme \<Rightarrow>
   'a sys_scheme option" where
  "sync_on_sibling_message run raw d =
     (if length raw \<noteq> SIZEOF_SYNC_MSG
      then Some (board_panic ''Invalid sibling message received'' d)
      else case sync_msg_of_bytes raw of
        Some (TokenGrant destination cs) \<Rightarrow>
          (case sync_impl (sy d) of
             LEADER_IMPL \<Rightarrow> leader_on_token_grant run destination cs d
           | FOLLOWER_IMPL \<Rightarrow> follower_on_token_grant run destination cs d)
      | Some (TokenRequest cs) \<Rightarrow>
          (case sync_impl (sy d) of
             LEADER_IMPL \<Rightarrow> leader_on_token_request cs d
           | FOLLOWER_IMPL \<Rightarrow> Some d)
      | None \<Rightarrow> Some d)"

section \<open>A bus that always answers\<close>

text \<open>The messages that the frames of a board bring to the other boards.\<close>

definition bus_messages :: "link \<Rightarrow> link \<Rightarrow> byte list list" where
  "bus_messages l l' =
     map frame_message (sent_frames (new_effects l l'))"

lemma sent_frames_append: "sent_frames (es @ fs) = sent_frames es @ sent_frames fs"
  by (induction es rule: sent_frames.induct) simp_all

definition reliable :: "environment \<Rightarrow> bool" where
  "reliable e \<longleftrightarrow> (\<forall>n. env_bcast_sem e n \<and> env_tx_sem e n \<and> env_spi_tx e n = ESP_OK \<and>
     env_notify e n = 1) \<and> ring_link_netif_mtu e \<ge> 4"

lemma reliable_attempt:
  assumes "reliable (env l)" "length msg \<le> ring_link_netif_mtu (env l)" "length msg < 2 ^ 16"
  shows "\<exists>l'. broadcast_to_siblings msg l = (True, l') \<and> link_step l l' \<and> bus_messages l l' = [msg]"
proof -
  have "take (unat (of_nat (length msg) :: u16)) (fill_buffer (env l) msg) = msg"
    using assms(2,3) by (rule fill_buffer_take)
  with assms(1,2) show ?thesis
    by (simp add: broadcast_to_siblings_def send_broadcast_def reliable_def Let_def
        ring_link_lowlevel_transmit_payload_def spi_transmit_def link_step_def bus_messages_def
        new_effects_def frame_message_def)
qed

lemma reliable_broadcast:
  assumes "reliable (env l)" "Suc (length msg) \<le> ring_link_netif_mtu (env l)" "length msg \<le> 512"
  shows "\<exists>l'. rs_broadcast c msg l = (True, l') \<and> link_step l l' \<and>
    bus_messages l l' = [component_byte c # msg]"
proof -
  have first: "retry MAX_RETRIES f l = (True, l')" if "f l = (True, l')" for f l'
    using that by (simp add: rs_consts eval_nat_numeral)
  obtain l' where "broadcast_to_siblings (component_byte c # msg) l = (True, l')" "link_step l l'"
    "bus_messages l l' = [component_byte c # msg]"
    using reliable_attempt [of l "component_byte c # msg"] assms by auto
  then show ?thesis
    using assms(3) by (simp add: rs_broadcast_def sb_broadcast_to_siblings_def
        node_broadcast_to_siblings_def rs_consts(1) first)
qed

lemma sync_broadcast_reliable:
  assumes "reliable (env (lk d))"
  shows "\<exists>l. sync_broadcast m d = d\<lparr>lk := l\<rparr> \<and> link_step (lk d) l \<and>
    bus_messages (lk d) l = [component_byte RS_SYNC # sync_msg_bytes m]"
proof -
  have "ring_link_netif_mtu (env (lk d)) \<ge> 4" using assms by (simp add: reliable_def)
  with assms obtain l where "rs_broadcast RS_SYNC (sync_msg_bytes m) (lk d) = (True, l)"
    "link_step (lk d) l" "bus_messages (lk d) l = [component_byte RS_SYNC # sync_msg_bytes m]"
    using reliable_broadcast [of "lk d" "sync_msg_bytes m" RS_SYNC] by auto
  then show ?thesis
    by (auto simp: sync_broadcast_def board_broadcast_def)
qed

section \<open>What the operations do to the sync state\<close>

definition sync_wf :: "sync_t \<Rightarrow> bool" where
  "sync_wf s \<longleftrightarrow> length (critical_sections s) = RS_LAST_COMPONENT_ID \<and>
     length (requested_tokens (leader_st s)) = RS_LAST_COMPONENT_ID \<and>
     length (is_token_out (leader_st s)) = RS_LAST_COMPONENT_ID"

lemma sync_wf_lengths:
  "sync_wf s \<Longrightarrow> length (critical_sections s) = 7 \<and>
     length (requested_tokens (leader_st s)) = 7 \<and> length (is_token_out (leader_st s)) = 7"
  by (simp add: sync_wf_def rs_consts)

lemma sync_broadcast_sy [simp]: "sy (sync_broadcast m d) = sy d"
  by (simp add: sync_broadcast_def board_broadcast_def case_prod_unfold Let_def)

lemma on_leader_simps [simp]:
  "lk (on_leader f d) = lk d" "leader_st (sy (on_leader f d)) = f (leader_st (sy d))"
  "critical_sections (sy (on_leader f d)) = critical_sections (sy d)"
  "sync_orientation (sy (on_leader f d)) = sync_orientation (sy d)"
  "sync_impl (sy (on_leader f d)) = sync_impl (sy d)"
  by (simp_all add: on_leader_def)

lemma board_panic_simps [simp]: "sy (board_panic msg d) = sy d"
  by (simp add: board_panic_def)

lemma set_inside_Some:
  "cs < length (critical_sections (sy d)) \<Longrightarrow> set_inside cs b d =
     Some (d\<lparr>sy := (sy d)\<lparr>critical_sections := (critical_sections (sy d))
       [cs := (critical_sections (sy d) ! cs)\<lparr>is_inside := b\<rparr>]\<rparr>\<rparr>)"
  by (simp add: set_inside_def)

text \<open>The number of rounds the leader still owes: the one that is out and the requested ones.\<close>

definition outstanding :: "sync_t \<Rightarrow> nat \<Rightarrow> nat" where
  "outstanding s cs = unat (requested_tokens (leader_st s) ! cs) +
     (if is_token_out (leader_st s) ! cs then 1 else 0)"

lemma issue_Some:
  "sync_wf (sy d) \<Longrightarrow> cs < 7 \<Longrightarrow> issue_new_token cs d =
     Some (sync_broadcast (TokenGrant (first_device_to_get_token (leader_st (sy d))) (of_nat cs))
       (on_leader (\<lambda>s. s\<lparr>is_token_out := (is_token_out s)[cs := True]\<rparr>) d))"
  by (simp add: issue_new_token_def sync_wf_lengths on_leader_def)

text \<open>The board once the leader has taken the token out.\<close>

definition token_goes_out :: "nat \<Rightarrow> 'a sys_scheme \<Rightarrow> 'a sys_scheme" where
  "token_goes_out cs = on_leader (\<lambda>s. s\<lparr>is_token_out := (is_token_out s)[cs := True]\<rparr>)"

lemma issue_reliable:
  assumes "sync_wf (sy d)" "cs < 7" "reliable (env (lk d))"
  shows "\<exists>l. issue_new_token cs d = Some ((token_goes_out cs d)\<lparr>lk := l\<rparr>) \<and> link_step (lk d) l \<and>
    bus_messages (lk d) l = [component_byte RS_SYNC #
      sync_msg_bytes (TokenGrant (first_device_to_get_token (leader_st (sy d))) (of_nat cs))]"
  using sync_broadcast_reliable [of "token_goes_out cs d"
      "TokenGrant (first_device_to_get_token (leader_st (sy d))) (of_nat cs)"] issue_Some [OF assms(1,2)] assms(3)
  by (auto simp: token_goes_out_def)

lemma leader_request_cases:
  assumes "sync_wf (sy d)" "cs < 7"
  shows "leader_request_critical_section cs d =
    (if is_token_out (leader_st (sy d)) ! cs
     then if requested_tokens (leader_st (sy d)) ! cs < 255
          then Some (on_leader (\<lambda>s. s\<lparr>requested_tokens := (requested_tokens s)
                 [cs := requested_tokens s ! cs + 1]\<rparr>) d)
          else Some d
     else issue_new_token cs d)"
  using assms
  by (simp add: leader_request_critical_section_def sync_wf_lengths on_leader_def)

lemma leader_token_back_cases:
  assumes "sync_wf (sy d)" "cs < 7"
  shows "leader_token_back cs d =
    (if requested_tokens (leader_st (sy d)) ! cs > 0
     then issue_new_token cs (on_leader (\<lambda>s. s\<lparr>requested_tokens := (requested_tokens s)
            [cs := requested_tokens s ! cs - 1]\<rparr>) d)
     else Some (on_leader (\<lambda>s. s\<lparr>is_token_out := (is_token_out s)[cs := False]\<rparr>) d))"
  using assms
  by (simp add: leader_token_back_def sync_wf_lengths on_leader_def)

lemma sync_wf_on_leader:
  "sync_wf (sy d) \<Longrightarrow> length (requested_tokens (f (leader_st (sy d)))) = 7 \<Longrightarrow>
   length (is_token_out (f (leader_st (sy d)))) = 7 \<Longrightarrow> sync_wf (sy (on_leader f d))"
  by (simp add: sync_wf_def rs_consts)

lemma sync_init_wf: "sync_wf (fst (snd (sync_init rs ori)))"
  by (simp add: sync_init_def sync_zero_def sync_wf_def Let_def sync_leader_init_def
      sync_follower_init_def)

section \<open>Properties of one board\<close>

text \<open>
  Every request adds one round to those the leader owes, unless 255
  are waiting already, and every return of the token takes one off; a token is out exactly when
  a round is owed, and a grant to the first board is broadcast exactly when a round starts.
\<close>

lemma sync_leader_accounting:
  assumes "sync_wf (sy d)" "cs < 7" "reliable (env (lk d))"
    and "is_token_out (leader_st (sy d)) ! cs \<or> requested_tokens (leader_st (sy d)) ! cs = 0"
  shows "\<exists>r b. leader_request_critical_section cs d = Some r \<and> leader_token_back cs d = Some b \<and>
    outstanding (sy r) cs = min 256 (outstanding (sy d) cs + 1) \<and>
    outstanding (sy b) cs = outstanding (sy d) cs - 1 \<and>
    is_token_out (leader_st (sy r)) ! cs \<and>
    (is_token_out (leader_st (sy b)) ! cs \<longleftrightarrow> outstanding (sy b) cs > 0) \<and>
    (bus_messages (lk d) (lk r) \<noteq> [] \<longleftrightarrow> outstanding (sy d) cs = 0) \<and>
    (bus_messages (lk d) (lk b) \<noteq> [] \<longleftrightarrow> outstanding (sy d) cs > 1)"
proof -
  let ?n = "requested_tokens (leader_st (sy d)) ! cs" and ?out = "is_token_out (leader_st (sy d)) ! cs"
  note len = sync_wf_lengths [OF assms(1)]
  have n: "unat ?n \<le> 255" "?n = 0 \<longleftrightarrow> unat ?n = 0" "?n < 255 \<longleftrightarrow> unat ?n < 255"
    "0 < ?n \<longleftrightarrow> 0 < unat ?n"
    using unat_u8_less [of ?n] by (simp_all add: word_less_nat_alt unat_eq_0)
  have still: "bus_messages l l = []" for l
    by (simp add: bus_messages_def)
  obtain l where issue: "issue_new_token cs d = Some ((token_goes_out cs d)\<lparr>lk := l\<rparr>)"
    "bus_messages (lk d) l \<noteq> []"
    using issue_reliable [OF assms(1-3)] by auto
  let ?d = "on_leader (\<lambda>s. s\<lparr>requested_tokens := (requested_tokens s)[cs := requested_tokens s ! cs - 1]\<rparr>) d"
  have "sync_wf (sy ?d)"
    using len by (intro sync_wf_on_leader [OF assms(1)]) simp_all
  then obtain m where again: "issue_new_token cs ?d = Some ((token_goes_out cs ?d)\<lparr>lk := m\<rparr>)"
    "bus_messages (lk d) m \<noteq> []"
    using issue_reliable [of ?d cs] assms(2,3) by auto
  have up: "\<exists>r. leader_request_critical_section cs d = Some r \<and>
      outstanding (sy r) cs = min 256 (outstanding (sy d) cs + 1) \<and>
      is_token_out (leader_st (sy r)) ! cs \<and>
      (bus_messages (lk d) (lk r) \<noteq> [] \<longleftrightarrow> outstanding (sy d) cs = 0)"
    using assms(2,4) n len issue
    by (auto simp: leader_request_cases [OF assms(1,2)] outstanding_def still unat_inc_u8 token_goes_out_def)
  have down: "\<exists>b. leader_token_back cs d = Some b \<and>
      outstanding (sy b) cs = outstanding (sy d) cs - 1 \<and>
      (is_token_out (leader_st (sy b)) ! cs \<longleftrightarrow> outstanding (sy b) cs > 0) \<and>
      (bus_messages (lk d) (lk b) \<noteq> [] \<longleftrightarrow> outstanding (sy d) cs > 1)"
    using assms(2,4) n len again
    by (auto simp: leader_token_back_cases [OF assms(1,2)] outstanding_def still unat_dec_u8 token_goes_out_def)
  from up obtain r where r: "leader_request_critical_section cs d = Some r"
    "outstanding (sy r) cs = min 256 (outstanding (sy d) cs + 1)" "is_token_out (leader_st (sy r)) ! cs"
    "bus_messages (lk d) (lk r) \<noteq> [] \<longleftrightarrow> outstanding (sy d) cs = 0" by (elim exE conjE)
  from down obtain b where "leader_token_back cs d = Some b"
    "outstanding (sy b) cs = outstanding (sy d) cs - 1"
    "is_token_out (leader_st (sy b)) ! cs \<longleftrightarrow> outstanding (sy b) cs > 0"
    "bus_messages (lk d) (lk b) \<noteq> [] \<longleftrightarrow> outstanding (sy d) cs > 1" by (elim exE conjE)
  with r show ?thesis by (intro exI [of _ r] exI [of _ b] conjI)
qed

text \<open>The operations on a critical section are defined exactly for the seven there are.\<close>

lemma section_ops_defined:
  assumes "sync_wf (sy d)"
  shows "issue_new_token k d = None \<longleftrightarrow> \<not> k < 7" "leader_token_back k d = None \<longleftrightarrow> \<not> k < 7"
    and "k < 7 \<Longrightarrow> \<exists>d'. set_inside k v d = Some d' \<and> sync_wf (sy d')"
proof -
  note len = sync_wf_lengths [OF assms]
  have issue: "\<And>b :: 'a sys_scheme. issue_new_token k b = None \<longleftrightarrow> length (is_token_out (leader_st (sy b))) \<le> k"
    by (simp add: issue_new_token_def aset_def)
  show "issue_new_token k d = None \<longleftrightarrow> \<not> k < 7" using len by (simp add: issue not_less)
  show "leader_token_back k d = None \<longleftrightarrow> \<not> k < 7"
    using len by (auto simp: leader_token_back_def aset_def aget_def issue Let_def simp del: not_None_eq)
  show "\<exists>d'. set_inside k v d = Some d' \<and> sync_wf (sy d')" if "k < 7"
    using that assms by (simp add: set_inside_Some len) (simp add: sync_wf_def)
qed

lemma run_callback_defined:
  assumes wf: "sync_wf (sy d)" and run: "\<And>cb b. sync_wf (sy b) \<Longrightarrow> \<exists>b'. run cb b = Some b' \<and> sync_wf (sy b')"
  shows "if k < 7 then \<exists>b. run_callback run k d = Some b \<and> sync_wf (sy b) else run_callback run k d = None"
proof (cases "k < 7")
  case True
  then obtain x where x: "aget (critical_sections (sy d)) k = Some x" using sync_wf_lengths [OF wf] by simp
  show ?thesis
  proof (cases "cs_function x")
    case None
    with x True wf show ?thesis by (simp add: run_callback_def)
  next
    case (Some cb)
    obtain d1 where d1: "set_inside k True d = Some d1" "sync_wf (sy d1)"
      using section_ops_defined(3) [OF wf True] by metis
    obtain d2 where d2: "run cb d1 = Some d2" "sync_wf (sy d2)"
      using run [OF d1(2)] by metis
    obtain d3 where "set_inside k False d2 = Some d3" "sync_wf (sy d3)"
      using section_ops_defined(3) [OF d2(2) True] by metis
    with x Some d1 d2 True show ?thesis by (simp add: run_callback_def)
  qed
qed (use sync_wf_lengths [OF wf] in \<open>simp add: run_callback_def aget_def\<close>)

text \<open>
  The handler of a sync message is undefined, an access outside the
  arrays of seven critical sections, exactly for a request that reaches the leader, or a grant
  that is for this board, whose number is 7 or more; the number is taken from the wire unchecked.
  A message of another length or of unknown kind leaves the sync state alone.
\<close>

lemma sync_message_defined:
  assumes "sync_wf (sy d)"
    and "\<And>cb b. sync_wf (sy b) \<Longrightarrow> \<exists>b'. run cb b = Some b' \<and> sync_wf (sy b')"
  shows "(sync_on_sibling_message run (sync_msg_bytes (TokenRequest cs)) d = None \<longleftrightarrow>
      sync_impl (sy d) = LEADER_IMPL \<and> cs \<ge> 7) \<and>
    (sync_on_sibling_message run (sync_msg_bytes (TokenGrant dst cs)) d = None \<longleftrightarrow>
      dst = sync_orientation (sy d) \<and> cs \<ge> 7) \<and>
    (length raw \<noteq> 3 \<or> raw ! 0 \<notin> {1, 2} \<longrightarrow>
      (\<exists>b. sync_on_sibling_message run raw d = Some b \<and> sy b = sy d))"
proof (intro conjI)
  note len = sync_wf_lengths [OF assms(1)]
  have cs: "cs \<ge> 7 \<longleftrightarrow> \<not> unat cs < 7" by (simp add: word_le_nat_alt not_less)
  note callback = run_callback_defined [where run = run and k = "unat cs", OF assms]
  show "sync_on_sibling_message run (sync_msg_bytes (TokenRequest cs)) d = None \<longleftrightarrow>
      sync_impl (sy d) = LEADER_IMPL \<and> cs \<ge> 7"
    using len section_ops_defined(1) [OF assms(1), of "unat cs"]
    by (cases "sync_impl (sy d)") (auto simp: sync_on_sibling_message_def sync_msg_consts cs
        sync_msg_of_bytes_def leader_on_token_request_def leader_request_critical_section_def
        aget_def aset_def split: if_splits)
  show "sync_on_sibling_message run (sync_msg_bytes (TokenGrant dst cs)) d = None \<longleftrightarrow>
      dst = sync_orientation (sy d) \<and> cs \<ge> 7"
    using callback section_ops_defined(2) [of _ "unat cs"]
    by (cases "sync_impl (sy d)") (auto simp: sync_on_sibling_message_def sync_msg_consts cs
        sync_msg_of_bytes_def leader_on_token_grant_def follower_on_token_grant_def Let_def
        split: if_splits)
  show "length raw \<noteq> 3 \<or> raw ! 0 \<notin> {1, 2} \<longrightarrow>
      (\<exists>b. sync_on_sibling_message run raw d = Some b \<and> sy b = sy d)"
    by (auto simp: sync_on_sibling_message_def sync_msg_consts sync_msg_of_bytes_def)
qed

end
