(* ===== verification/Mesh.thy ===== *)
theory Mesh
  imports Subnets Routing_Table Sync "HOL-Library.Sublist"
begin

text \<open>
  The way of a packet through the mesh. A node is the list of the orientations that lead to it
  from the root; its network is the block that the chain of provisions gives it. A packet that is
  in a node goes where the table of the node says: to the center, over the link of an outer board
  to a child of the node, or to the node it was provisioned by. That all boards of a node agree on
  this, and that the packet gets to the board in question, is shown in \<open>Routing_Hooks\<close>.
\<close>

section \<open>The mesh\<close>

record mesh =
  mesh_nodes :: "u8 list list"
  mesh_up :: "u8 list \<Rightarrow> u8"  \<comment> \<open>the board that is linked to the parent; the center in the root\<close>
  mesh_table :: "u8 list \<Rightarrow> rt_routing_table"

definition net_of :: "u8 list \<Rightarrow> network_t option" where
  "net_of p = subnet_chain (NETWORK 0x0A000000 0xFF000000) (map ucast p)"

text \<open>The node's table routes a block to an outer board that has a child, or to the center of a home.\<close>

definition leads_on :: "mesh \<Rightarrow> u8 list \<Rightarrow> u8 \<Rightarrow> bool" where
  "leads_on m p out \<longleftrightarrow> p @ [out] \<in> set (mesh_nodes m) \<or> p \<noteq> [] \<and> out = ORIENTATION_CENTER"

definition table_joined :: "mesh \<Rightarrow> u8 list \<Rightarrow> bool" where
  "table_joined m p \<longleftrightarrow> table_wf (mesh_table m p) \<and> default_gateway (mesh_table m p) = mesh_up m p \<and>
     (\<forall>k out. route_map (mesh_table m p) k = Some out \<longleftrightarrow>
        leads_on m p out \<and> map_option (\<lambda>b. (nw_addr b, nw_mask b)) (net_of (p @ [out])) = Some k)"

definition node_ok :: "mesh \<Rightarrow> u8 list \<Rightarrow> bool" where
  "node_ok m p \<longleftrightarrow> length p \<le> 6 \<and> set p \<subseteq> {1, 2, 3, 4} \<and> table_joined m p \<and>
     (if p = [] then mesh_up m p = ORIENTATION_CENTER
      else butlast p \<in> set (mesh_nodes m) \<and> mesh_up m p \<in> {1, 2, 3, 4} \<and>
        p @ [mesh_up m p] \<notin> set (mesh_nodes m))"

definition mesh_ok :: "mesh \<Rightarrow> bool" where
  "mesh_ok m \<longleftrightarrow> list_all (node_ok m) (mesh_nodes m)"

datatype mesh_exit = AtCenter "u8 list" | NoLink "u8 list"

text \<open>At most so many nodes on the way; \<open>None\<close> when they are not enough.\<close>

fun mesh_walk :: "mesh \<Rightarrow> u32 \<Rightarrow> nat \<Rightarrow> u8 list \<Rightarrow> mesh_exit option" where
  "mesh_walk m dst 0 p = None"
| "mesh_walk m dst (Suc k) p =
     (let out = routing_table_route (mesh_table m p) dst
      in if out = ORIENTATION_CENTER then Some (AtCenter p)
         else if p @ [out] \<in> set (mesh_nodes m) then mesh_walk m dst k (p @ [out])
         else if p \<noteq> [] \<and> out = mesh_up m p then mesh_walk m dst k (butlast p)
         else Some (NoLink p))"

text \<open>
  The same way link by link: the node that a packet goes on to, and the node where it is after a
  number of links, as long as no node has kept or dropped it.
\<close>

definition mesh_hop :: "mesh \<Rightarrow> u32 \<Rightarrow> u8 list \<Rightarrow> u8 list option" where
  "mesh_hop m dst p =
     (let out = routing_table_route (mesh_table m p) dst
      in if out = ORIENTATION_CENTER then None
         else if p @ [out] \<in> set (mesh_nodes m) then Some (p @ [out])
         else if p \<noteq> [] \<and> out = mesh_up m p then Some (butlast p)
         else None)"

primrec mesh_at :: "mesh \<Rightarrow> u32 \<Rightarrow> nat \<Rightarrow> u8 list \<Rightarrow> u8 list option" where
  "mesh_at m dst 0 p = Some p"
| "mesh_at m dst (Suc k) p = Option.bind (mesh_hop m dst p) (mesh_at m dst k)"

lemma mesh_at_goes_on: "mesh_at m dst k p = Some q \<Longrightarrow> mesh_walk m dst (k + j) p = mesh_walk m dst j q"
  by (induction k arbitrary: p) (auto simp: mesh_hop_def Let_def split: if_splits)

section \<open>Networks along a path\<close>

lemma root_wf: "wf_network 8 (NETWORK 0x0A000000 0xFF000000)"
  by (simp add: wf_network_def prefix_mask_def mask_eq_exp_minus_1 push_bit_eq_mult)

lemma small_orientation: "(b :: u8) \<in> {1, 2, 3, 4, 5} \<Longrightarrow> (ucast b :: u32) < 8"
  by auto

lemma chain_inside:
  assumes "wf_network p n" "p + 3 * length bs \<le> 30" "\<forall>b \<in> set bs. b < 8" "subnet_chain n bs = Some s"
    and "in_network ip s"
  shows "in_network ip n"
  using assms
proof (induction bs arbitrary: p n)
  case (Cons b bs)
  then obtain t where t: "get_node_subnet n b = Some t" "subnet_chain t bs = Some s"
    by (auto split: Option.bind_splits)
  have p: "p \<le> 27" "b < 8" using Cons.prems(2,3) by auto
  have "in_network ip t"
    using Cons.IH [OF subnet_wf [OF Cons.prems(1) p t(1)]] Cons.prems t by simp
  then show ?case using in_subnet [OF Cons.prems(1) p t(1)] by simp
qed simp

lemma chains_apart:
  assumes "wf_network p n" "p + 3 * length bs \<le> 30" "p + 3 * length cs \<le> 30"
    and "\<forall>b \<in> set bs. b < 8" "\<forall>c \<in> set cs. c < 8" "bs \<parallel> cs"
    and "subnet_chain n bs = Some s" "subnet_chain n cs = Some t" "in_network ip s"
  shows "\<not> in_network ip t"
  using assms
proof (induction bs arbitrary: p n cs)
  case (Cons b bs)
  then obtain c cs' where cs: "cs = c # cs'" by (cases cs) auto
  obtain u v where u: "get_node_subnet n b = Some u" "subnet_chain u bs = Some s"
    and v: "get_node_subnet n c = Some v" "subnet_chain v cs' = Some t"
    using Cons.prems(7,8) by (auto simp: cs split: Option.bind_splits)
  have p: "p \<le> 27" "b < 8" "c < 8" using Cons.prems(2,4,5) by (auto simp: cs)
  note U = subnet_wf [OF Cons.prems(1) p(1,2) u(1)] and V = subnet_wf [OF Cons.prems(1) p(1,3) v(1)]
  show ?case
  proof (cases "b = c")
    case True
    then have "bs \<parallel> cs'" using Cons.prems(6) by (simp add: cs parallel_def)
    from Cons.IH [OF U _ _ _ _ this u(2)] Cons.prems v u True show ?thesis by (simp add: cs)
  next
    case False
    have "in_network ip u" using chain_inside [OF U _ _ u(2)] Cons.prems by simp
    moreover have "in_network ip v" if "in_network ip t"
      using chain_inside [OF V _ _ v(2) that] Cons.prems by (simp add: cs)
    ultimately show ?thesis
      using in_subnet [OF Cons.prems(1) p(1,2) u(1)] in_subnet [OF Cons.prems(1) p(1,3) v(1)]
        blocks_differ [OF p(2,3) False] by auto
  qed
qed simp

section \<open>What a node does with a packet\<close>

lemma orientation_cases: "(b :: u8) \<in> {1, 2, 3, 4} \<Longrightarrow> b \<noteq> ORIENTATION_CENTER"
  by (auto simp: orientations)

lemma outer_subset: "A \<subseteq> {1, 2, 3, 4 :: u8} \<Longrightarrow> A \<subseteq> {1, 2, 3, 4, 5}"
  by auto

lemma net_of_wf:
  assumes "length p \<le> 7" "set p \<subseteq> {1, 2, 3, 4, 5}"
  obtains n where "net_of p = Some n" "wf_network (8 + 3 * length p) n"
proof -
  have "\<forall>b \<in> set (map ucast p). (b :: u32) < 8"
    using assms(2) small_orientation by (auto simp del: insert_iff)
  from subnet_chain_wf [OF root_wf _ this] assms(1) that show thesis by (auto simp: net_of_def)
qed

lemma net_of_snoc: "net_of (p @ [b]) = do { n \<leftarrow> net_of p; get_node_subnet n (ucast b) }"
  by (simp add: net_of_def subnet_chain_append cong: bind_option_cong)

lemma net_of_inside:
  assumes "length (p @ r) \<le> 7" "set (p @ r) \<subseteq> {1, 2, 3, 4, 5}" "net_of p = Some n" "net_of (p @ r) = Some s"
    and "in_network ip s"
  shows "in_network ip n"
proof -
  obtain n' where "net_of p = Some n'" "wf_network (8 + 3 * length p) n'"
    by (rule net_of_wf [of p]) (use assms(1,2) in auto)
  then have w: "wf_network (8 + 3 * length p) n" using assms(3) by simp
  have c: "subnet_chain n (map ucast r) = Some s"
    using assms(3,4) by (simp add: net_of_def subnet_chain_append)
  have "\<forall>b \<in> set (map ucast r). (b :: u32) < 8"
    using assms(2) small_orientation by (auto simp del: insert_iff)
  from chain_inside [OF w _ this c assms(5)] assms(1) show ?thesis by simp
qed

lemma nets_apart:
  assumes "length p \<le> 7" "length q \<le> 7" "set p \<subseteq> {1, 2, 3, 4, 5}" "set q \<subseteq> {1, 2, 3, 4, 5}" "p \<parallel> q"
    and "net_of p = Some s" "net_of q = Some t" "in_network ip s"
  shows "\<not> in_network ip t"
proof -
  have "map ucast p \<parallel> map (ucast :: u8 \<Rightarrow> u32) q"
  proof (rule parallelE [OF assms(5)])
    obtain a b c p' q' where d: "b \<noteq> c" "p = a @ b # p'" "q = a @ c # q'"
      using parallel_decomp [OF assms(5)] by blast
    then have "b \<in> {1, 2, 3, 4, 5}" "c \<in> {1, 2, 3, 4, 5}" using assms(3,4) by auto
    then have "(ucast b :: u32) \<noteq> ucast c" using d(1) by auto
    then show ?thesis by (simp add: d parallel_def)
  qed
  moreover have "\<forall>b \<in> set (map ucast p). (b :: u32) < 8" "\<forall>b \<in> set (map ucast q). (b :: u32) < 8"
    using assms(3,4) small_orientation by (auto simp del: insert_iff)
  ultimately show ?thesis
    using chains_apart [OF root_wf, of "map ucast p" "map ucast q" s t ip] assms
    by (simp add: net_of_def)
qed

lemma node_okD:
  assumes "mesh_ok m" "p \<in> set (mesh_nodes m)"
  shows "node_ok m p"
  using assms by (simp add: mesh_ok_def list_all_iff)

lemma lookup_block:
  assumes "node_ok m p" "leads_on m p out" "out \<in> {1, 2, 3, 4, 5}"
    and "net_of (p @ [out]) = Some b" "in_network ip b"
  shows "routing_table_route (mesh_table m p) ip = out"
proof -
  have t: "table_joined m p" and l: "length p \<le> 6" "set p \<subseteq> {1, 2, 3, 4}" using assms(1) by (simp_all add: node_ok_def)
  have wf: "nw_mask s = prefix_mask (8 + 3 * length (p @ [o']))" if "net_of (p @ [o']) = Some s" for o' s
  proof -
    obtain n where n: "net_of p = Some n" "wf_network (8 + 3 * length p) n"
      by (rule net_of_wf [of p]) (use l in auto)
    with that have "get_node_subnet n (ucast o') = Some s" by (simp add: net_of_snoc)
    with get_node_subnet_wf [OF n(2), of "ucast o'"] l(1) show ?thesis by auto
  qed
  show ?thesis
  proof (rule rt.route_match [where k = "(nw_addr b, nw_mask b)"])
    show "table_wf (mesh_table m p)" using t by (simp add: table_joined_def)
    show "route_map (mesh_table m p) (nw_addr b, nw_mask b) = Some out"
      using t assms(2,4) by (simp add: table_joined_def)
    show "matches ip (nw_addr b, nw_mask b)" using assms(5) by (simp add: matches_def in_network_def)
    show "\<forall>k' \<in> dom (route_map (mesh_table m p)). matches ip k' \<longrightarrow> snd k' \<le> snd (nw_addr b, nw_mask b)"
      using t wf wf [OF assms(4)] by (fastforce simp: table_joined_def)
  qed
qed

lemma lookup_default:
  assumes "node_ok m p" "\<And>out b. leads_on m p out \<Longrightarrow> net_of (p @ [out]) = Some b \<Longrightarrow> \<not> in_network ip b"
  shows "routing_table_route (mesh_table m p) ip = mesh_up m p"
proof -
  have t: "table_joined m p" using assms(1) by (simp add: node_ok_def)
  have "\<forall>k \<in> dom (route_map (mesh_table m p)). \<not> matches ip k"
    using t assms(2) by (fastforce simp: table_joined_def matches_def in_network_def)
  with t rt.route_no_match [of "mesh_table m p" ip] show ?thesis by (simp add: table_joined_def)
qed

section \<open>Walks\<close>

lemma mesh_walk_more: "mesh_walk m dst k p = Some r \<Longrightarrow> k \<le> k' \<Longrightarrow> mesh_walk m dst k' p = Some r"
proof (induction k arbitrary: p k')
  case (Suc k)
  then obtain j where "k' = Suc j" "k \<le> j" by (cases k') auto
  with Suc show ?case by (auto simp: Let_def split: if_splits)
qed simp

lemma prefix_in_nodes:
  assumes "mesh_ok m" "p @ r \<in> set (mesh_nodes m)"
  shows "p \<in> set (mesh_nodes m)"
  using assms(2)
proof (induction r rule: rev_induct)
  case (snoc x r)
  from node_okD [OF assms(1) snoc.prems] have "butlast (p @ r @ [x]) \<in> set (mesh_nodes m)"
    by (simp add: node_ok_def split: if_splits)
  with snoc.IH show ?case by (simp add: butlast_append)
qed simp

lemma node_orientations:
  assumes "mesh_ok m" "p \<in> set (mesh_nodes m)"
  shows "length p \<le> 6" "set p \<subseteq> {1, 2, 3, 4}" "ORIENTATION_CENTER \<notin> set p"
  using node_okD [OF assms] by (auto simp: node_ok_def orientations)

lemma walk_down:
  assumes "mesh_ok m" "q \<in> set (mesh_nodes m)" "q \<noteq> []" "net_of (q @ [ORIENTATION_CENTER]) = Some h" "in_network ip h"
  shows "p @ r = q \<Longrightarrow> mesh_walk m ip (Suc (length r)) p = Some (AtCenter q)"
proof (induction r arbitrary: p)
  case Nil
  have "routing_table_route (mesh_table m q) ip = ORIENTATION_CENTER"
    by (rule lookup_block [OF node_okD [OF assms(1,2)] _ _ assms(4,5)])
      (simp_all add: leads_on_def assms(3), simp add: orientations)
  with Nil show ?case by simp
next
  case (Cons x r)
  note q = node_orientations [OF assms(1,2)]
  have child: "p @ [x] \<in> set (mesh_nodes m)" and p: "p \<in> set (mesh_nodes m)"
    using prefix_in_nodes [OF assms(1), of "p @ [x]" r] prefix_in_nodes [OF assms(1), of p "x # r"] assms(2) Cons.prems by simp_all
  have x: "x \<in> {1, 2, 3, 4}" using q(2) Cons.prems by auto
  obtain b where b: "net_of (p @ [x]) = Some b"
    by (rule net_of_wf [of "p @ [x]"]) (use q Cons.prems in auto)
  have "set (q @ [ORIENTATION_CENTER]) \<subseteq> {1, 2, 3, 4, 5}"
    using outer_subset [OF q(2)] by (simp add: orientations)
  moreover have q': "q @ [ORIENTATION_CENTER] = (p @ [x]) @ r @ [ORIENTATION_CENTER]" using Cons.prems by simp
  ultimately have "in_network ip b"
    using net_of_inside [of "p @ [x]" "r @ [ORIENTATION_CENTER]" b h ip] q(1) b assms(4,5)
    unfolding q' [symmetric] by simp
  moreover have "x \<in> {1, 2, 3, 4, 5}" using x by blast
  moreover have "leads_on m p x" using child by (simp add: leads_on_def)
  ultimately have "routing_table_route (mesh_table m p) ip = x"
    using lookup_block [OF node_okD [OF assms(1) p] _ _ b] by blast
  with child Cons.IH [of "p @ [x]"] Cons.prems orientation_cases [OF x] show ?case by simp
qed

lemma walk_up:
  assumes "mesh_ok m" "q \<in> set (mesh_nodes m)" "q \<noteq> []" "net_of (q @ [ORIENTATION_CENTER]) = Some h" "in_network ip h"
  shows "p \<in> set (mesh_nodes m) \<Longrightarrow> mesh_walk m ip (Suc (length p + length q)) p = Some (AtCenter q)"
proof (induction p rule: rev_induct)
  case Nil
  with walk_down [OF assms, of "[]" q] show ?case by simp
next
  case (snoc x p)
  let ?p = "p @ [x]"
  show ?case
  proof (cases "prefix ?p q")
    case True
    then obtain r where "?p @ r = q" by (auto elim: prefixE)
    from mesh_walk_more [OF walk_down [OF assms this], of "Suc (length ?p + length q)"] \<open>?p @ r = q\<close>
    show ?thesis by auto
  next
    case False
    note ok = node_okD [OF assms(1) snoc.prems] and P = node_orientations [OF assms(1) snoc.prems]
    note Q = node_orientations [OF assms(1,2)]
    have "?p \<noteq> q @ [ORIENTATION_CENTER]" using P(3) by auto
    with False have "\<not> prefix ?p (q @ [ORIENTATION_CENTER])" by simp
    moreover have "\<not> prefix (q @ [ORIENTATION_CENTER]) ?p" using P(3) set_mono_prefix by fastforce
    ultimately have apart: "q @ [ORIENTATION_CENTER] \<parallel> ?p" by (simp add: parallel_def)
    have five: "set (q @ [ORIENTATION_CENTER]) \<subseteq> {1, 2, 3, 4, 5}" using Q(2) by (auto simp: orientations)
    have "\<not> in_network ip b" if lead: "leads_on m ?p out" and b: "net_of (?p @ [out]) = Some b" for out b
    proof -
      have out: "out \<in> {1, 2, 3, 4, 5}"
      proof (cases "?p @ [out] \<in> set (mesh_nodes m)")
        case True
        from node_orientations(2) [OF assms(1) this] show ?thesis by auto
      next
        case False
        with lead show ?thesis by (simp add: leads_on_def orientations)
      qed
      have "q @ [ORIENTATION_CENTER] \<parallel> ?p @ [out]"
        using apart parallel_append [OF apart, of "[]" "[out]"] by simp
      from nets_apart [OF _ _ five _ this assms(4) b assms(5)] P Q out show ?thesis by auto
    qed
    from lookup_default [OF ok this] have r: "routing_table_route (mesh_table m ?p) ip = mesh_up m ?p" .
    have up: "mesh_up m ?p \<in> {1, 2, 3, 4}" "?p @ [mesh_up m ?p] \<notin> set (mesh_nodes m)" "p \<in> set (mesh_nodes m)"
      using ok by (simp_all add: node_ok_def)
    from snoc.IH [OF up(3)] r up orientation_cases [OF up(1)] show ?thesis by simp
  qed
qed

section \<open>The table that the protocol builds\<close>

text \<open>
  The default route to the board that the node was provisioned by, and a route for each board that
  has a child, and for the home.
\<close>

definition node_adds :: "u8 list \<Rightarrow> u8 \<Rightarrow> u8 list \<Rightarrow> table_op list" where
  "node_adds p up outs = AddRoute 0 0 up #
     map (\<lambda>out. case net_of (p @ [out]) of Some b \<Rightarrow> AddRoute (nw_addr b) (nw_mask b) out
                 | None \<Rightarrow> RemoveOutput 0) outs"

lemma net_key_inj:
  assumes "length p \<le> 6" "set p \<subseteq> {1, 2, 3, 4}" "{a, b} \<subseteq> {1, 2, 3, 4, 5}"
    and "net_of (p @ [a]) = Some s" "net_of (p @ [b]) = Some t" "nw_addr s = nw_addr t"
  shows "a = b"
proof (rule ccontr)
  assume "a \<noteq> b"
  then have "p @ [a] \<parallel> p @ [b]" by (simp add: parallel_def)
  moreover have i: "in_network (nw_addr u) u" if c: "net_of (p @ [c]) = Some u" and c5: "c \<in> {1, 2, 3, 4, 5}" for c u
  proof -
    obtain u' where "net_of (p @ [c]) = Some u'" "wf_network (8 + 3 * length (p @ [c])) u'"
      by (rule net_of_wf [of "p @ [c]"]) (use assms(1) c5 outer_subset [OF assms(2)] in auto)
    with c show ?thesis by (simp add: in_network_def wf_network_def)
  qed
  ultimately have "\<not> in_network (nw_addr s) t"
    using nets_apart [OF _ _ _ _ _ assms(4,5)] assms(1,3) outer_subset [OF assms(2)] i [OF assms(4)] by simp
  with i [OF assms(5)] assms(3,6) show False by simp
qed

text \<open>
  One more route of a node: the network of an outer board of its own, for which no route is in the
  table yet, so that it always has room.
\<close>

lemma node_adds_snoc:
  "net_of (p @ [x]) = Some b \<Longrightarrow>
   table_run gw (node_adds p up (outs @ [x])) =
     fst (routing_table_add (nw_addr b) (nw_mask b) x (table_run gw (node_adds p up outs)))"
  by (simp add: table_run_def node_adds_def)

lemma outer_mask_nonzero:
  assumes "wf_network (8 + k) b" "k < 24"
  shows "nw_mask b \<noteq> 0"
proof
  assume "nw_mask b = 0"
  with assms(1) have "prefix_mask (8 + k) = 0" by (simp add: wf_network_def)
  moreover have "bit (prefix_mask (8 + k)) 31" using assms(2) by (subst bit_prefix_mask) auto
  ultimately show False by (metis bit_0_eq bot_apply bot_bool_def)
qed

lemma few_outputs_fit:
  assumes wf: "table_wf t" and outs: "set outs \<subseteq> {1, 2, 3, 4, 5 :: u8}" and keys: "dom (route_map t) \<subseteq> f ` set outs"
  shows "\<not> snd (routing_table_add n m x t)"
proof -
  have "card (dom (route_map t)) \<le> card (set outs)" by (rule surj_card_le [OF finite_set keys])
  also have "\<dots> \<le> card {1, 2, 3, 4, 5 :: u8}" using outs by (intro card_mono) simp_all
  finally have "rt_count t < 16" using card_routes [OF wf] by (simp add: card_insert_if)
  then show ?thesis
    using add_used [OF wf, of n m x] by (cases "(n, m) = (0, 0)") (auto simp: case_prod_unfold routing_table_add_def)
qed

lemma foldl_adds:
  assumes "length p \<le> 6" "set p \<subseteq> {1, 2, 3, 4}" "distinct outs" "set outs \<subseteq> {1, 2, 3, 4, 5}"
  shows "table_wf (table_run gw (node_adds p up outs)) \<and>
    default_gateway (table_run gw (node_adds p up outs)) = up \<and>
    (\<forall>k out. route_map (table_run gw (node_adds p up outs)) k = Some out \<longleftrightarrow>
       out \<in> set outs \<and> map_option (\<lambda>b. (nw_addr b, nw_mask b)) (net_of (p @ [out])) = Some k)"
  using assms(3,4)
proof (induction outs rule: rev_induct)
  case Nil
  have "table_wf (table_run gw (node_adds p up []))" by (rule table_run_wf)
  then show ?case
    by (simp add: table_run_def node_adds_def route_map_def used_def routing_table_init_def)
next
  case (snoc x outs)
  let ?t = "table_run gw (node_adds p up outs)" and ?t' = "table_run gw (node_adds p up (outs @ [x]))"
  let ?key = "\<lambda>o'. map_option (\<lambda>b. (nw_addr b, nw_mask b)) (net_of (p @ [o']))"
  have outs: "distinct outs" "set outs \<subseteq> {1, 2, 3, 4, 5}" "x \<notin> set outs" "x \<in> {1, 2, 3, 4, 5}"
    using snoc.prems by auto
  note IH = snoc.IH [OF outs(1,2)]
  obtain b where b: "net_of (p @ [x]) = Some b" "wf_network (8 + 3 * length (p @ [x])) b"
    by (rule net_of_wf [of "p @ [x]"]) (use assms(1) outs(4) outer_subset [OF assms(2)] in auto)
  note t' = node_adds_snoc [OF b(1), of gw up outs]
  have "dom (route_map ?t) \<subseteq> (\<lambda>o'. the (?key o')) ` set outs" using IH by force
  from few_outputs_fit [OF _ outs(2) this] IH
  have full: "\<not> snd (routing_table_add (nw_addr b) (nw_mask b) x ?t)" by blast
  have "nw_mask b \<noteq> 0" using outer_mask_nonzero [OF b(2)] assms(1) by simp
  then have add: "route_map ?t' = (route_map ?t)((nw_addr b, nw_mask b) \<mapsto> x)" "default_gateway ?t' = default_gateway ?t"
    using rt.routes_add [of ?t "nw_addr b" "nw_mask b" x] IH full by (simp_all add: t')
  have key: "?key o' \<noteq> Some (nw_addr b, nw_mask b)" if "o' \<in> set outs" for o'
  proof
    assume "?key o' = Some (nw_addr b, nw_mask b)"
    then obtain b' where b': "net_of (p @ [o']) = Some b'" "nw_addr b' = nw_addr b" by auto
    from net_key_inj [OF assms(1,2) _ b'(1) b(1) b'(2)] that outs show False by auto
  qed
  have R: "route_map ?t k = Some o' \<longleftrightarrow> o' \<in> set outs \<and> ?key o' = Some k" for k o'
    using IH by blast
  have kx: "?key x = Some (nw_addr b, nw_mask b)" using b(1) by simp
  have "route_map ?t' k = Some out \<longleftrightarrow> out \<in> set (outs @ [x]) \<and> ?key out = Some k" for k out
    using kx key [of out] R [of k out] by (cases "out = x") (auto simp: add(1))
  with IH add(2) show ?case using table_run_wf by simp
qed

section \<open>Properties\<close>

text \<open>
  Property C21 (mesh): in a mesh that the protocol has built a packet for an address of a home comes
  to the center of that home, from whatever node it starts, on at most as many links as the two
  nodes are away from the root together.
\<close>

theorem packet_reaches_home:
  assumes "mesh_ok m" "p \<in> set (mesh_nodes m)" "q \<in> set (mesh_nodes m)" "q \<noteq> []"
    and "net_of (q @ [ORIENTATION_CENTER]) = Some home" "in_network dst home"
  shows "mesh_walk m dst (length p + length q + 1) p = Some (AtCenter q)"
  using walk_up [OF assms(1,3-6,2)] by simp

text \<open>
  Property C39 (mesh): an address in the network of a node that belongs to none of its children and
  not to its home goes back and forth on the link between the node and its parent. The node sends
  it to its parent, as it does with everything it does not know, and the parent sends it back over
  the same link: after any number of links it is in the node or in the parent in turn, and no
  node keeps it or drops it.
\<close>

theorem unused_block_bounces:
  assumes "mesh_ok m" "p \<in> set (mesh_nodes m)" "p \<noteq> []" "net_of p = Some n" "in_network dst n"
    and "\<forall>out b. leads_on m p out \<and> net_of (p @ [out]) = Some b \<longrightarrow> \<not> in_network dst b"
  shows "routing_table_route (mesh_table m p) dst = mesh_up m p \<and>
    routing_table_route (mesh_table m (butlast p)) dst = last p \<and>
    mesh_at m dst k p = Some (if even k then p else butlast p) \<and> mesh_walk m dst k p = None"
proof -
  note ok = node_okD [OF assms(1,2)] and P = node_orientations [OF assms(1,2)]
  let ?q = "butlast p" and ?o = "last p"
  have p: "?q @ [?o] = p" using assms(3) by simp
  have up: "mesh_up m p \<in> {1, 2, 3, 4}" "p @ [mesh_up m p] \<notin> set (mesh_nodes m)" "?q \<in> set (mesh_nodes m)"
    using ok assms(3) by (simp_all add: node_ok_def)
  have here: "routing_table_route (mesh_table m p) dst = mesh_up m p"
    using lookup_default [OF ok] assms(6) by blast
  have o: "?o \<in> {1, 2, 3, 4}" using P(2) assms(3) last_in_set by blast
  have there: "routing_table_route (mesh_table m ?q) dst = ?o"
  proof (rule lookup_block [OF node_okD [OF assms(1) up(3)]])
    show "leads_on m ?q ?o" using assms(2) by (simp add: leads_on_def p)
    show "?o \<in> {1, 2, 3, 4, 5}" using o by blast
    show "net_of (?q @ [?o]) = Some n" using assms(4) by (simp add: p)
  qed (rule assms(5))
  have hops: "mesh_hop m dst p = Some ?q" "mesh_hop m dst ?q = Some p"
    using here there up assms(2,3) orientation_cases [OF up(1)] orientation_cases [OF o]
    by (simp_all add: mesh_hop_def p)
  have at: "mesh_at m dst k p = Some (if even k then p else ?q) \<and> mesh_at m dst k ?q = Some (if even k then ?q else p)"
    by (induction k) (simp_all add: hops)
  then have "mesh_walk m dst k p = None" using mesh_at_goes_on [of m dst k p _ 0] by simp
  with here there at show ?thesis by blast
qed

text \<open>A root with a child to the north, which has a child to the south.\<close>

definition example_mesh :: mesh where
  "example_mesh = \<lparr>mesh_nodes = [[], [1], [1, 2]],
     mesh_up = (\<lambda>p. if p = [] then 5 else if p = [1] then 3 else 4),
     mesh_table = (\<lambda>p. if p = [] then table_run 5 (node_adds [] 5 [1])
        else if p = [1] then table_run 5 (node_adds [1] 3 [5, 2])
        else table_run 5 (node_adds [1, 2] 4 [5]))\<rparr>"

lemma example_mesh_ok: "mesh_ok example_mesh"
proof -
  have "table_joined example_mesh []"
    using foldl_adds [of "[]" "[1]" 5 5]
    by (auto simp: table_joined_def leads_on_def example_mesh_def orientations)
  moreover have "table_joined example_mesh [1]"
    using foldl_adds [of "[1]" "[5, 2]" 5 3]
    by (auto simp: table_joined_def leads_on_def example_mesh_def orientations)
  moreover have "table_joined example_mesh [1, 2]"
    using foldl_adds [of "[1, 2]" "[5]" 5 4]
    by (auto simp: table_joined_def leads_on_def example_mesh_def orientations)
  moreover have "mesh_nodes example_mesh = [[], [1], [1, 2]]" "mesh_up example_mesh [] = 5"
    "mesh_up example_mesh [1] = 3" "mesh_up example_mesh [1, 2] = 4"
    by (simp_all add: example_mesh_def)
  ultimately show ?thesis
    by (simp add: mesh_ok_def node_ok_def orientations)
qed

theorem packet_reaches_home_witness:
  "mesh_walk example_mesh 0x0A340001 4 [1, 2] = Some (AtCenter [1])"
proof -
  have "net_of ([1] @ [ORIENTATION_CENTER]) = Some (NETWORK 0x0A340000 0xFFFC0000)" by code_simp
  moreover have "in_network 0x0A340001 (NETWORK 0x0A340000 0xFFFC0000)" by code_simp
  moreover have "[1, 2] \<in> set (mesh_nodes example_mesh)" "[1] \<in> set (mesh_nodes example_mesh)"
    by (simp_all add: example_mesh_def)
  ultimately show ?thesis
    using packet_reaches_home [OF example_mesh_ok, of "[1, 2]" "[1]" "NETWORK 0x0A340000 0xFFFC0000" "0x0A340001"]
    by (simp add: eval_nat_numeral del: mesh_walk.simps)
qed

theorem unused_block_bounces_witness:
  "mesh_at example_mesh 0x0A2C0001 100 [1] = Some [1] \<and> mesh_at example_mesh 0x0A2C0001 101 [1] = Some []"
proof -
  have n: "net_of [1] = Some (NETWORK 0x0A200000 0xFFE00000)" "in_network 0x0A2C0001 (NETWORK 0x0A200000 0xFFE00000)"
    by code_simp+
  have "net_of ([1] @ [2]) = Some (NETWORK 0x0A280000 0xFFFC0000)" "net_of ([1] @ [5]) = Some (NETWORK 0x0A340000 0xFFFC0000)"
    "\<not> in_network 0x0A2C0001 (NETWORK 0x0A280000 0xFFFC0000)" "\<not> in_network 0x0A2C0001 (NETWORK 0x0A340000 0xFFFC0000)"
    by code_simp+
  moreover have "out = 2 \<or> out = 5" if "leads_on example_mesh [1] out" for out
    using that by (simp add: leads_on_def example_mesh_def orientations)
  ultimately have "\<forall>out b. leads_on example_mesh [1] out \<and> net_of ([1] @ [out]) = Some b \<longrightarrow>
      \<not> in_network 0x0A2C0001 b"
    by fastforce
  note bounces = unused_block_bounces [OF example_mesh_ok _ _ n this]
  have "[1] \<in> set (mesh_nodes example_mesh)" by (simp add: example_mesh_def)
  from bounces [OF this, of 100] bounces [OF this, of 101] show ?thesis by simp
qed

end
