(* ===== verification/Channel_Manager.thy ===== *)
theory Channel_Manager
  imports Ring_Share
begin

text \<open>
  The channel manager (\<open>integration/channel_manager\<close>): which wifi channel each board of the node
  offers, and the networks that no board may connect to because a sibling did already or because
  they were full.
\<close>

section \<open>State\<close>

definition CM_CHANNELS :: nat where "CM_CHANNELS = 5"
definition CM_MAX_PEERS :: nat where "CM_MAX_PEERS = 4"
definition MAX_NETWORK_NAME_LENGTH :: nat where "MAX_NETWORK_NAME_LENGTH = 33"
definition NETWORK_NAME_UUID_OFFSET :: nat where "NETWORK_NAME_UUID_OFFSET = 6"
definition UUID_LEN :: nat where "UUID_LEN = 12"

lemmas cm_consts = CM_CHANNELS_def CM_MAX_PEERS_def MAX_NETWORK_NAME_LENGTH_def
  NETWORK_NAME_UUID_OFFSET_def UUID_LEN_def

definition formation_1 :: "u8 list" where "formation_1 = [1, 7, 4, 10, 11]"
definition formation_2 :: "u8 list" where "formation_2 = [5, 11, 8, 2, 11]"

record channel_manager =
  cm_rs_set :: bool
  suggested_channel :: u8
  cm_orientation :: u8
  blocked_networks :: "byte list list"  \<comment> \<open>\<open>char[4][13]\<close>\<close>
  full_networks :: "byte list list"
  full_network_index :: nat

definition startup_networks :: "byte list list" where
  "startup_networks = map (\<lambda>c. chars (''00000000000'' @ [c]) @ [0]) ''1234''"

definition cm_zero :: channel_manager where
  "cm_zero = \<lparr>cm_rs_set = False, suggested_channel = 0, cm_orientation = 0,
     blocked_networks = startup_networks, full_networks = startup_networks,
     full_network_index = 0\<rparr>"

section \<open>Messages\<close>

record cm_message =
  cmm_orientation :: u8
  cmm_channels :: "u8 list"
  cmm_network_name :: "byte list"

definition SIZEOF_CM_MESSAGE :: nat where "SIZEOF_CM_MESSAGE = 39"

definition cm_message_bytes :: "cm_message \<Rightarrow> byte list" where
  "cm_message_bytes m = cmm_orientation m # cmm_channels m @ cmm_network_name m"

definition cm_message_of_bytes :: "byte list \<Rightarrow> cm_message" where
  "cm_message_of_bytes bs = \<lparr>cmm_orientation = bs ! 0, cmm_channels = take 5 (drop 1 bs),
     cmm_network_name = take 33 (drop 6 bs)\<rparr>"

definition cm_message_ok :: "cm_message \<Rightarrow> bool" where
  "cm_message_ok m \<longleftrightarrow> length (cmm_channels m) = CM_CHANNELS \<and>
     length (cmm_network_name m) = MAX_NETWORK_NAME_LENGTH"

interpretation cm_wire: wire_format cm_message_bytes cm_message_of_bytes SIZEOF_CM_MESSAGE cm_message_ok
  by unfold_locales
     (auto simp: cm_message_bytes_def cm_message_of_bytes_def SIZEOF_CM_MESSAGE_def cm_message_ok_def
       cm_consts)

section \<open>Operations\<close>

definition cm_init :: "u8 \<Rightarrow> channel_manager \<Rightarrow> ring_share \<Rightarrow> (channel_manager \<times> ring_share) option" where
  "cm_init ori cm rs =
     do { ch \<leftarrow> aget formation_1 (unat ori);
          Some (cm\<lparr>cm_rs_set := True, cm_orientation := ori, suggested_channel := ch\<rparr>,
            rs_register_component RS_CHANNEL_MANAGER (Some ChannelManagerOnSibling) rs) }"

definition select_formation :: "u8 \<Rightarrow> u8 list" where
  "select_formation connected_channel =
     (if connected_channel \<in> set (take 4 formation_1) then formation_2 else formation_1)"

text \<open>The twelve bytes of the UUID in a network name, as a terminated array.\<close>

definition uuid_slot :: "byte list \<Rightarrow> byte list" where
  "uuid_slot network_name = take UUID_LEN (drop NETWORK_NAME_UUID_OFFSET network_name) @ [0]"

text \<open>
  \<open>on_sibling_message\<close>. \<open>provided\<close> is the answer of \<open>node_is_network_provided\<close>; the first component
  of the result tells whether \<open>node_disable_sta\<close> was called.
\<close>

definition cm_on_sibling_message ::
  "bool \<Rightarrow> byte list \<Rightarrow> channel_manager \<Rightarrow> (bool \<times> channel_manager) option" where
  "cm_on_sibling_message provided msg cm =
     (if length msg \<noteq> SIZEOF_CM_MESSAGE then Some (False, cm)
      else
        let packet = cm_message_of_bytes msg;
            ori = (if unat (cmm_orientation packet) \<ge> CM_MAX_PEERS then CM_MAX_PEERS - 1
                   else unat (cmm_orientation packet));
            cm1 = cm\<lparr>blocked_networks :=
              (blocked_networks cm)[ori := uuid_slot (cmm_network_name packet)]\<rparr>
        in if \<not> provided
           then do { ch \<leftarrow> aget (cmm_channels packet) (unat (cm_orientation cm1));
                     Some (True, cm1\<lparr>suggested_channel := ch\<rparr>) }
           else Some (False, cm1))"

definition cm_provide_to_siblings ::
  "u8 \<Rightarrow> byte list \<Rightarrow> channel_manager \<Rightarrow> link \<Rightarrow> (bool \<times> channel_manager \<times> link) option" where
  "cm_provide_to_siblings connected_channel network_name cm l =
     (if \<not> cm_rs_set cm then Some (False, cm, l)
      else
        let formation = select_formation connected_channel
        in do { ch \<leftarrow> aget formation (unat (cm_orientation cm));
                let cm1 = cm\<lparr>suggested_channel := ch\<rparr>;
                let msg = \<lparr>cmm_orientation = cm_orientation cm1, cmm_channels = formation,
                  cmm_network_name = strncpy_bytes (MAX_NETWORK_NAME_LENGTH - 1) network_name @ [0]\<rparr>;
                let (ok, l1) = rs_broadcast RS_CHANNEL_MANAGER (cm_message_bytes msg) l;
                Some (ok, cm1, l1) })"

definition cm_block_full_ap :: "byte list \<Rightarrow> channel_manager \<Rightarrow> channel_manager" where
  "cm_block_full_ap network_name cm =
     cm\<lparr>full_networks := (full_networks cm)[full_network_index cm := uuid_slot network_name],
        full_network_index := (full_network_index cm + 1) mod CM_MAX_PEERS\<rparr>"

definition cm_get_suggested_channel :: "channel_manager \<Rightarrow> link \<Rightarrow> u8 \<times> link" where
  "cm_get_suggested_channel cm l =
     (if \<not> cm_rs_set cm then (ucast (env_random (env l) (now l) mod 11 + 1), tick l)
      else (suggested_channel cm, l))"

definition cm_is_blocked_uuid :: "byte list \<Rightarrow> channel_manager \<Rightarrow> bool" where
  "cm_is_blocked_uuid network_name cm \<longleftrightarrow>
     (\<exists>slot \<in> set (blocked_networks cm) \<union> set (full_networks cm).
        has_substring (c_str slot) (c_str network_name))"

section \<open>Lemmas\<close>

definition cm_wf :: "channel_manager \<Rightarrow> bool" where
  "cm_wf cm \<longleftrightarrow> length (blocked_networks cm) = CM_MAX_PEERS \<and>
     length (full_networks cm) = CM_MAX_PEERS \<and> full_network_index cm < CM_MAX_PEERS \<and>
     unat (cm_orientation cm) < CM_CHANNELS"

lemma formation_length [simp]: "length (select_formation c) = 5"
  by (simp add: select_formation_def formation_1_def formation_2_def)

text \<open>A network name as the access points of the program use it: 6 bytes, then the UUID.\<close>

definition node_network_name :: "byte list \<Rightarrow> bool" where
  "node_network_name name \<longleftrightarrow> 0 \<notin> set name \<and> 18 \<le> length name \<and> length name \<le> 32"

lemma uuid_slot_blocks:
  assumes "0 \<notin> set name" "18 \<le> length name"
  shows "has_substring (c_str (uuid_slot (name @ rest))) (c_str (name @ 0 # rest'))"
proof -
  let ?u = "take 12 (drop 6 name)"
  have "c_str (uuid_slot (name @ rest)) = ?u"
    using assms by (simp add: uuid_slot_def cm_consts)
      (metis c_str_id in_set_dropD in_set_takeD)
  moreover have "name = take 6 name @ ?u @ drop 18 name"
    using append_take_drop_id [of 6 name] append_take_drop_id [of 12 "drop 6 name"] by simp
  ultimately show ?thesis
    using has_substring_append [of ?u "take 6 name" "drop 18 name"] c_str_id [OF assms(1)] by metis
qed

lemma blocked_by_message:
  assumes "cm_wf cm" "length msg = SIZEOF_CM_MESSAGE"
    and "has_substring (c_str (uuid_slot (cmm_network_name (cm_message_of_bytes msg)))) (c_str name)"
  shows "\<exists>d cm'. cm_on_sibling_message provided msg cm = Some (d, cm') \<and> d = (\<not> provided) \<and> cm_wf cm' \<and>
    cm_is_blocked_uuid name cm' \<and>
    (if provided then suggested_channel cm' = suggested_channel cm
     else suggested_channel cm' = cmm_channels (cm_message_of_bytes msg) ! unat (cm_orientation cm))"
proof -
  let ?s = "uuid_slot (cmm_network_name (cm_message_of_bytes msg))"
  have "?s \<in> set ((blocked_networks cm)[i := ?s])" if "i < 4" for i
    using that assms(1) by (simp add: cm_wf_def cm_consts set_update_memI)
  moreover have "length (cmm_channels (cm_message_of_bytes msg)) = 5"
    using assms(2) by (simp add: cm_message_of_bytes_def SIZEOF_CM_MESSAGE_def)
  ultimately show ?thesis
    using assms
    by (fastforce simp: cm_on_sibling_message_def Let_def cm_is_blocked_uuid_def cm_wf_def cm_consts
        not_le)
qed

section \<open>Properties\<close>

text \<open>
  The channels that a board gives its siblings after it connected
  on a channel are different for the four outer boards, and none of them is that channel.
\<close>

lemma cm_channels_do_not_clash:
  "distinct (take 4 (select_formation c)) \<and> c \<notin> set (take 4 (select_formation c)) \<and>
   length (select_formation c) = CM_CHANNELS"
  by (auto simp: select_formation_def formation_1_def formation_2_def cm_consts)

text \<open>
  Property C32 (channel_manager): the frame by which a board tells its siblings what it connected to
  makes every sibling that receives it refuse that network; a sibling that has no address yet
  also stops its station and takes its channel from the sender's formation.
\<close>

theorem cm_siblings_refuse_network:
  assumes "cm_provide_to_siblings c (name @ [0]) cm l = Some (ok, cm', l')"
    and "p \<in> set (spi_attempts (new_effects l l'))"
    and "node_network_name name" "cm_wf sib"
  shows "\<exists>d sib'. cm_on_sibling_message provided (tl (frame_message p)) sib = Some (d, sib') \<and>
    d = (\<not> provided) \<and> cm_is_blocked_uuid (name @ [0]) sib' \<and>
    (\<not> provided \<longrightarrow> suggested_channel sib' = select_formation c ! unat (cm_orientation sib)) \<and>
    suggested_channel cm' = select_formation c ! unat (cm_orientation cm)"
proof -
  have set: "cm_rs_set cm" using assms(1,2) by (auto simp: cm_provide_to_siblings_def split: if_splits)
  have name: "0 \<notin> set name" "18 \<le> length name" "length name \<le> 32"
    using assms(3) by (simp_all add: node_network_name_def)
  define m where "m = \<lparr>cmm_orientation = cm_orientation cm, cmm_channels = select_formation c,
    cmm_network_name = strncpy_bytes 32 (name @ [0]) @ [0]\<rparr>"
  have ok: "cm_message_ok m" by (simp add: m_def cm_message_ok_def cm_consts)
  from assms(1) set have b: "rs_broadcast RS_CHANNEL_MANAGER (cm_message_bytes m) l = (ok, l')"
    and s: "suggested_channel cm' = select_formation c ! unat (cm_orientation cm)"
    by (auto simp: cm_provide_to_siblings_def m_def cm_consts aget_eq_Some bind_eq_Some_conv Let_def
        split: prod.splits)
  have f: "tl (frame_message p) = cm_message_bytes m"
    using rs_frame_bytes [OF b assms(2)] by simp
  have n: "cmm_network_name m = name @ replicate (32 - length name) 0 @ [0]"
    using name c_str_id [OF name(1), of "[]"] by (simp add: m_def strncpy_bytes_def)
  have "has_substring (c_str (uuid_slot (cmm_network_name m))) (c_str (name @ [0]))"
    unfolding n using uuid_slot_blocks [OF name(1,2)] by blast
  then have "has_substring (c_str (uuid_slot (cmm_network_name (cm_message_of_bytes (cm_message_bytes m)))))
      (c_str (name @ [0]))"
    by (simp only: cm_wire.dec_enc [OF ok])
  from blocked_by_message [OF assms(4) cm_wire.length_enc [OF ok] this, of provided]
  show ?thesis
    unfolding f using s by (auto simp: cm_wire.dec_enc [OF ok]) (simp_all add: m_def)
qed

definition example_network :: "byte list" where
  "example_network = chars ''I4A_N_A0B1C2D3E4F5''"

definition example_cm :: "u8 \<Rightarrow> channel_manager" where
  "example_cm ori = cm_zero\<lparr>cm_rs_set := True, cm_orientation := ori\<rparr>"

lemma quiet_provides:
  "\<exists>ok cm' l' p. cm_provide_to_siblings 7 (example_network @ [0]) (example_cm 0) (quiet_board 0) = Some (ok, cm', l') \<and>
     p \<in> set (spi_attempts (new_effects (quiet_board 0) l'))"
proof -
  have "case cm_provide_to_siblings 7 (example_network @ [0]) (example_cm 0) (quiet_board 0) of
      None \<Rightarrow> False | Some (ok, cm', l') \<Rightarrow> spi_attempts (new_effects (quiet_board 0) l') \<noteq> []"
    by code_simp
  then show ?thesis by (auto split: option.splits simp: neq_Nil_conv)
qed

theorem cm_siblings_refuse_network_witness:
  "\<exists>msg sib'. cm_on_sibling_message False msg (example_cm 1) = Some (True, sib') \<and>
     cm_is_blocked_uuid (example_network @ [0]) sib' \<and> suggested_channel sib' = 11"
proof -
  obtain ok cm' l' p where
    f: "cm_provide_to_siblings 7 (example_network @ [0]) (example_cm 0) (quiet_board 0) = Some (ok, cm', l')"
      "p \<in> set (spi_attempts (new_effects (quiet_board 0) l'))"
    using quiet_provides by blast
  have "node_network_name example_network" "cm_wf (example_cm 1)" by code_simp+
  from cm_siblings_refuse_network [OF f this, of False]
  obtain sib' where "cm_on_sibling_message False (tl (frame_message p)) (example_cm 1) = Some (True, sib')"
    "cm_is_blocked_uuid (example_network @ [0]) sib'"
    "suggested_channel sib' = select_formation 7 ! unat (cm_orientation (example_cm 1))"
    by auto
  moreover have "select_formation 7 ! unat (cm_orientation (example_cm 1)) = 11" by code_simp
  ultimately show ?thesis by metis
qed

end
