(* ===== verification/Priority_Manager.thy ===== *)
theory Priority_Manager
  imports Ring_Share
begin

text \<open>
  The priority manager (\<open>integration/priority_manager\<close>): the outer boards of a node tell each other
  the strength of the best network they found, and the one with the strongest starts to connect
  first; \<open>station_start_delay\<close> is the wait of the task in \<open>device.c\<close> that uses the priority.
\<close>

definition PM_MAX_DEVICES :: nat where "PM_MAX_DEVICES = 4"
definition SIZEOF_PM_MESSAGE :: nat where "SIZEOF_PM_MESSAGE = 2"

record priority_manager =
  pm_rs_set :: bool
  pm_orientation :: u8
  devices_rssi :: "i8 list"

definition pm_zero :: priority_manager where
  "pm_zero = \<lparr>pm_rs_set = False, pm_orientation = 0, devices_rssi = replicate PM_MAX_DEVICES (-127)\<rparr>"

definition pm_on_sibling_message :: "byte list \<Rightarrow> priority_manager \<Rightarrow> priority_manager" where
  "pm_on_sibling_message msg pm =
     (if length msg \<noteq> SIZEOF_PM_MESSAGE then pm
      else
        let ori = (if unat (msg ! 0) \<ge> PM_MAX_DEVICES then PM_MAX_DEVICES - 1 else unat (msg ! 0))
        in pm\<lparr>devices_rssi := (devices_rssi pm)[ori := msg ! 1]\<rparr>)"

definition pm_init :: "u8 \<Rightarrow> priority_manager \<Rightarrow> ring_share \<Rightarrow> priority_manager \<times> ring_share" where
  "pm_init ori pm rs = (pm\<lparr>pm_rs_set := True, pm_orientation := ori\<rparr>,
     rs_register_component RS_PRIORITY_MANAGER (Some PriorityManagerOnSibling) rs)"

text \<open>The center board writes past the array, and never calls this.\<close>

definition pm_provide_to_siblings ::
  "i8 \<Rightarrow> priority_manager \<Rightarrow> link \<Rightarrow> (bool \<times> priority_manager \<times> link) option" where
  "pm_provide_to_siblings rssi pm l =
     (if \<not> pm_rs_set pm then Some (False, pm, l)
      else do { ds \<leftarrow> aset (devices_rssi pm) (unat (pm_orientation pm)) rssi;
                let pm1 = pm\<lparr>devices_rssi := ds\<rparr>;
                let (ok, l1) = rs_broadcast RS_PRIORITY_MANAGER [pm_orientation pm1, rssi] l;
                Some (ok, pm1, l1) })"

text \<open>The loop of \<open>pm_get_suggested_priority\<close> over the indices \<open>is\<close>.\<close>

fun suggest_loop :: "i8 list \<Rightarrow> nat list \<Rightarrow> nat \<Rightarrow> nat" where
  "suggest_loop rs [] suggested = suggested"
| "suggest_loop rs (i # is) suggested =
     suggest_loop rs is (if sint (rs ! i) > sint (rs ! suggested) then i else suggested)"

definition pm_get_suggested_priority :: "priority_manager \<Rightarrow> u8" where
  "pm_get_suggested_priority pm = of_nat (suggest_loop (devices_rssi pm) [1, 2, 3] 0)"

definition pm_reset_priority_list :: "priority_manager \<Rightarrow> priority_manager" where
  "pm_reset_priority_list pm = pm\<lparr>devices_rssi := replicate PM_MAX_DEVICES (-127)\<rparr>"

text \<open>
  \<open>device_connect_station_task\<close>: seconds to wait, after the scan, before the first attempt to
  connect. The subtraction is on \<open>int\<close>.
\<close>

definition STA_PRIORITY_WAIT_INTERVAL_SECS :: int where "STA_PRIORITY_WAIT_INTERVAL_SECS = 15"

definition station_start_delay :: "u8 \<Rightarrow> priority_manager \<Rightarrow> int" where
  "station_start_delay ori pm =
     (let shifted = (int (unat ori) - int (unat (pm_get_suggested_priority pm)) + 4) mod 4
      in shifted * STA_PRIORITY_WAIT_INTERVAL_SECS)"

section \<open>Lemmas\<close>

lemma suggest_loop_best:
  "let b = suggest_loop rs is s in
     (b = s \<or> b \<in> set is) \<and> sint (rs ! s) \<le> sint (rs ! b) \<and> (\<forall>i \<in> set is. sint (rs ! i) \<le> sint (rs ! b))"
proof (induction "is" arbitrary: s)
  case (Cons i "is")
  then show ?case
    using Cons.IH [of "if sint (rs ! i) > sint (rs ! s) then i else s"]
    by (auto simp: Let_def intro: order_trans [OF less_imp_le] order_trans [OF leI] split: if_splits)
qed simp

lemma suggested_priority:
  "unat (pm_get_suggested_priority pm) < 4 \<and>
   (\<forall>i < 4. sint (devices_rssi pm ! i) \<le> sint (devices_rssi pm ! unat (pm_get_suggested_priority pm)))"
proof -
  define b where "b = suggest_loop (devices_rssi pm) [1, 2, 3] 0"
  have b: "b = 0 \<or> b \<in> {1, 2, 3}"
    "sint (devices_rssi pm ! 0) \<le> sint (devices_rssi pm ! b)"
    "\<forall>i \<in> {1, 2, 3}. sint (devices_rssi pm ! i) \<le> sint (devices_rssi pm ! b)"
    using suggest_loop_best [of "devices_rssi pm" "[1, 2, 3]" 0]
    unfolding b_def by (simp_all add: Let_def del: suggest_loop.simps)
  have "sint (devices_rssi pm ! i) \<le> sint (devices_rssi pm ! b)" if "i < 4" for i
  proof -
    have "i = 0 \<or> i \<in> {1, 2, 3}" using that by auto
    then show ?thesis using b(2,3) by blast
  qed
  moreover have "unat (of_nat b :: u8) = b" and "b < 4" using b(1) by auto
  ultimately show ?thesis
    unfolding pm_get_suggested_priority_def b_def [symmetric] by simp
qed

section \<open>Properties\<close>

text \<open>
  Boards that hold the same list of signal strengths start
  to connect one after the other, 15 seconds apart: their delays are different, below a minute,
  and the board without delay is one of those that see the strongest signal.
\<close>

lemma pm_boards_start_in_turn:
  assumes "ori < 4" "ori' < 4"
  shows "(station_start_delay ori pm = station_start_delay ori' pm \<longleftrightarrow> ori = ori') \<and>
    station_start_delay ori pm \<in> {0, 15, 30, 45} \<and>
    (station_start_delay ori pm = 0 \<longrightarrow>
       (\<forall>i < 4. sint (devices_rssi pm ! i) \<le> sint (devices_rssi pm ! unat ori)))"
proof -
  let ?p = "pm_get_suggested_priority pm"
  have p: "?p < 4" using suggested_priority [of pm] by (simp add: word_less_nat_alt)
  have same: "ori = ori' \<longleftrightarrow> uint ori = uint ori'" "unat ori = unat ?p \<longleftrightarrow> uint ori = uint ?p"
    unfolding word_uint_eq_iff [symmetric] word_unat_eq_iff [symmetric] by (rule refl)+
  have cases4: "uint w = 0 \<or> uint w = 1 \<or> uint w = 2 \<or> uint w = 3" if "w < 4" for w :: u8
  proof -
    have "0 \<le> uint w" "uint w < 4" using that by (simp_all add: word_less_def)
    then show ?thesis by arith
  qed
  note c = cases4 [OF assms(1)] cases4 [OF assms(2)] cases4 [OF p]
  have zero: "unat ori = unat ?p" if "station_start_delay ori pm = 0"
    using c(1,3) that unfolding same(2)
    by (elim disjE) (simp_all add: station_start_delay_def STA_PRIORITY_WAIT_INTERVAL_SECS_def)
  have "station_start_delay ori pm = station_start_delay ori' pm \<longleftrightarrow> ori = ori'"
    unfolding same using c
    by (elim disjE) (simp_all add: station_start_delay_def STA_PRIORITY_WAIT_INTERVAL_SECS_def)
  moreover have "station_start_delay ori pm \<in> {0, 15, 30, 45}"
    using c(1,3)
    by (elim disjE) (simp_all add: station_start_delay_def STA_PRIORITY_WAIT_INTERVAL_SECS_def)
  moreover have "\<forall>i < 4. sint (devices_rssi pm ! i) \<le> sint (devices_rssi pm ! unat ori)"
    if "station_start_delay ori pm = 0"
    using zero [OF that] suggested_priority [of pm] by simp
  ultimately show ?thesis by blast
qed

end
