(* ===== verification/Wifi.thy ===== *)
theory Wifi
  imports Sync Channel_Manager Priority_Manager
begin

text \<open>
  The wifi side of a board (\<open>components/wireless\<close>): access point, station, the TCP sockets of the
  peer link, and the device that is one or the other. The board record of \<open>Sync\<close> grows by their
  state and that of the channel and priority managers, which the station uses.

  A call of the wifi, network or socket library is an effect \<open>Driver\<close> with its name; those whose
  failure aborts the program (\<open>ESP_ERROR_CHECK\<close>) are taken to succeed. Addresses are given to
  \<open>ap_set_network\<close> as numbers in host order: the code prints them with lwIP and parses the text
  again. What a scan finds is an argument.
\<close>

section \<open>State\<close>

record wifi_ap_record =
  rec_ssid :: "byte list"
  rec_bssid :: "byte list"
  rec_rssi :: i8
  rec_primary :: u8

record access_point =
  ap_ssid :: "byte list"
  ap_password :: "byte list"
  ap_channel :: u8
  ap_initialized :: bool
  ap_is_center :: bool
  ap_server_is_up :: bool
  ap_is_apsta :: bool
  ap_active :: bool
  ap_cfg_ssid :: "byte list"
  ap_cfg_password :: "byte list"
  ap_cfg_channel :: u8
  ap_cfg_max_connection :: u8
  ap_cfg_open :: bool
  ap_netif :: bool
  ap_subnet :: u32
  ap_mask :: u32

record station =
  st_device_uuid :: "byte list"
  st_device_orientation :: u8
  st_ssid_like :: "byte list"
  st_password :: "byte list"
  st_initialized :: bool
  st_ap_found :: bool
  st_is_fully_connected :: bool
  st_is_apsta :: bool
  st_active :: bool
  st_wifi_ap_found :: wifi_ap_record
  st_cfg_ssid :: "byte list"
  st_cfg_bssid :: "byte list"
  st_cfg_password :: "byte list"
  st_netif :: bool
  sta_subnet :: u32
  sta_mask :: u32

datatype device_mode = AP | STATION | NAN

record device =
  dev_orientation :: u8
  dev_is_root :: u8
  dev_is_apsta :: u8
  dev_mode :: device_mode
  dev_active :: bool
  dev_ap :: access_point
  dev_st :: station
  sta_lock :: bool
  ap_lock :: bool

text \<open>The static variables of \<open>station.c\<close>, \<open>device.c\<close>, \<open>client.c\<close> and \<open>server.c\<close>.\<close>

record wifi_statics =
  s_retry_num :: int
  station_task :: bool
  cl_server_sock :: int
  cl_sta_is_up :: bool
  sv_client_sock :: int
  sv_listen_sock :: int
  sv_server_is_up :: bool
  im_client_task :: bool  \<comment> \<open>\<open>im_client_task_handle\<close> of the info manager\<close>

record wifi_sys = sys +
  cmgr :: channel_manager
  pmgr :: priority_manager
  dev :: device
  wst :: wifi_statics

definition no_record :: wifi_ap_record where
  "no_record = \<lparr>rec_ssid = [], rec_bssid = [], rec_rssi = 0, rec_primary = 0\<rparr>"

definition ap_zero :: access_point where
  "ap_zero = \<lparr>ap_ssid = [], ap_password = [], ap_channel = 0, ap_initialized = False,
     ap_is_center = False, ap_server_is_up = False, ap_is_apsta = False, ap_active = False,
     ap_cfg_ssid = [], ap_cfg_password = [], ap_cfg_channel = 0, ap_cfg_max_connection = 0,
     ap_cfg_open = False, ap_netif = False, ap_subnet = 0, ap_mask = 0\<rparr>"

text \<open>The zero value of the station's state is \<open>s_active\<close>.\<close>

definition station_zero :: station where
  "station_zero = \<lparr>st_device_uuid = [], st_device_orientation = 0, st_ssid_like = [],
     st_password = [], st_initialized = False, st_ap_found = False,
     st_is_fully_connected = False, st_is_apsta = False, st_active = True,
     st_wifi_ap_found = no_record, st_cfg_ssid = [], st_cfg_bssid = [], st_cfg_password = [],
     st_netif = False, sta_subnet = 0, sta_mask = 0\<rparr>"

definition device_start :: device where
  "device_start = \<lparr>dev_orientation = 0, dev_is_root = 0, dev_is_apsta = 0, dev_mode = NAN,
     dev_active = True, dev_ap = ap_zero, dev_st = station_zero, sta_lock = False, ap_lock = False\<rparr>"

definition statics_start :: wifi_statics where
  "statics_start = \<lparr>s_retry_num = 0, station_task = False, cl_server_sock = -1,
     cl_sta_is_up = False, sv_client_sock = -1, sv_listen_sock = -1, sv_server_is_up = False,
     im_client_task = False\<rparr>"

section \<open>Updating a board\<close>

definition driver :: "string \<Rightarrow> u32 list \<Rightarrow> 'a wifi_sys_scheme \<Rightarrow> 'a wifi_sys_scheme" where
  "driver name xs d = d\<lparr>lk := emit (Driver name xs) (lk d)\<rparr>"

definition delay_ms :: "u32 \<Rightarrow> 'a wifi_sys_scheme \<Rightarrow> 'a wifi_sys_scheme" where
  "delay_ms ms d = d\<lparr>lk := vTaskDelay_ms ms (lk d)\<rparr>"

definition upd_dev :: "(device \<Rightarrow> device) \<Rightarrow> 'a wifi_sys_scheme \<Rightarrow> 'a wifi_sys_scheme" where
  "upd_dev f d = d\<lparr>dev := f (dev d)\<rparr>"

definition upd_ap :: "(access_point \<Rightarrow> access_point) \<Rightarrow> 'a wifi_sys_scheme \<Rightarrow> 'a wifi_sys_scheme" where
  "upd_ap f = upd_dev (\<lambda>v. v\<lparr>dev_ap := f (dev_ap v)\<rparr>)"

definition upd_st :: "(station \<Rightarrow> station) \<Rightarrow> 'a wifi_sys_scheme \<Rightarrow> 'a wifi_sys_scheme" where
  "upd_st f = upd_dev (\<lambda>v. v\<lparr>dev_st := f (dev_st v)\<rparr>)"

definition upd_wst :: "(wifi_statics \<Rightarrow> wifi_statics) \<Rightarrow> 'a wifi_sys_scheme \<Rightarrow> 'a wifi_sys_scheme" where
  "upd_wst f d = d\<lparr>wst := f (wst d)\<rparr>"

abbreviation the_ap :: "'a wifi_sys_scheme \<Rightarrow> access_point" where "the_ap d \<equiv> dev_ap (dev d)"
abbreviation the_st :: "'a wifi_sys_scheme \<Rightarrow> station" where "the_st d \<equiv> dev_st (dev d)"

lemmas board_updates = driver_def delay_ms_def upd_dev_def upd_ap_def upd_st_def upd_wst_def

section \<open>Sockets of the peer link\<close>

definition client_open :: "'a wifi_sys_scheme \<Rightarrow> 'a wifi_sys_scheme" where
  "client_open d =
     (if \<not> cl_sta_is_up (wst d)
      then driver ''create_task_tcp_client'' [] (upd_wst (\<lambda>w. w\<lparr>cl_sta_is_up := True\<rparr>) d)
      else d)"

definition client_close :: "'a wifi_sys_scheme \<Rightarrow> 'a wifi_sys_scheme" where
  "client_close d =
     (if cl_sta_is_up (wst d) then upd_wst (\<lambda>w. w\<lparr>cl_sta_is_up := False\<rparr>) d else d)"

definition socket_send :: "byte list \<Rightarrow> 'a wifi_sys_scheme \<Rightarrow> bool \<times> 'a wifi_sys_scheme" where
  "socket_send msg d =
     (let sent = env_sock_send (env (lk d)) (now (lk d))
      in (sent = int (length msg), d\<lparr>lk := emit (SockSend msg sent) (tick (lk d))\<rparr>))"

definition client_send_message :: "byte list \<Rightarrow> 'a wifi_sys_scheme \<Rightarrow> bool \<times> 'a wifi_sys_scheme" where
  "client_send_message msg d =
     (if cl_server_sock (wst d) < 0 \<or> msg = [] then (False, d) else socket_send msg d)"

definition server_create :: "'a wifi_sys_scheme \<Rightarrow> 'a wifi_sys_scheme" where
  "server_create d =
     (if \<not> sv_server_is_up (wst d)
      then driver ''create_task_tcp_server'' [] (upd_wst (\<lambda>w. w\<lparr>sv_server_is_up := True\<rparr>) d)
      else d)"

definition server_close :: "'a wifi_sys_scheme \<Rightarrow> 'a wifi_sys_scheme" where
  "server_close d =
     (if sv_server_is_up (wst d)
      then let d1 = upd_wst (\<lambda>w. w\<lparr>sv_server_is_up := False\<rparr>) d
           in if sv_listen_sock (wst d1) \<ge> 0 then driver ''close_listen_socket'' [] d1 else d1
      else d)"

definition server_send_message :: "byte list \<Rightarrow> 'a wifi_sys_scheme \<Rightarrow> bool \<times> 'a wifi_sys_scheme" where
  "server_send_message msg d =
     (if sv_client_sock (wst d) < 0 \<or> msg = [] then (False, d) else socket_send msg d)"

section \<open>Access point\<close>

definition ap_init ::
  "u8 \<Rightarrow> byte list \<Rightarrow> byte list \<Rightarrow> u8 \<Rightarrow> bool \<Rightarrow> bool \<Rightarrow> 'a wifi_sys_scheme \<Rightarrow> 'a wifi_sys_scheme" where
  "ap_init channel ssid password max_conn is_center is_apsta d =
     (let d1 = upd_ap (\<lambda>a. a\<lparr>ap_cfg_ssid := ssid, ap_cfg_password := password,
                 ap_cfg_channel := channel, ap_cfg_max_connection := max_conn,
                 ap_cfg_open := (password = []), ap_netif := True\<rparr>)
               (driver ''netif_create_wifi_ap'' [] d);
          d2 = driver ''traffic_start'' [] (driver ''register_ap_handler'' []
                 (driver ''wifi_set_config_ap'' [] d1))
      in upd_ap (\<lambda>a. a\<lparr>ap_ssid := ssid, ap_password := password, ap_channel := channel,
           ap_is_center := is_center, ap_server_is_up := False, ap_is_apsta := is_apsta,
           ap_initialized := True\<rparr>) d2)"

definition ap_start :: "'a wifi_sys_scheme \<Rightarrow> 'a wifi_sys_scheme" where
  "ap_start d = driver ''wifi_set_inactive_time'' [30]
     (driver ''wifi_start'' [] (upd_ap (\<lambda>a. a\<lparr>ap_active := True\<rparr>) d))"

definition ap_stop :: "'a wifi_sys_scheme \<Rightarrow> 'a wifi_sys_scheme" where
  "ap_stop d = driver ''wifi_stop'' [] (upd_ap (\<lambda>a. a\<lparr>ap_active := False\<rparr>) d)"

definition ap_restart :: "'a wifi_sys_scheme \<Rightarrow> 'a wifi_sys_scheme" where
  "ap_restart d = ap_start (ap_stop d)"

definition ap_set_channel :: "u8 \<Rightarrow> 'a wifi_sys_scheme \<Rightarrow> 'a wifi_sys_scheme" where
  "ap_set_channel channel = upd_ap (\<lambda>a. a\<lparr>ap_channel := channel, ap_cfg_channel := channel\<rparr>)"

text \<open>Name and password are copied into arrays of 32 and 64 bytes.\<close>

definition ap_set_ssid :: "byte list \<Rightarrow> 'a wifi_sys_scheme \<Rightarrow> 'a wifi_sys_scheme option" where
  "ap_set_ssid ssid d = (if length ssid < 32 then Some (upd_ap (\<lambda>a. a\<lparr>ap_cfg_ssid := ssid\<rparr>) d) else None)"

definition ap_set_password :: "byte list \<Rightarrow> 'a wifi_sys_scheme \<Rightarrow> 'a wifi_sys_scheme option" where
  "ap_set_password password d =
     (if length password < 64 then Some (upd_ap (\<lambda>a. a\<lparr>ap_cfg_password := password\<rparr>) d) else None)"

definition ap_is_initialized :: "access_point \<Rightarrow> bool" where "ap_is_initialized a = ap_initialized a"
definition ap_is_active :: "access_point \<Rightarrow> bool" where "ap_is_active a = ap_active a"

definition ap_update :: "'a wifi_sys_scheme \<Rightarrow> 'a wifi_sys_scheme" where
  "ap_update d = ap_start (driver ''wifi_set_config_ap'' [] (if ap_active (the_ap d) then ap_stop d else d))"

definition ap_set_network :: "u32 \<Rightarrow> u32 \<Rightarrow> u32 \<Rightarrow> 'a wifi_sys_scheme \<Rightarrow> 'a wifi_sys_scheme" where
  "ap_set_network ip gateway msk d =
     (let d1 = driver ''netif_set_ip_info'' [ip, gateway, msk] (driver ''dhcps_stop'' [] d);
          d2 = upd_ap (\<lambda>a. a\<lparr>ap_mask := msk, ap_subnet := ip AND msk\<rparr>) d1
      in driver ''dhcps_start'' [] (driver ''dhcps_dns'' [0x08080808] d2))"

definition ap_disconnect_all_stations :: "'a wifi_sys_scheme \<Rightarrow> 'a wifi_sys_scheme" where
  "ap_disconnect_all_stations d = (if ap_active (the_ap d) then driver ''wifi_deauth_sta'' [0] d else d)"

definition ap_destroy_netif :: "'a wifi_sys_scheme \<Rightarrow> 'a wifi_sys_scheme" where
  "ap_destroy_netif d =
     (if ap_netif (the_ap d)
      then upd_ap (\<lambda>a. a\<lparr>ap_netif := False\<rparr>) (driver ''netif_destroy_wifi'' []
             (driver ''unregister_ap_handler'' [] (driver ''traffic_stop'' [] d)))
      else d)"

datatype ap_event = StaConnected | StaDisconnected | OtherApEvent

definition ap_event_handler :: "ap_event \<Rightarrow> 'a wifi_sys_scheme \<Rightarrow> 'a wifi_sys_scheme" where
  "ap_event_handler e d =
     (case e of
        StaConnected \<Rightarrow>
          if \<not> ap_lock (dev d)
          then if \<not> ap_is_center (the_ap d) \<and> \<not> ap_server_is_up (the_ap d)
               then upd_ap (\<lambda>a. a\<lparr>ap_server_is_up := True\<rparr>) (server_create d) else d
          else ap_disconnect_all_stations d
      | StaDisconnected \<Rightarrow>
          if ap_server_is_up (the_ap d)
          then upd_ap (\<lambda>a. a\<lparr>ap_server_is_up := False\<rparr>) (server_close d) else d
      | OtherApEvent \<Rightarrow> d)"

section \<open>Station\<close>

definition STA_MAX_RETRIES :: int where "STA_MAX_RETRIES = 10"
definition RSSI_THRESHOLD :: int where "RSSI_THRESHOLD = -128"
definition SSID_ORIENTATION_OFFSET :: nat where "SSID_ORIENTATION_OFFSET = 4"

definition is_network_allowed :: "byte list \<Rightarrow> byte list \<Rightarrow> byte list \<Rightarrow> u8 \<Rightarrow> channel_manager \<Rightarrow> bool" where
  "is_network_allowed device_uuid network_prefix network_name ori cm \<longleftrightarrow>
     has_substring (c_str network_prefix) (c_str network_name) \<and>
     \<not> has_substring (c_str device_uuid) (c_str network_name) \<and>
     \<not> cm_is_blocked_uuid network_name cm \<and>
     (network_name ! SSID_ORIENTATION_OFFSET \<in> {of_char CHR ''N'', of_char CHR ''S''}) =
       (ori \<in> {CONFIG_ORIENTATION_NORTH, CONFIG_ORIENTATION_SOUTH})"

definition station_allows :: "'a wifi_sys_scheme \<Rightarrow> wifi_ap_record \<Rightarrow> bool" where
  "station_allows d r \<longleftrightarrow> \<not> sint (rec_rssi r) < RSSI_THRESHOLD \<and>
     is_network_allowed (st_device_uuid (the_st d)) (st_ssid_like (the_st d)) (rec_ssid r)
       (st_device_orientation (the_st d)) (cmgr d)"

definition station_init ::
  "byte list \<Rightarrow> u8 \<Rightarrow> byte list \<Rightarrow> byte list \<Rightarrow> bool \<Rightarrow> 'a wifi_sys_scheme \<Rightarrow> 'a wifi_sys_scheme" where
  "station_init ssid_like ori uuid password is_apsta d =
     upd_st (\<lambda>s. s\<lparr>st_ssid_like := ssid_like, st_device_uuid := uuid, st_password := password,
       st_device_orientation := ori, st_active := False, st_ap_found := False,
       st_is_fully_connected := False, st_is_apsta := is_apsta, st_initialized := True,
       st_netif := True\<rparr>) (driver ''netif_create_wifi_sta'' [] d)"

text \<open>The loop over the scan results, with the best access point so far.\<close>

fun find_loop :: "(wifi_ap_record \<Rightarrow> bool) \<Rightarrow> wifi_ap_record list \<Rightarrow> wifi_ap_record option \<Rightarrow> wifi_ap_record option" where
  "find_loop allowed [] best = best"
| "find_loop allowed (r # rs) best =
     find_loop allowed rs
       (if allowed r then case best of None \<Rightarrow> Some r
                          | Some b \<Rightarrow> if sint (rec_rssi r) > sint (rec_rssi b) then Some r else Some b
        else best)"

definition transform_wifi_ap_record_to_config :: "'a wifi_sys_scheme \<Rightarrow> 'a wifi_sys_scheme" where
  "transform_wifi_ap_record_to_config =
     upd_st (\<lambda>s. s\<lparr>st_cfg_ssid := rec_ssid (st_wifi_ap_found s),
       st_cfg_bssid := rec_bssid (st_wifi_ap_found s), st_cfg_password := st_password s\<rparr>)"

definition station_find_ap :: "wifi_ap_record list \<Rightarrow> 'a wifi_sys_scheme \<Rightarrow> 'a wifi_sys_scheme" where
  "station_find_ap scan d =
     (let d1 = driver ''wifi_scan'' [] d
      in case find_loop (station_allows d1) scan None of
           Some best \<Rightarrow> transform_wifi_ap_record_to_config
             (upd_st (\<lambda>s. s\<lparr>st_wifi_ap_found := best, st_ap_found := True\<rparr>) d1)
         | None \<Rightarrow> upd_st (\<lambda>s. s\<lparr>st_ap_found := False\<rparr>) d1)"

fun rssi_loop :: "(wifi_ap_record \<Rightarrow> bool) \<Rightarrow> wifi_ap_record list \<Rightarrow> i8 \<Rightarrow> i8" where
  "rssi_loop allowed [] best = best"
| "rssi_loop allowed (r # rs) best =
     rssi_loop allowed rs (if allowed r \<and> sint (rec_rssi r) > sint best then rec_rssi r else best)"

definition station_scan_best_rssi :: "wifi_ap_record list \<Rightarrow> 'a wifi_sys_scheme \<Rightarrow> i8 \<times> 'a wifi_sys_scheme" where
  "station_scan_best_rssi scan d =
     (let d1 = driver ''wifi_scan'' [] d in (rssi_loop (station_allows d1) scan (-128), d1))"

definition im_http_client_start :: "'a wifi_sys_scheme \<Rightarrow> 'a wifi_sys_scheme" where
  "im_http_client_start d =
     (if im_client_task (wst d) then d
      else upd_wst (\<lambda>w. w\<lparr>im_client_task := True\<rparr>) (driver ''create_task_im_client'' [] d))"

datatype station_event =
    WifiDisconnected bool  \<comment> \<open>whether the reason is \<open>WIFI_REASON_ASSOC_TOOMANY\<close>\<close>
  | GotIp u32 u32  \<comment> \<open>address and mask, in host order\<close>
  | OtherStationEvent

definition station_provide_channel :: "'a wifi_sys_scheme \<Rightarrow> 'a wifi_sys_scheme option" where
  "station_provide_channel d =
     do { (ok, cm, l) \<leftarrow> cm_provide_to_siblings (rec_primary (st_wifi_ap_found (the_st d)))
            (rec_ssid (st_wifi_ap_found (the_st d))) (cmgr d) (lk d);
          Some (d\<lparr>cmgr := cm, lk := l\<rparr>) }"

definition station_event_handler :: "station_event \<Rightarrow> 'a wifi_sys_scheme \<Rightarrow> 'a wifi_sys_scheme option" where
  "station_event_handler e d =
     (case e of
        WifiDisconnected too_many \<Rightarrow>
          let d1 = (if too_many
                    then upd_wst (\<lambda>w. w\<lparr>s_retry_num := STA_MAX_RETRIES\<rparr>)
                      (d\<lparr>cmgr := cm_block_full_ap (rec_ssid (st_wifi_ap_found (the_st d))) (cmgr d)\<rparr>)
                    else d);
              d2 = (if st_is_fully_connected (the_st d1)
                    then upd_st (\<lambda>s. s\<lparr>st_is_fully_connected := False\<rparr>) (client_close d1) else d1)
          in Some (if s_retry_num (wst d2) < STA_MAX_RETRIES
                   then upd_wst (\<lambda>w. w\<lparr>s_retry_num := s_retry_num w + 1\<rparr>) (driver ''wifi_connect'' [] d2)
                   else upd_st (\<lambda>s. s\<lparr>st_ap_found := False, st_active := False,
                          st_is_fully_connected := False\<rparr>)
                        (upd_wst (\<lambda>w. w\<lparr>s_retry_num := 0\<rparr>) d2))
      | GotIp ip msk \<Rightarrow>
          if st_is_fully_connected (the_st d)
          then do { d1 \<leftarrow> station_provide_channel d;
                    let d2 = (if st_is_apsta (the_st d1) then d1 else im_http_client_start d1);
                    Some (upd_wst (\<lambda>w. w\<lparr>s_retry_num := 0\<rparr>) (client_open d2)) }
          else
            let base = ip AND msk
            in Some (driver ''netif_set_ip_info'' [base + 2, base + 1, msk] (driver ''dhcpc_stop'' []
                 (upd_st (\<lambda>s. s\<lparr>sta_subnet := base, sta_mask := msk, st_is_fully_connected := True\<rparr>) d)))
      | OtherStationEvent \<Rightarrow> Some d)"

definition station_start :: "'a wifi_sys_scheme \<Rightarrow> 'a wifi_sys_scheme" where
  "station_start d = driver ''wifi_start'' [] (driver ''wifi_set_config_sta'' [] d)"

definition station_connect :: "'a wifi_sys_scheme \<Rightarrow> 'a wifi_sys_scheme" where
  "station_connect d =
     (let d1 = driver ''traffic_start'' [] (driver ''register_sta_handlers'' []
                 (driver ''wifi_set_config_sta'' [] (driver ''dhcpc_start'' [] d)))
      in driver ''wifi_connect'' [] (upd_st (\<lambda>s. s\<lparr>st_active := True\<rparr>)
           (upd_wst (\<lambda>w. w\<lparr>s_retry_num := 0\<rparr>) d1)))"

definition station_disconnect :: "'a wifi_sys_scheme \<Rightarrow> 'a wifi_sys_scheme" where
  "station_disconnect d =
     (if st_active (the_st d)
      then driver ''wifi_disconnect'' [] (upd_wst (\<lambda>w. w\<lparr>s_retry_num := STA_MAX_RETRIES\<rparr>) d) else d)"

definition station_stop :: "'a wifi_sys_scheme \<Rightarrow> 'a wifi_sys_scheme" where
  "station_stop d = driver ''wifi_stop'' [] d"

definition station_restart :: "'a wifi_sys_scheme \<Rightarrow> 'a wifi_sys_scheme" where
  "station_restart d = station_start (station_stop (station_disconnect d))"

definition station_destroy_netif :: "'a wifi_sys_scheme \<Rightarrow> 'a wifi_sys_scheme" where
  "station_destroy_netif d =
     (if st_netif (the_st d)
      then upd_st (\<lambda>s. s\<lparr>st_netif := False\<rparr>) (driver ''netif_destroy_wifi'' []
             (driver ''unregister_sta_handlers'' [] (driver ''traffic_stop'' [] d)))
      else d)"

definition station_is_initialized :: "station \<Rightarrow> bool" where "station_is_initialized s = st_initialized s"
definition station_is_active :: "station \<Rightarrow> bool" where "station_is_active s = st_active s"
definition station_found_ap :: "station \<Rightarrow> bool" where "station_found_ap s = st_ap_found s"

section \<open>Device\<close>

definition orientation_tags :: "byte list list" where
  "orientation_tags = map (\<lambda>c. chars [CHR ''_'', c, CHR ''_'']) ''NSEWC''"

text \<open>The network name is built in an array of 32 bytes; a longer one is undefined.\<close>

definition device_init_ap ::
  "u8 \<Rightarrow> byte list \<Rightarrow> byte list \<Rightarrow> byte list \<Rightarrow> u8 \<Rightarrow> u8 \<Rightarrow> 'a wifi_sys_scheme \<Rightarrow>
   'a wifi_sys_scheme option" where
  "device_init_ap channel prefix uuid password max_conn ori d =
     (let is_center = (ori = CONFIG_ID_CENTER)
      in do { ssid \<leftarrow> (if \<not> is_center
                      then do { tag \<leftarrow> aget orientation_tags (unat ori); Some (prefix @ tag @ uuid) }
                      else Some prefix);
              if length ssid < 32
              then Some (ap_init channel ssid password max_conn is_center (dev_is_apsta (dev d) \<noteq> 0) d)
              else None })"

definition device_init_station ::
  "byte list \<Rightarrow> u8 \<Rightarrow> byte list \<Rightarrow> byte list \<Rightarrow> 'a wifi_sys_scheme \<Rightarrow> 'a wifi_sys_scheme" where
  "device_init_station ssid_like ori uuid password d =
     station_init ssid_like ori uuid password (dev_is_apsta (dev d) \<noteq> 0) d"

definition device_init ::
  "byte list \<Rightarrow> u8 \<Rightarrow> byte list \<Rightarrow> byte list \<Rightarrow> u8 \<Rightarrow> u8 \<Rightarrow> u8 \<Rightarrow> u8 \<Rightarrow> device_mode \<Rightarrow>
   'a wifi_sys_scheme \<Rightarrow> 'a wifi_sys_scheme option" where
  "device_init uuid ori prefix password channel max_conn is_root is_apsta mode d =
     (let d1 = upd_dev (\<lambda>v. v\<lparr>dev_mode := mode, dev_active := False, dev_is_root := is_root,
                 dev_is_apsta := is_apsta, dev_orientation := ori, dev_ap := ap_zero,
                 dev_st := station_zero\<rparr>) d
      in case mode of
           AP \<Rightarrow> device_init_ap channel prefix uuid password max_conn ori (driver ''wifi_set_mode_ap'' [] d1)
         | STATION \<Rightarrow> Some (device_init_station prefix ori uuid password (driver ''wifi_set_mode_sta'' [] d1))
         | NAN \<Rightarrow> Some d1)"

definition device_set_network_ap :: "u32 \<Rightarrow> u32 \<Rightarrow> u32 \<Rightarrow> 'a wifi_sys_scheme \<Rightarrow> 'a wifi_sys_scheme" where
  "device_set_network_ap = ap_set_network"

definition device_start_ap :: "'a wifi_sys_scheme \<Rightarrow> 'a wifi_sys_scheme" where
  "device_start_ap d =
     (if ap_initialized (the_ap d) then upd_dev (\<lambda>v. v\<lparr>dev_active := True\<rparr>) (ap_start d) else d)"

definition device_stop_ap :: "'a wifi_sys_scheme \<Rightarrow> 'a wifi_sys_scheme" where "device_stop_ap d = ap_stop d"
definition device_restart_ap :: "'a wifi_sys_scheme \<Rightarrow> 'a wifi_sys_scheme" where "device_restart_ap d = ap_restart d"

definition device_start_station :: "'a wifi_sys_scheme \<Rightarrow> 'a wifi_sys_scheme" where
  "device_start_station d =
     (if st_initialized (the_st d) then upd_dev (\<lambda>v. v\<lparr>dev_active := True\<rparr>) (station_start d) else d)"

definition device_stop_station_task :: "'a wifi_sys_scheme \<Rightarrow> 'a wifi_sys_scheme" where
  "device_stop_station_task d =
     (if station_task (wst d)
      then upd_wst (\<lambda>w. w\<lparr>station_task := False\<rparr>) (driver ''delete_task_station'' [] d) else d)"

definition device_connect_station :: "'a wifi_sys_scheme \<Rightarrow> 'a wifi_sys_scheme" where
  "device_connect_station d =
     upd_wst (\<lambda>w. w\<lparr>station_task := True\<rparr>)
       (driver ''create_task_station'' [] (device_stop_station_task d))"

definition device_disconnect_station :: "'a wifi_sys_scheme \<Rightarrow> 'a wifi_sys_scheme" where
  "device_disconnect_station d = station_disconnect (device_stop_station_task d)"

definition device_restart_station :: "'a wifi_sys_scheme \<Rightarrow> 'a wifi_sys_scheme" where
  "device_restart_station d = station_restart d"

definition device_stop_station :: "'a wifi_sys_scheme \<Rightarrow> 'a wifi_sys_scheme" where
  "device_stop_station d = station_stop d"

definition device_destroy_netif :: "'a wifi_sys_scheme \<Rightarrow> 'a wifi_sys_scheme" where
  "device_destroy_netif d =
     (case dev_mode (dev d) of AP \<Rightarrow> ap_destroy_netif d | STATION \<Rightarrow> station_destroy_netif d | NAN \<Rightarrow> d)"

definition device_reset :: "'a wifi_sys_scheme \<Rightarrow> 'a wifi_sys_scheme" where
  "device_reset d =
     (let d1 = (if dev_active (dev d)
                then upd_dev (\<lambda>v. v\<lparr>dev_active := False\<rparr>)
                  (case dev_mode (dev d) of
                     AP \<Rightarrow> ap_stop d
                   | STATION \<Rightarrow> station_stop (device_disconnect_station d)
                   | NAN \<Rightarrow> d)
                else d)
      in upd_dev (\<lambda>v. v\<lparr>sta_lock := False, ap_lock := False, dev_mode := NAN\<rparr>)
           (device_destroy_netif d1))"

text \<open>The first part of the station task: priority, scan and wait. The rest is \<open>station_attempt\<close>.\<close>

definition station_task_start :: "wifi_ap_record list \<Rightarrow> 'a wifi_sys_scheme \<Rightarrow> 'a wifi_sys_scheme option" where
  "station_task_start scan d =
     (let d1 = d\<lparr>pmgr := pm_reset_priority_list (pmgr d)\<rparr>;
          (scan_rssi, d2) = station_scan_best_rssi scan d1
      in do { (ok, pm, l) \<leftarrow> pm_provide_to_siblings scan_rssi (pmgr d2) (lk d2);
              let d3 = delay_ms 10000 (d2\<lparr>pmgr := pm, lk := l\<rparr>);
              Some (delay_ms (of_int (1000 * station_start_delay (dev_orientation (dev d3)) (pmgr d3))) d3) })"

definition station_attempt :: "wifi_ap_record list \<Rightarrow> 'a wifi_sys_scheme \<Rightarrow> 'a wifi_sys_scheme" where
  "station_attempt scan d =
     (if sta_lock (dev d) then delay_ms 60000 d
      else if \<not> st_active (the_st d)
      then let d1 = station_find_ap scan d
           in if st_ap_found (the_st d1) then station_connect d1 else delay_ms 10000 d1
      else delay_ms 10000 d)"

definition device_send_wireless_message :: "byte list \<Rightarrow> 'a wifi_sys_scheme \<Rightarrow> bool \<times> 'a wifi_sys_scheme" where
  "device_send_wireless_message msg d =
     (case dev_mode (dev d) of
        AP \<Rightarrow> server_send_message msg d
      | STATION \<Rightarrow> client_send_message msg d
      | NAN \<Rightarrow> (False, d))"

definition device_is_point_to_point_message :: "device \<Rightarrow> u32 \<Rightarrow> bool" where
  "device_is_point_to_point_message v dst \<longleftrightarrow>
     (case dev_mode v of
        AP \<Rightarrow> dst AND ap_mask (dev_ap v) = ap_subnet (dev_ap v)
      | STATION \<Rightarrow> dst AND sta_mask (dev_st v) = sta_subnet (dev_st v)
      | NAN \<Rightarrow> False)"

definition device_get_link_name :: "device \<Rightarrow> byte list" where
  "device_get_link_name v =
     (if dev_mode v = STATION \<and> st_is_fully_connected (dev_st v)
      then rec_ssid (st_wifi_ap_found (dev_st v))
      else if dev_mode v = AP \<and> ap_initialized (dev_ap v) then ap_ssid (dev_ap v)
      else chars ''N/A'')"

definition device_get_channel :: "device \<Rightarrow> u8" where
  "device_get_channel v =
     (if dev_mode v = STATION \<and> st_is_fully_connected (dev_st v)
      then rec_primary (st_wifi_ap_found (dev_st v))
      else if dev_mode v = AP \<and> ap_initialized (dev_ap v) then ap_channel (dev_ap v)
      else 0)"

definition device_set_max_tx_power :: "int \<Rightarrow> 'a wifi_sys_scheme \<Rightarrow> 'a wifi_sys_scheme" where
  "device_set_max_tx_power pw d =
     (if dev_mode (dev d) = NAN then d
      else let p = (if pw < 8 then 8 else pw); q = (if p > 84 then 84 else p)
           in driver ''wifi_set_max_tx_power'' [of_int q] d)"

definition device_disable_station :: "'a wifi_sys_scheme \<Rightarrow> 'a wifi_sys_scheme" where
  "device_disable_station d =
     (let d1 = upd_dev (\<lambda>v. v\<lparr>sta_lock := True\<rparr>) d
      in if dev_mode (dev d1) = STATION then station_disconnect d1 else d1)"

definition device_enable_station :: "'a wifi_sys_scheme \<Rightarrow> 'a wifi_sys_scheme" where
  "device_enable_station = upd_dev (\<lambda>v. v\<lparr>sta_lock := False\<rparr>)"

definition device_disable_ap :: "'a wifi_sys_scheme \<Rightarrow> 'a wifi_sys_scheme" where
  "device_disable_ap d =
     (let d1 = upd_dev (\<lambda>v. v\<lparr>ap_lock := True\<rparr>) d
      in if dev_mode (dev d1) = AP then ap_disconnect_all_stations d1 else d1)"

definition device_enable_ap :: "'a wifi_sys_scheme \<Rightarrow> 'a wifi_sys_scheme" where
  "device_enable_ap = upd_dev (\<lambda>v. v\<lparr>ap_lock := False\<rparr>)"

section \<open>The best access point\<close>

lemma find_loop_result:
  "find_loop allowed rs best = r \<Longrightarrow>
   (case r of
      None \<Rightarrow> best = None \<and> (\<forall>x \<in> set rs. \<not> allowed x)
    | Some b \<Rightarrow> (b \<in> set rs \<and> allowed b \<or> best = Some b) \<and>
        (\<forall>x \<in> set rs. allowed x \<longrightarrow> sint (rec_rssi x) \<le> sint (rec_rssi b)) \<and>
        (\<forall>b'. best = Some b' \<longrightarrow> sint (rec_rssi b') \<le> sint (rec_rssi b)))"
proof (induction rs arbitrary: best)
  case Nil
  then show ?case by (auto split: option.splits)
next
  case (Cons x rs)
  show ?case
  proof (cases "allowed x")
    case True
    with Cons.IH [OF Cons.prems [unfolded find_loop.simps]] show ?thesis
      by (cases r; cases best) (auto split: if_splits)
  next
    case False
    with Cons.IH [OF Cons.prems [unfolded find_loop.simps]] show ?thesis
      by (cases r) auto
  qed
qed

lemma rssi_loop_result:
  "sint b \<le> sint (rssi_loop allowed rs b) \<and>
   (\<forall>x \<in> set rs. allowed x \<longrightarrow> sint (rec_rssi x) \<le> sint (rssi_loop allowed rs b))"
proof (induction rs arbitrary: b)
  case (Cons x rs)
  then show ?case
    using Cons.IH [of "if allowed x \<and> sint (rec_rssi x) > sint b then rec_rssi x else b"]
    by (auto intro: order_trans [OF less_imp_le] order_trans [OF leI] split: if_splits)
qed simp

lemma driver_simps [simp]:
  "dev (driver s xs d) = dev d" "cmgr (driver s xs d) = cmgr d" "wst (driver s xs d) = wst d"
  "sy (driver s xs d) = sy d" "pmgr (driver s xs d) = pmgr d"
  by (simp_all add: driver_def)

lemma upd_simps [simp]:
  "dev (upd_dev f d) = f (dev d)" "dev (upd_st g d) = (dev d)\<lparr>dev_st := g (dev_st (dev d))\<rparr>"
  "dev (upd_ap h d) = (dev d)\<lparr>dev_ap := h (dev_ap (dev d))\<rparr>" "dev (upd_wst k d) = dev d"
  "cmgr (upd_dev f d) = cmgr d" "cmgr (upd_st g d) = cmgr d" "cmgr (upd_ap h d) = cmgr d"
  "wst (upd_dev f d) = wst d" "wst (upd_st g d) = wst d" "wst (upd_ap h d) = wst d"
  "wst (upd_wst k d) = k (wst d)" "lk (upd_dev f d) = lk d" "lk (upd_st g d) = lk d"
  "lk (upd_ap h d) = lk d" "lk (upd_wst k d) = lk d" "cmgr (upd_wst k d) = cmgr d"
  by (simp_all add: board_updates)

section \<open>Properties\<close>

text \<open>
  Property C31 (station): a scan selects an access point exactly when one of those found is
  allowed; the selected one is allowed, none that is allowed has a stronger signal, and its
  name and the link password become the configuration of the station. An allowed network has
  the prefix of the program, is not of this node, and is none that a sibling uses or that
  turned a board away.
\<close>

theorem station_finds_best_ap:
  "(st_ap_found (the_st (station_find_ap scan d)) \<longleftrightarrow> (\<exists>r \<in> set scan. station_allows d r)) \<and>
   (\<forall>b. st_ap_found (the_st (station_find_ap scan d)) \<longrightarrow>
      b = st_wifi_ap_found (the_st (station_find_ap scan d)) \<longrightarrow>
      b \<in> set scan \<and> station_allows d b \<and>
      (\<forall>r \<in> set scan. station_allows d r \<longrightarrow> sint (rec_rssi r) \<le> sint (rec_rssi b)) \<and>
      st_cfg_ssid (the_st (station_find_ap scan d)) = rec_ssid b \<and>
      st_cfg_password (the_st (station_find_ap scan d)) = st_password (the_st d) \<and>
      has_substring (c_str (st_ssid_like (the_st d))) (c_str (rec_ssid b)) \<and>
      \<not> has_substring (c_str (st_device_uuid (the_st d))) (c_str (rec_ssid b)) \<and>
      \<not> cm_is_blocked_uuid (rec_ssid b) (cmgr d))"
proof -
  let ?d = "driver ''wifi_scan'' [] d"
  have same: "station_allows ?d = station_allows d"
    by (simp add: station_allows_def fun_eq_iff)
  show ?thesis
  proof (cases "find_loop (station_allows d) scan None")
    case None
    then show ?thesis
      using find_loop_result [OF None] by (auto simp: station_find_ap_def same)
  next
    case (Some b)
    have ok: "b \<in> set scan" "station_allows d b"
      "\<forall>r \<in> set scan. station_allows d r \<longrightarrow> sint (rec_rssi r) \<le> sint (rec_rssi b)"
      using find_loop_result [OF Some] by auto
    moreover have "has_substring (c_str (st_ssid_like (the_st d))) (c_str (rec_ssid b)) \<and>
      \<not> has_substring (c_str (st_device_uuid (the_st d))) (c_str (rec_ssid b)) \<and>
      \<not> cm_is_blocked_uuid (rec_ssid b) (cmgr d)"
      using ok(2) by (simp add: station_allows_def is_network_allowed_def)
    ultimately show ?thesis
      using Some by (auto simp: station_find_ap_def same transform_wifi_ap_record_to_config_def)
  qed
qed

definition example_wifi :: "u8 \<Rightarrow> wifi_sys" where
  "example_wifi i = \<lparr>lk = quiet_board i, sy = sync_zero, cmgr = example_cm i, pmgr = pm_zero,
     dev = device_start, wst = statics_start\<rparr>"

definition example_scan :: "wifi_ap_record list" where
  "example_scan = [no_record\<lparr>rec_ssid := chars ''I4A_S_0000000000AA'' @ [0], rec_rssi := -70\<rparr>,
     no_record\<lparr>rec_ssid := chars ''I4A_N_0000000000BB'' @ [0], rec_rssi := -60\<rparr>]"

definition example_station :: wifi_sys where
  "example_station = station_init (chars ''I4A'' @ [0]) 0 (chars ''0000000000CC'' @ [0])
     (chars ''zWfAc2wXq5'' @ [0]) False (example_wifi 0)"

theorem station_finds_best_ap_witness:
  "st_wifi_ap_found (the_st (station_find_ap example_scan example_station)) \<in> set example_scan"
proof -
  have "\<exists>r \<in> set example_scan. station_allows example_station r"
    by code_simp
  with station_finds_best_ap [of example_scan example_station] show ?thesis by blast
qed

text \<open>The two loops over a scan keep the same record.\<close>

lemma sint_i8_min: "- 128 \<le> sint (x :: i8)"
  using sint_ge [of x] by simp

lemma rssi_loop_find_loop:
  "rssi_loop allowed rs (case best of None \<Rightarrow> - 128 | Some b \<Rightarrow> rec_rssi b) =
   (case find_loop allowed rs best of None \<Rightarrow> - 128 | Some b \<Rightarrow> rec_rssi b)"
proof (induction rs arbitrary: best)
  case (Cons r rs)
  let ?best = "if allowed r then case best of None \<Rightarrow> Some r
    | Some b \<Rightarrow> if sint (rec_rssi r) > sint (rec_rssi b) then Some r else Some b else best"
  have "rec_rssi r = - 128" if "\<not> sint (- 128 :: i8) < sint (rec_rssi r)"
    using that sint_i8_min [of "rec_rssi r"] by (intro signed_word_eqI) simp
  then have "(if allowed r \<and> sint (rec_rssi r) > sint (case best of None \<Rightarrow> - 128 | Some b \<Rightarrow> rec_rssi b)
      then rec_rssi r else (case best of None \<Rightarrow> - 128 | Some b \<Rightarrow> rec_rssi b)) =
    (case ?best of None \<Rightarrow> - 128 | Some b \<Rightarrow> rec_rssi b)"
    by (auto split: option.splits)
  with Cons.IH [of ?best] show ?case by simp
qed simp

text \<open>
  Property C26 (station): the two scans of a station, written as two loops, agree: the signal strength
  that it tells its siblings, by which they order their attempts to connect, is that of the access
  point it would choose from the same scan, and the smallest number when there is none.
\<close>

theorem station_scans_agree:
  "fst (station_scan_best_rssi scan d) =
   (if st_ap_found (the_st (station_find_ap scan d))
    then rec_rssi (st_wifi_ap_found (the_st (station_find_ap scan d))) else - 128)"
  using rssi_loop_find_loop [of "station_allows (driver ''wifi_scan'' [] d)" scan None]
  by (simp add: station_scan_best_rssi_def station_find_ap_def transform_wifi_ap_record_to_config_def Let_def
      split: option.splits)

end
