(* ===== verification/Reset_Manager.thy ===== *)
theory Reset_Manager
  imports Ring_Share
begin

text \<open>
  The reset manager (\<open>integration/reset_manager\<close>): the center board tells the others to restart,
  and then the identity of the node and whether it is the root. \<open>esp_restart\<close> is an effect after
  which nothing of the board runs; the model returns the state as it was.
\<close>

section \<open>State and messages\<close>

definition UUID_LENGTH :: nat where "UUID_LENGTH = 13"
definition RESET_TIMEOUT_US :: int where "RESET_TIMEOUT_US = 30000000"
definition RESET_BROADCAST_WAIT_MS :: u32 where "RESET_BROADCAST_WAIT_MS = 2000"
definition RM_OPCODE_RESET :: u8 where "RM_OPCODE_RESET = 0xA5"
definition RM_OPCODE_STARTUP :: u8 where "RM_OPCODE_STARTUP = 0xB6"
definition ROOT_UUID :: "byte list" where "ROOT_UUID = chars ''000000000000''"

lemmas rm_consts = UUID_LENGTH_def RESET_TIMEOUT_US_def RESET_BROADCAST_WAIT_MS_def
  RM_OPCODE_RESET_def RM_OPCODE_STARTUP_def

record reset_manager =
  rm_rs_set :: bool
  rm_is_up :: bool
  rm_is_root :: bool
  rm_uuid :: "byte list"
  rm_mac :: "byte list"
  rm_last_reset_time :: u64

definition rm_zero :: reset_manager where
  "rm_zero = \<lparr>rm_rs_set = False, rm_is_up = False, rm_is_root = False,
     rm_uuid = replicate UUID_LENGTH 0, rm_mac = replicate UUID_LENGTH 0, rm_last_reset_time = 0\<rparr>"

record rm_startup_packet =
  sp_opcode :: u8
  sp_uuid :: "byte list"
  sp_is_root :: u8

definition SIZEOF_STARTUP_PACKET :: nat where "SIZEOF_STARTUP_PACKET = 15"

definition startup_bytes :: "rm_startup_packet \<Rightarrow> byte list" where
  "startup_bytes s = sp_opcode s # sp_uuid s @ [sp_is_root s]"

definition startup_of_bytes :: "byte list \<Rightarrow> rm_startup_packet" where
  "startup_of_bytes bs =
     \<lparr>sp_opcode = bs ! 0, sp_uuid = take 13 (drop 1 bs), sp_is_root = bs ! 14\<rparr>"

interpretation rm_wire: wire_format startup_bytes startup_of_bytes SIZEOF_STARTUP_PACKET
  "\<lambda>s. length (sp_uuid s) = UUID_LENGTH"
  by unfold_locales
     (auto simp: startup_bytes_def startup_of_bytes_def SIZEOF_STARTUP_PACKET_def UUID_LENGTH_def
       nth_append)

section \<open>Operations\<close>

text \<open>\<open>snprintf\<close> of six bytes with \<open>%02X\<close>.\<close>

definition hex_digit :: "byte \<Rightarrow> byte" where
  "hex_digit d = chars ''0123456789ABCDEF'' ! unat d"

definition rm_generate_uuid_from_mac :: "byte list \<Rightarrow> byte list" where
  "rm_generate_uuid_from_mac mac =
     concat (map (\<lambda>b. [hex_digit (drop_bit 4 b), hex_digit (b AND 0xF)]) mac) @ [0]"

definition rm_init :: "reset_manager \<Rightarrow> ring_share \<Rightarrow> link \<Rightarrow> reset_manager \<times> ring_share \<times> link" where
  "rm_init rm rs l =
     (rm\<lparr>rm_rs_set := True, rm_is_up := False, rm_is_root := False,
         rm_last_reset_time := env_time_us (env l) (now l),
         rm_mac := rm_generate_uuid_from_mac (env_mac (env l)), rm_uuid := replicate UUID_LENGTH 0\<rparr>,
      rs_register_component RS_RESET_MANAGER (Some ResetManagerOnSibling) rs, tick l)"

definition rm_on_sibling_message ::
  "byte list \<Rightarrow> reset_manager \<Rightarrow> link \<Rightarrow> reset_manager \<times> link" where
  "rm_on_sibling_message msg rm l =
     (if length msg < 1 then (rm, l)
      else if msg ! 0 = RM_OPCODE_RESET
      then if \<not> rm_is_up rm
           then (rm\<lparr>rm_last_reset_time := env_time_us (env l) (now l)\<rparr>, tick l)
           else (rm, emit Restart (vTaskDelay_ms RESET_BROADCAST_WAIT_MS l))
      else if msg ! 0 = RM_OPCODE_STARTUP
      then if length msg \<noteq> SIZEOF_STARTUP_PACKET then (rm, l)
           else
             let startup = startup_of_bytes msg
             in (rm\<lparr>rm_uuid := (strncpy_bytes UUID_LENGTH (sp_uuid startup))[UUID_LENGTH - 1 := 0],
                    rm_is_root := (sp_is_root startup \<noteq> 0), rm_is_up := True\<rparr>, l)
      else (rm, l))"

definition rm_broadcast_reset :: "reset_manager \<Rightarrow> link \<Rightarrow> bool \<times> reset_manager \<times> link" where
  "rm_broadcast_reset rm l =
     (if \<not> rm_rs_set rm then (False, rm, l)
      else
        let rm1 = rm\<lparr>rm_last_reset_time := env_time_us (env l) (now l)\<rparr>;
            (result, l1) = rs_broadcast RS_RESET_MANAGER [RM_OPCODE_RESET] (tick l)
        in (result, rm1, l1))"

definition rm_broadcast_startup_info ::
  "bool \<Rightarrow> reset_manager \<Rightarrow> link \<Rightarrow> bool \<times> reset_manager \<times> link" where
  "rm_broadcast_startup_info is_root rm l =
     (if \<not> rm_rs_set rm then (False, rm, l)
      else
        let rm1 = rm\<lparr>rm_uuid := (if is_root then strncpy_bytes UUID_LENGTH ROOT_UUID
                                  else strncpy_bytes UUID_LENGTH (rm_mac rm))\<rparr>;
            packet = \<lparr>sp_opcode = RM_OPCODE_STARTUP,
              sp_uuid = strncpy_bytes UUID_LENGTH (rm_uuid rm1), sp_is_root = (if is_root then 1 else 0)\<rparr>;
            rm2 = rm1\<lparr>rm_is_root := is_root\<rparr>;
            (broadcast, l1) = rs_broadcast RS_RESET_MANAGER (startup_bytes packet) l
        in (broadcast, if broadcast then rm2\<lparr>rm_is_up := True\<rparr> else rm2, l1))"

definition rm_should_device_reset :: "reset_manager \<Rightarrow> link \<Rightarrow> bool \<times> link" where
  "rm_should_device_reset rm l =
     (sint (env_time_us (env l) (now l)) - sint (rm_last_reset_time rm) > RESET_TIMEOUT_US, tick l)"

section \<open>Lemmas\<close>

lemma mac_name_length: "length mac = 6 \<Longrightarrow> length (rm_generate_uuid_from_mac mac) = UUID_LENGTH"
proof -
  have "length (concat (map (\<lambda>b. [hex_digit (drop_bit 4 b), hex_digit (b AND 0xF)]) mac)) = 2 * length mac"
    for mac :: "byte list"
    by (induction mac) simp_all
  then show "length mac = 6 \<Longrightarrow> length (rm_generate_uuid_from_mac mac) = UUID_LENGTH"
    by (simp add: rm_generate_uuid_from_mac_def UUID_LENGTH_def)
qed

text \<open>An array of 13 bytes that holds a string.\<close>

definition name_array :: "byte list \<Rightarrow> bool" where
  "name_array bs \<longleftrightarrow> length bs = UUID_LENGTH \<and> terminated bs"

lemma c_str_short: "name_array bs \<Longrightarrow> length (c_str bs) \<le> 12"
proof (rule ccontr)
  assume n: "name_array bs" "\<not> length (c_str bs) \<le> 12"
  then have "length (c_str bs) = length bs"
    using c_str_length [of bs] by (simp add: name_array_def UUID_LENGTH_def)
  then have "c_str bs = bs"
    unfolding c_str_def by (metis append_Nil2 append_eq_append_conv takeWhile_dropWhile_id)
  with n(1) c_str_no_zero [of bs] show False by (simp add: name_array_def terminated_def)
qed

lemma strncpy_shape:
  "length (c_str bs) \<le> 12 \<Longrightarrow> strncpy_bytes UUID_LENGTH bs = c_str bs @ 0 # replicate (12 - length (c_str bs)) 0"
  by (simp add: strncpy_bytes_def UUID_LENGTH_def Suc_diff_le flip: replicate_Suc)

lemma strncpy_twice:
  "length (c_str bs) \<le> 12 \<Longrightarrow>
   strncpy_bytes UUID_LENGTH (strncpy_bytes UUID_LENGTH bs) = strncpy_bytes UUID_LENGTH bs"
  using c_str_id [OF c_str_no_zero] by (simp add: strncpy_shape)

lemma strncpy_last:
  "length (c_str bs) \<le> 12 \<Longrightarrow>
   (strncpy_bytes UUID_LENGTH bs)[UUID_LENGTH - 1 := 0] = strncpy_bytes UUID_LENGTH bs"
proof -
  assume s: "length (c_str bs) \<le> 12"
  have "strncpy_bytes UUID_LENGTH bs ! 12 = 0"
    unfolding strncpy_shape [OF s] replicate_Suc [symmetric] using s by (simp add: nth_append del: replicate_Suc)
  moreover have "UUID_LENGTH - 1 = 12" by (simp add: UUID_LENGTH_def)
  ultimately show ?thesis using list_update_id [of "strncpy_bytes UUID_LENGTH bs" 12] by simp
qed

section \<open>Properties\<close>

text \<open>
  The startup message of the center, when one of its frames reaches a
  board, leaves that board up with the center's UUID and root flag, and no other message can
  bring a board up; the root announces the UUID of zeros, another node the center's address.
\<close>

lemma rm_startup_shared:
  assumes "rm_broadcast_startup_info is_root c l = (ok, c', l')"
    and "p \<in> set (spi_attempts (new_effects l l'))" and "name_array (rm_mac c)"
  shows "(case rm_on_sibling_message (tl (frame_message p)) rm m of (rm', m') \<Rightarrow>
      rm_is_up rm' \<and> rm_uuid rm' = rm_uuid c' \<and> rm_is_root rm' = is_root \<and> m' = m) \<and>
    rm_is_root c' = is_root \<and> c_str (rm_uuid c') = (if is_root then ROOT_UUID else c_str (rm_mac c)) \<and>
    (\<forall>msg. \<not> rm_is_up rm \<longrightarrow> rm_is_up (fst (rm_on_sibling_message msg rm m)) \<longrightarrow>
       length msg = SIZEOF_STARTUP_PACKET \<and> msg ! 0 = RM_OPCODE_STARTUP)"
proof -
  define name where "name = (if is_root then ROOT_UUID else rm_mac c)"
  have root: "c_str ROOT_UUID = ROOT_UUID" "length ROOT_UUID = 12" by code_simp+
  then have short: "length (c_str name) \<le> 12"
    using c_str_short [OF assms(3)] by (simp add: name_def)
  define packet where "packet = \<lparr>sp_opcode = RM_OPCODE_STARTUP,
    sp_uuid = strncpy_bytes UUID_LENGTH name, sp_is_root = (if is_root then 1 else 0)\<rparr>"
  have set: "rm_rs_set c" using assms(1,2) by (auto simp: rm_broadcast_startup_info_def split: if_splits)
  have u: "(if is_root then strncpy_bytes UUID_LENGTH ROOT_UUID else strncpy_bytes UUID_LENGTH (rm_mac c)) =
      strncpy_bytes UUID_LENGTH name"
    by (simp add: name_def)
  have b: "rs_broadcast RS_RESET_MANAGER (startup_bytes packet) l = (ok, l')"
    and c': "rm_uuid c' = strncpy_bytes UUID_LENGTH name" "rm_is_root c' = is_root"
    using assms(1) set unfolding rm_broadcast_startup_info_def u packet_def
    by (auto simp: Let_def strncpy_twice [OF short] split: prod.splits if_splits)
  have f: "tl (frame_message p) = startup_bytes packet"
    using rs_frame_bytes [OF b assms(2)] by simp
  have len: "length (sp_uuid packet) = UUID_LENGTH" by (simp add: packet_def)
  note wire = rm_wire.length_enc [OF len] rm_wire.dec_enc [OF len]
  have ne: "startup_bytes packet \<noteq> []" "startup_bytes packet ! 0 = RM_OPCODE_STARTUP"
    by (simp_all add: startup_bytes_def packet_def)
  have "rm_on_sibling_message (startup_bytes packet) rm m =
      (rm\<lparr>rm_uuid := strncpy_bytes UUID_LENGTH name, rm_is_root := is_root, rm_is_up := True\<rparr>, m)"
  proof -
    have "RM_OPCODE_STARTUP \<noteq> RM_OPCODE_RESET" "SIZEOF_STARTUP_PACKET \<ge> 1"
      by (simp_all add: rm_consts SIZEOF_STARTUP_PACKET_def)
    then show ?thesis
      using ne strncpy_twice [OF short] strncpy_last [OF short]
      by (simp add: rm_on_sibling_message_def wire Let_def) (simp add: packet_def)
  qed
  moreover have "c_str (rm_uuid c') = c_str name"
    unfolding c' strncpy_shape [OF short] using c_str_id [OF c_str_no_zero] by blast
  moreover have "\<forall>msg. \<not> rm_is_up rm \<longrightarrow> rm_is_up (fst (rm_on_sibling_message msg rm m)) \<longrightarrow>
       length msg = SIZEOF_STARTUP_PACKET \<and> msg ! 0 = RM_OPCODE_STARTUP"
    by (auto simp: rm_on_sibling_message_def Let_def split: if_splits)
  ultimately show ?thesis
    unfolding f using c' root by (simp add: name_def)
qed

definition example_rm :: reset_manager where
  "example_rm = rm_zero\<lparr>rm_rs_set := True, rm_mac := rm_generate_uuid_from_mac [1, 2, 3, 4, 0xAB, 0xCD]\<rparr>"

end
