(* ===== verification/Node.thy ===== *)
theory Node
  imports Wifi Reset_Manager Subnets
begin

text \<open>
  The board as a member of its node (\<open>integration/node\<close>): its place and identity, the network it
  was given, and the switch of its wifi side between access point and station. The board record
  grows by \<open>node_t\<close> and the reset manager. Its setup is in \<open>Startup\<close>.
\<close>

section \<open>State\<close>

definition NODE_DEVICE_ORIENTATION_CENTER :: u8 where "NODE_DEVICE_ORIENTATION_CENTER = 4"
definition NODE_NAME_PREFIX :: "byte list" where "NODE_NAME_PREFIX = chars ''I4A''"
definition NODE_LINK_PASSWORD :: "byte list" where "NODE_LINK_PASSWORD = chars ''zWfAc2wXq5''"
definition NAT_NETWORK_NAME :: "byte list" where "NAT_NETWORK_NAME = chars ''Internet4All_Root''"
definition NAT_NETWORK_PASSWORD :: "byte list" where "NAT_NETWORK_PASSWORD = chars ''I4A123456''"
definition HOUSE_NETWORK_NAME :: "byte list" where "HOUSE_NETWORK_NAME = chars ''ComNetAR''"
definition MAX_DEVICES_PER_HOUSE :: u8 where "MAX_DEVICES_PER_HOUSE = 5"
definition DEFAULT_SUBNET :: u32 where "DEFAULT_SUBNET = 0"
definition DEFAULT_MASK :: u32 where "DEFAULT_MASK = 0xFFFFFFFF"

record node_t =
  node_uuid :: "byte list"
  node_mac :: "byte list"
  node_orientation :: u8
  node_is_center_root :: bool
  node_is_apsta :: bool
  node_subnet :: u32
  node_mask :: u32

record node_sys = wifi_sys +
  nd :: node_t
  rmgr :: reset_manager
  remote_server :: bool  \<comment> \<open>\<open>server_is_up\<close> of the remote control\<close>

definition node_start_state :: node_t where
  "node_start_state = \<lparr>node_uuid = [], node_mac = [], node_orientation = 0,
     node_is_center_root = False, node_is_apsta = False, node_subnet = DEFAULT_SUBNET,
     node_mask = DEFAULT_MASK\<rparr>"

definition upd_nd :: "(node_t \<Rightarrow> node_t) \<Rightarrow> 'a node_sys_scheme \<Rightarrow> 'a node_sys_scheme" where
  "upd_nd f d = d\<lparr>nd := f (nd d)\<rparr>"

section \<open>Operations\<close>

definition node_get_config_orientation :: "config_t \<Rightarrow> u8" where
  "node_get_config_orientation cfg =
     (let bits = config_get_id cfg
      in if drop_bit 2 bits = 0 then bits else NODE_DEVICE_ORIENTATION_CENTER)"

definition node_set_network_settings :: "u32 \<Rightarrow> u32 \<Rightarrow> 'a node_sys_scheme \<Rightarrow> 'a node_sys_scheme" where
  "node_set_network_settings network msk = upd_nd (\<lambda>n. n\<lparr>node_subnet := network, node_mask := msk\<rparr>)"

definition remote_command_server_create :: "'a node_sys_scheme \<Rightarrow> 'a node_sys_scheme" where
  "remote_command_server_create d =
     (if \<not> remote_server d
      then driver ''create_task_remote_control'' [] (driver ''remote_control_listen'' [] (d\<lparr>remote_server := True\<rparr>))
      else d)"

definition orientation_delay :: "'a node_sys_scheme \<Rightarrow> 'a node_sys_scheme" where
  "orientation_delay d = delay_ms (ucast (node_orientation (nd d)) * 1000) d"

definition bool_u8 :: "bool \<Rightarrow> u8" where "bool_u8 b = (if b then 1 else 0)"

definition node_set_as_sta :: "'a node_sys_scheme \<Rightarrow> 'a node_sys_scheme option" where
  "node_set_as_sta d =
     (let d0 = (if dev_mode (dev d) \<noteq> NAN then device_reset d else d)
      in do { d1 \<leftarrow> device_init (node_uuid (nd d0)) (node_orientation (nd d0)) NODE_NAME_PREFIX
                 NODE_LINK_PASSWORD 6 4 (bool_u8 (node_is_center_root (nd d0)))
                 (bool_u8 (node_is_apsta (nd d0))) STATION d0;
              let d2 = device_start_station (orientation_delay d1);
              Some (device_connect_station (device_set_max_tx_power 80 d2)) })"

text \<open>The network the access point serves: address, gateway, mask.\<close>

definition last_net30 :: "u32 \<Rightarrow> u32 \<Rightarrow> u32" where
  "last_net30 network msk = ((network OR NOT msk) - 3) AND 0xFFFFFFFC"

definition ap_addresses :: "u8 \<Rightarrow> bool \<Rightarrow> u32 \<Rightarrow> u32 \<Rightarrow> u32 \<times> u32 \<times> u32" where
  "ap_addresses ori is_root network msk =
     (if ori = NODE_DEVICE_ORIENTATION_CENTER
      then if is_root
           then (last_net30 network msk + 1, last_net30 network msk + 2, 0xFFFFFFFC)
           else (network + 1, network + 1, msk)
      else (network + 1, network + 2, 0xFFFFFFFC))"

text \<open>The network name, the password and the number of stations.\<close>

definition ap_identity :: "u8 \<Rightarrow> bool \<Rightarrow> byte list \<times> byte list \<times> u8" where
  "ap_identity ori is_root =
     (if ori = NODE_DEVICE_ORIENTATION_CENTER
      then if is_root then (NAT_NETWORK_NAME, NAT_NETWORK_PASSWORD, 1)
           else (HOUSE_NETWORK_NAME, [], MAX_DEVICES_PER_HOUSE)
      else (NODE_NAME_PREFIX, NODE_LINK_PASSWORD, 1))"

definition node_set_as_ap :: "u32 \<Rightarrow> u32 \<Rightarrow> 'a node_sys_scheme \<Rightarrow> 'a node_sys_scheme option" where
  "node_set_as_ap network msk d =
     (let d0 = (if dev_mode (dev d) \<noteq> NAN then device_reset d else d);
          d1 = node_set_network_settings network msk d0;
          (channel, l) = cm_get_suggested_channel (cmgr d1) (lk d1);
          d2 = d1\<lparr>lk := l\<rparr>;
          ori = node_orientation (nd d2); is_root = node_is_center_root (nd d2);
          (prefix, password, max_conn) = ap_identity ori is_root;
          (ip, gateway, m) = ap_addresses ori is_root network msk;
          d3 = orientation_delay d2;
          d4 = (if ori = NODE_DEVICE_ORIENTATION_CENTER \<or> is_root then d3
                else upd_nd (\<lambda>n. n\<lparr>node_is_apsta := True\<rparr>) d3)
      in do { d5 \<leftarrow> device_init (node_uuid (nd d4)) ori prefix password channel max_conn
                 (bool_u8 is_root) (bool_u8 (node_is_apsta (nd d4))) AP d4;
              let d6 = device_start_ap (device_set_network_ap ip gateway m d5);
              let d7 = device_set_max_tx_power 80 d6;
              Some (if ori = NODE_DEVICE_ORIENTATION_CENTER
                    then if is_root then im_http_client_start d7 else remote_command_server_create d7
                    else d7) })"

fun send_retry :: "nat \<Rightarrow> ('b \<Rightarrow> bool \<times> 'b) \<Rightarrow> ('b \<Rightarrow> 'b) \<Rightarrow> 'b \<Rightarrow> bool \<times> 'b" where
  "send_retry 0 f wait d = (False, d)"
| "send_retry (Suc n) f wait d =
     (let (ok, d1) = f d in if ok then (True, d1) else send_retry n f wait (wait d1))"

definition node_send_wireless_message :: "byte list \<Rightarrow> 'a node_sys_scheme \<Rightarrow> bool \<times> 'a node_sys_scheme" where
  "node_send_wireless_message msg d =
     send_retry MAX_RETRIES (device_send_wireless_message msg) (delay_ms RETRY_DELAY_MS) d"

definition node_is_point_to_point_message :: "u32 \<Rightarrow> 'a node_sys_scheme \<Rightarrow> bool" where
  "node_is_point_to_point_message dst d = device_is_point_to_point_message (dev d) dst"

definition node_is_packet_for_this_subnet :: "u32 \<Rightarrow> 'a node_sys_scheme \<Rightarrow> bool" where
  "node_is_packet_for_this_subnet dst d \<longleftrightarrow> dst AND node_mask (nd d) = node_subnet (nd d)"

definition node_is_network_provided :: "'a node_sys_scheme \<Rightarrow> bool" where
  "node_is_network_provided d \<longleftrightarrow> node_subnet (nd d) \<noteq> DEFAULT_SUBNET"

definition node_disable_sta :: "'a node_sys_scheme \<Rightarrow> 'a node_sys_scheme" where
  "node_disable_sta d = device_disable_station d"

definition node_enable_sta :: "'a node_sys_scheme \<Rightarrow> 'a node_sys_scheme" where
  "node_enable_sta d = device_enable_station d"

definition node_disable_ap :: "'a node_sys_scheme \<Rightarrow> 'a node_sys_scheme" where
  "node_disable_ap d = device_disable_ap d"

definition node_enable_ap :: "'a node_sys_scheme \<Rightarrow> 'a node_sys_scheme" where
  "node_enable_ap d = device_enable_ap d"

text \<open>The handler of the channel manager with the node operations it calls.\<close>

definition node_on_channel_message :: "byte list \<Rightarrow> 'a node_sys_scheme \<Rightarrow> 'a node_sys_scheme option" where
  "node_on_channel_message msg d =
     do { (disable, cm) \<leftarrow> cm_on_sibling_message (node_is_network_provided d) msg (cmgr d);
          let d1 = d\<lparr>cmgr := cm\<rparr>;
          Some (if disable then node_disable_sta d1 else d1) }"

section \<open>The addresses of the access point\<close>

lemma low_bits: "bit (1 :: u32) i \<longleftrightarrow> i = 0" "bit (2 :: u32) i \<longleftrightarrow> i = 1" "bit (3 :: u32) i \<longleftrightarrow> i < 2"
proof -
  have m: "(1 :: u32) = mask 1" "(2 :: u32) = push_bit 1 (mask 1)" "(3 :: u32) = mask 2"
    by (simp_all add: mask_eq_exp_minus_1 push_bit_eq_mult)
  show "bit (1 :: u32) i \<longleftrightarrow> i = 0" unfolding m(1) by (auto simp: bit_simps)
  show "bit (2 :: u32) i \<longleftrightarrow> i = 1" unfolding m(2) by (auto simp: bit_simps)
  show "bit (3 :: u32) i \<longleftrightarrow> i < 2" unfolding m(3) by (auto simp: bit_simps)
qed

lemma mask30: "(0xFFFFFFFC :: u32) = NOT 3" "(0xFFFFFFFC :: u32) = prefix_mask 30"
  by (simp, simp add: prefix_mask_def mask_eq_exp_minus_1 push_bit_eq_mult)

lemma add_low:
  assumes "\<And>i. i < 2 \<Longrightarrow> \<not> bit (x :: u32) i"
  shows "x + 1 = x OR 1" "x + 2 = x OR 2"
proof -
  have "x AND 1 = 0" "x AND 2 = 0"
    using assms by (auto intro!: bit_word_eqI simp: bit_simps low_bits)
  then show "x + 1 = x OR 1" "x + 2 = x OR 2"
    by (simp_all add: disjunctive_add_eq_or)
qed


lemma last_net30_bits:
  assumes "wf_network p n" "p \<le> 30" "i < 32"
  shows "bit (last_net30 (nw_addr n) (nw_mask n)) i \<longleftrightarrow> 2 \<le> i \<and> (i < 32 - p \<or> bit (nw_addr n) i)"
proof -
  define x where "x = nw_addr n OR NOT (nw_mask n)"
  have b: "bit x j \<longleftrightarrow> j < 32 - p \<or> bit (nw_addr n) j" if "j < 32" for j
    using assms(1,2) that by (auto simp: x_def bit_simps bit_prefix_mask wf_network_def)
  have "\<not> bit (NOT x AND 3) j" for j
  proof (cases "j < 2")
    case True
    then have "j < 32 - p" using assms(2) by arith
    then have "bit x j" using b [of j] True by simp
    with True show ?thesis by (simp only: bit_and_iff bit_not_iff simp_thms)
  next
    case False
    then show ?thesis using low_bits(3) [of j] by (simp only: bit_and_iff simp_thms)
  qed
  then have "NOT x AND 3 = 0"
    by (intro bit_word_eqI) simp
  then have d: "x - 3 = x AND NOT 3"
    by (rule disjunctive_diff_eq_and_not)
  have m: "bit (NOT (3 :: u32)) i \<longleftrightarrow> 2 \<le> i"
    using assms(3) low_bits(3) [of i] by (simp only: bit_not_iff possible_bit_word) auto
  show ?thesis
    using b [OF assms(3)] m unfolding last_net30_def x_def [symmetric] mask30(1) d
    by (simp only: bit_and_iff) blast
qed

lemma low_in_network:
  assumes "wf_network p n" "p \<le> 30" "\<And>i. i < 32 \<Longrightarrow> 32 - p \<le> i \<Longrightarrow> bit x i = bit (nw_addr n) i"
    and "\<And>i. i < 2 \<Longrightarrow> \<not> bit x i" and y: "y = x + 1 \<or> y = x + 2"
  shows "in_network y n \<and> y AND 0xFFFFFFFC = x"
proof -
  have 30: "bit (0xFFFFFFFC :: u32) i \<longleftrightarrow> 2 \<le> i" if "i < 32" for i
    unfolding mask30(2) using that by (simp add: bit_prefix_mask)
  have a: "x + 1 = x OR 1" "x + 2 = x OR 2"
    using add_low [of x] assms(4) by blast+
  have hi: "bit y i = bit x i" if "2 \<le> i" for i
    using y that unfolding a by (elim disjE) (simp_all only: bit_or_iff low_bits, auto)
  have "bit (y AND 0xFFFFFFFC) i = bit x i" if "i < 32" for i
    using hi [of i] 30 [OF that] assms(4) [of i] by (simp only: bit_and_iff) (meson not_le)
  then have "y AND 0xFFFFFFFC = x" by (intro bit_word_eqI) simp
  moreover have "in_network y n"
    unfolding in_network_bits [OF assms(1)]
  proof (intro allI impI)
    fix i assume i: "i < 32" "32 - p \<le> i"
    then have "2 \<le> i" using assms(2) by arith
    with hi assms(3) i show "bit y i = bit (nw_addr n) i" by blast
  qed
  ultimately show ?thesis by blast
qed

lemma host_part:
  assumes "x AND NOT m = 0" "1 AND NOT m = 1" "2 AND NOT m = (2 :: u32)" "\<And>i. i < 2 \<Longrightarrow> \<not> bit x i"
  shows "(x + 1) AND NOT m = 1" "(x + 2) AND NOT m = 2"
  using assms(1-3) add_low [of x, OF assms(4)] by (simp_all add: word_ao_dist)

lemma home_mask:
  assumes "p \<le> 30"
  shows "1 AND NOT (prefix_mask p) = 1" "2 AND NOT (prefix_mask p) = 2" "3 \<le> NOT (prefix_mask p)"
proof -
  have b: "bit (NOT (prefix_mask p)) i \<longleftrightarrow> i < 32 - p" if "i < 32" for i
    using that assms by (auto simp: bit_simps bit_prefix_mask)
  have 3: "3 AND NOT (prefix_mask p) = 3"
  proof (rule bit_word_eqI)
    fix i :: nat assume "i < LENGTH(32)"
    then show "bit (3 AND NOT (prefix_mask p)) i = bit (3 :: u32) i"
      using b [of i] low_bits(3) [of i] assms by (simp only: bit_and_iff len_of_numeral_defs) auto
  qed
  show "1 AND NOT (prefix_mask p) = 1" "2 AND NOT (prefix_mask p) = 2"
    using arg_cong [OF 3, of "\<lambda>v. 1 AND v"] arg_cong [OF 3, of "\<lambda>v. 2 AND v"]
    by (simp_all flip: and.assoc)
  show "3 \<le> NOT (prefix_mask p)"
    using 3 word_and_le1 [of 3 "NOT (prefix_mask p)"] by metis
qed

text \<open>The two addresses of a link of two hosts.\<close>

lemma pair_host_parts:
  assumes "\<And>i. i < 2 \<Longrightarrow> \<not> bit (x :: u32) i"
  shows "(x + 1) AND 3 = 1 \<and> (x + 2) AND 3 = 2"
proof -
  have "x AND 3 = 0"
    by (rule bit_word_eqI) (use assms low_bits(3) in \<open>simp only: bit_and_iff bit_0_eq bot_apply bot_bool_def, blast\<close>)
  then show ?thesis using host_part [where x = x and m = "NOT 3"] assms by simp
qed

text \<open>
  Property C33 (access point addresses). Whatever network the board is told to serve, of at most 30
  bits of prefix, the address and the gateway of its access point lie in that network, in one
  subnet of the mask given to the driver, with host parts 1 and 2 (both 1 for a home), so that
  neither is the subnet's own address nor its broadcast address.
\<close>

lemma node_ap_addresses:
  assumes "wf_network p n" "p \<le> 30"
    and "ap_addresses ori is_root (nw_addr n) (nw_mask n) = (ip, gateway, m)"
  shows "in_network ip n \<and> in_network gateway n \<and> ip AND m = gateway AND m \<and>
    ip AND NOT m = 1 \<and> 3 \<le> NOT m \<and>
    gateway AND NOT m = (if ori = NODE_DEVICE_ORIENTATION_CENTER \<and> \<not> is_root then 1 else 2)"
proof -
  let ?a = "nw_addr n" and ?l = "last_net30 (nw_addr n) (nw_mask n)"
  have za: "\<not> bit ?a i" if "i < 32 - p" for i
    using that addr_bits [OF assms(1), of i] by (meson not_le)
  have a2: "\<not> bit ?a i" if "i < 2" for i using za [of i] that assms(2) by auto
  have l2: "\<not> bit ?l i" if "i < 2" for i
    using last_net30_bits [OF assms(1,2), of i] that by auto
  have lhi: "bit ?l i = bit ?a i" if "i < 32" "32 - p \<le> i" for i
    using last_net30_bits [OF assms(1,2), of i] that assms(2) by auto
  have an: "in_network y n \<and> y AND 0xFFFFFFFC = ?a" if "y = ?a + 1 \<or> y = ?a + 2" for y
    using low_in_network [OF assms(1,2) _ a2 that] by blast
  have ln: "in_network y n \<and> y AND 0xFFFFFFFC = ?l" if "y = ?l + 1 \<or> y = ?l + 2" for y
    using low_in_network [OF assms(1,2) _ l2 that] lhi by blast
  have mp: "nw_mask n = prefix_mask p" using assms(1) by (simp add: wf_network_def)
  have ah: "?a AND NOT (nw_mask n) = 0"
    unfolding mp using za assms(2)
    by (intro bit_word_eqI) (auto simp: bit_simps bit_prefix_mask not_le [symmetric])
  have n3: "- 4294967293 = (3 :: u32)" by simp
  note homes = host_part [OF ah home_mask(1,2) [OF assms(2), folded mp] a2] home_mask(3) [OF assms(2), folded mp]
  consider (root) "ori = NODE_DEVICE_ORIENTATION_CENTER" is_root
    | (home) "ori = NODE_DEVICE_ORIENTATION_CENTER" "\<not> is_root" | (peer) "ori \<noteq> NODE_DEVICE_ORIENTATION_CENTER"
    by blast
  then show ?thesis
  proof cases
    case root
    with assms(3) have "ip = ?l + 1" "gateway = ?l + 2" "m = 0xFFFFFFFC" by (auto simp: ap_addresses_def)
    with ln [of ip] ln [of gateway] pair_host_parts [OF l2] root show ?thesis by (simp add: n3)
  next
    case home
    with assms(3) have "ip = ?a + 1" "gateway = ?a + 1" "m = nw_mask n" by (auto simp: ap_addresses_def)
    with an [of ip] homes home show ?thesis by simp
  next
    case peer
    with assms(3) have "ip = ?a + 1" "gateway = ?a + 2" "m = 0xFFFFFFFC" by (auto simp: ap_addresses_def)
    with an [of ip] an [of gateway] pair_host_parts [OF a2] peer show ?thesis by (simp add: n3)
  qed
qed

lemma node_ap_addresses_witness:
  "ap_addresses 4 True 0x0A400000 0xFFE00000 = (0x0A5FFFFD, 0x0A5FFFFE, 0xFFFFFFFC) \<and>
   in_network 0x0A5FFFFD \<lparr>nw_addr = 0x0A400000, nw_mask = 0xFFE00000\<rparr>"
proof -
  have w: "wf_network 11 \<lparr>nw_addr = 0x0A400000, nw_mask = 0xFFE00000\<rparr>"
    by (simp add: wf_network_def prefix_mask_def mask_eq_exp_minus_1 push_bit_eq_mult)
  have a: "ap_addresses 4 True 0x0A400000 0xFFE00000 = (0x0A5FFFFD, 0x0A5FFFFE, 0xFFFFFFFC)"
    by code_simp
  from node_ap_addresses [OF w, of 4 True] a show ?thesis by simp
qed

end
