(* ===== verification/Shared_State.thy ===== *)
theory Shared_State
  imports Node Routing_Table
begin

text \<open>
  The table that the boards of a node share (\<open>components/routing/shared_state\<close>): the component keeps,
  for each component, a pointer to its data and the length of the data; a refresh broadcasts the
  bytes, and a board that receives them copies them over its own. The only data that the program
  watches is the routing table, which the board record gets here together with the instance of
  \<open>ring_share\<close>. An operation is one step of the board, so the locks do not appear.
\<close>

section \<open>State\<close>

datatype ss_ptr = NodeRoutingTable

record shared_data =
  sd_ptr :: "ss_ptr option"
  sd_length :: u8

record shared_state =
  ss_orientation :: u8
  ss_data :: "shared_data list"

record ss_sys = node_sys +
  rsh :: ring_share
  node_table :: rt_routing_table
  ss :: shared_state

definition shared_state_zero :: shared_state where
  "shared_state_zero = \<lparr>ss_orientation = 0,
     ss_data = replicate RS_LAST_COMPONENT_ID \<lparr>sd_ptr = None, sd_length = 0\<rparr>\<rparr>"

text \<open>
  \<open>memcpy\<close> from and to the watched data: undefined beyond the end of the table, whose padding
  bytes are those of the zeroed structure.
\<close>

definition ss_peek :: "ss_ptr \<Rightarrow> nat \<Rightarrow> 'a ss_sys_scheme \<Rightarrow> byte list option" where
  "ss_peek p n d = (if n \<le> SIZEOF_ROUTING_TABLE then Some (take n (table_bytes 0 (node_table d))) else None)"

definition ss_poke :: "ss_ptr \<Rightarrow> byte list \<Rightarrow> 'a ss_sys_scheme \<Rightarrow> 'a ss_sys_scheme option" where
  "ss_poke p bs d =
     (if length bs \<le> SIZEOF_ROUTING_TABLE
      then Some (d\<lparr>node_table := table_of_bytes (bs @ drop (length bs) (table_bytes 0 (node_table d)))\<rparr>)
      else None)"

section \<open>Operations\<close>

text \<open>
  The first byte is read before the length is looked at: of an empty message it is a byte that is left
  over in the array of the caller, which \<open>None\<close> stands for.
\<close>

definition ss_on_sibling_message :: "byte list \<Rightarrow> 'a ss_sys_scheme \<Rightarrow> 'a ss_sys_scheme option" where
  "ss_on_sibling_message msg d =
     (case msg of
        [] \<Rightarrow> None
      | component # bs \<Rightarrow>
          if unat component \<ge> RS_LAST_COMPONENT_ID
          then Some (board_panic ''Invalid component id'' d)
          else let data = ss_data (ss d) ! unat component
               in case sd_ptr data of
                    None \<Rightarrow> Some (board_panic ''Component has no data to refresh'' d)
                  | Some p \<Rightarrow>
                      if unat (sd_length data) \<noteq> length bs
                      then Some (board_panic ''Data length does not match'' d)
                      else ss_poke p bs d)"

text \<open>The first argument tells whether \<open>mutex_create\<close> succeeds.\<close>

definition ss_init :: "bool \<Rightarrow> u8 \<Rightarrow> 'a ss_sys_scheme \<Rightarrow> bool \<times> 'a ss_sys_scheme" where
  "ss_init mutex_ok ori d =
     (let d1 = d\<lparr>ss := shared_state_zero\<lparr>ss_orientation := ori\<rparr>\<rparr>
      in if \<not> mutex_ok then (False, d1)
         else (True, d1\<lparr>rsh := rs_register_component RS_SHARED_STATE (Some SharedStateOnSibling) (rsh d1)\<rparr>))"

definition broadcast_data :: "component_id \<Rightarrow> 'a ss_sys_scheme \<Rightarrow> 'a ss_sys_scheme option" where
  "broadcast_data c d =
     (let data = ss_data (ss d) ! component_num c; n = unat (sd_length data)
      in do { bs \<leftarrow> (case sd_ptr data of Some p \<Rightarrow> ss_peek p n d
                                      | None \<Rightarrow> if n = 0 then Some [] else None);
              Some (snd (board_broadcast RS_SHARED_STATE (component_byte c # bs) d)) })"

definition ss_watch :: "component_id \<Rightarrow> shared_data \<Rightarrow> 'a ss_sys_scheme \<Rightarrow> 'a ss_sys_scheme" where
  "ss_watch c data d = d\<lparr>ss := (ss d)\<lparr>ss_data := (ss_data (ss d))[component_num c := data]\<rparr>\<rparr>"

definition ss_refresh :: "component_id \<Rightarrow> 'a ss_sys_scheme \<Rightarrow> 'a ss_sys_scheme option" where
  "ss_refresh c d =
     (if \<not> sync_is_inside_critical_section (sy d) c
      then Some (board_panic ''Not inside critical section'' d)
      else broadcast_data c d)"

definition ss_destroy :: "'a ss_sys_scheme \<Rightarrow> 'a ss_sys_scheme" where
  "ss_destroy d = d\<lparr>rsh := rs_register_component RS_SHARED_STATE None (rsh d)\<rparr>"

text \<open>A board before its program starts: the values of the static variables.\<close>

definition ss_sys_start :: "environment \<Rightarrow> ss_sys" where
  "ss_sys_start e = \<lparr>lk = link_init e s_config_init, sy = sync_zero, cmgr = cm_zero, pmgr = pm_zero,
     dev = device_start, wst = statics_start, nd = node_start_state, rmgr = rm_zero,
     remote_server = False, rsh = ring_share_zero, node_table = routing_table_init 0,
     ss = shared_state_zero\<rparr>"

section \<open>Lemmas\<close>

text \<open>The routing component watches its table, as \<open>rt_create\<close> sets it up.\<close>

definition watches_table :: "'a ss_sys_scheme \<Rightarrow> bool" where
  "watches_table d \<longleftrightarrow> length (ss_data (ss d)) = RS_LAST_COMPONENT_ID \<and>
     ss_data (ss d) ! component_num RS_ROUTING =
       \<lparr>sd_ptr = Some NodeRoutingTable, sd_length = of_nat SIZEOF_ROUTING_TABLE\<rparr>"

lemma sizeof_table_byte: "unat (of_nat SIZEOF_ROUTING_TABLE :: u8) = 200"
  by (simp add: SIZEOF_ROUTING_TABLE_def)

lemma refresh_watched:
  assumes "watches_table d" "table_wf (node_table d)" "sync_is_inside_critical_section (sy d) RS_ROUTING"
  shows "ss_refresh RS_ROUTING d = Some (d\<lparr>lk := snd (rs_broadcast RS_SHARED_STATE
    (component_byte RS_ROUTING # table_bytes 0 (node_table d)) (lk d))\<rparr>)"
  using assms rt_wire.length_enc [OF assms(2), of 0]
  by (simp add: ss_refresh_def broadcast_data_def watches_table_def ss_peek_def sizeof_table_byte
      SIZEOF_ROUTING_TABLE_def board_broadcast_def Let_def split: prod.splits)

lemma receive_table:
  assumes "watches_table r" "table_wf (node_table r)" "table_wf t"
  shows "ss_on_sibling_message (component_byte RS_ROUTING # table_bytes 0 t) r = Some (r\<lparr>node_table := t\<rparr>)"
  using assms(1) rt_wire.length_enc [OF assms(2), of 0] rt_wire.length_enc [OF assms(3), of 0]
    rt_wire.dec_enc [OF assms(3), of 0] unfolding watches_table_def
  by (simp add: ss_on_sibling_message_def ss_poke_def sizeof_table_byte SIZEOF_ROUTING_TABLE_def
      rs_consts Let_def)

text \<open>What a refresh puts on the bus.\<close>

lemma refresh_frames:
  assumes "watches_table d" "table_wf (node_table d)" "ss_refresh RS_ROUTING d = Some d'"
    and "p \<in> set (spi_attempts (new_effects (lk d) (lk d')))"
  shows "sync_is_inside_critical_section (sy d) RS_ROUTING \<and> 202 \<le> ring_link_netif_mtu (env (lk d)) \<and>
    frame_message p = component_byte RS_SHARED_STATE # component_byte RS_ROUTING # table_bytes 0 (node_table d)"
proof -
  let ?m = "component_byte RS_ROUTING # table_bytes 0 (node_table d)"
  have inside: "sync_is_inside_critical_section (sy d) RS_ROUTING"
  proof (rule ccontr)
    assume "\<not> ?thesis"
    then have "lk d' = os_panic ''Not inside critical section'' (lk d)"
      using assms(3) by (auto simp: ss_refresh_def board_panic_def)
    then show False using assms(4) by (simp add: os_panic_def)
  qed
  have l: "lk d' = snd (rs_broadcast RS_SHARED_STATE ?m (lk d))"
    using refresh_watched [OF assms(1,2) inside] assms(3) by auto
  obtain ok where b: "rs_broadcast RS_SHARED_STATE ?m (lk d) = (ok, lk d')"
    using l by (cases "rs_broadcast RS_SHARED_STATE ?m (lk d)") auto
  have "carries (lk d) (component_byte RS_SHARED_STATE # ?m) p"
    using rs_broadcast_attempts(4) [OF b] assms(4) by blast
  then have "202 \<le> ring_link_netif_mtu (env (lk d))"
    using rt_wire.length_enc [OF assms(2), of 0] by (simp add: carries_def SIZEOF_ROUTING_TABLE_def)
  with inside rs_frame_bytes [OF b assms(4)] show ?thesis by simp
qed

section \<open>Properties\<close>

text \<open>
  Property C17 (shared_state): every frame of a refresh of the routing table, at a board that
  receives it, makes \<open>ring_share\<close> call the shared state, which leaves the board with exactly the
  sender's routing table, whatever its table was before.
\<close>

theorem ss_refresh_shares_table:
  assumes "watches_table d" "table_wf (node_table d)" "ss_refresh RS_ROUTING d = Some d'"
    and "p \<in> set (spi_attempts (new_effects (lk d) (lk d')))"
    and "watches_table r" "table_wf (node_table r)"
    and "length (rs_components (rsh r)) = RS_MAX_COMPONENTS"
    and "rs_components (rsh r) ! component_num RS_SHARED_STATE = Some SharedStateOnSibling"
  shows "\<exists>msg. rs_on_sibling_message (rsh r) (frame_message p) (lk r) = (Some (SharedStateOnSibling, msg), lk r) \<and>
    ss_on_sibling_message msg r = Some (r\<lparr>node_table := node_table d\<rparr>)"
proof (intro exI conjI)
  show "ss_on_sibling_message (component_byte RS_ROUTING # table_bytes 0 (node_table d)) r =
    Some (r\<lparr>node_table := node_table d\<rparr>)"
    by (rule receive_table [OF assms(5,6,2)])
  show "rs_on_sibling_message (rsh r) (frame_message p) (lk r) =
    (Some (SharedStateOnSibling, component_byte RS_ROUTING # table_bytes 0 (node_table d)), lk r)"
    using refresh_frames [OF assms(1-4)] assms(7,8)
    by (simp add: rs_on_sibling_message_def rs_consts)
qed

text \<open>
  A refresh never changes the board but for its log and its counters.
  It hands frames to the bus only from inside the critical section, five at most, and only when
  the SPI buffer has 214 bytes: with the smallest size that the configuration allows, 200, the
  routing table is never shared, and nobody is told.
\<close>

lemma ss_refresh_bounded:
  assumes "watches_table d" "table_wf (node_table d)" "ss_refresh RS_ROUTING d = Some d'"
  shows "d' = d\<lparr>lk := lk d'\<rparr> \<and> length (spi_attempts (new_effects (lk d) (lk d'))) \<le> 5 \<and>
    (spi_attempts (new_effects (lk d) (lk d')) \<noteq> [] \<longrightarrow>
       sync_is_inside_critical_section (sy d) RS_ROUTING \<and> 214 \<le> env_spi_buffer_size (env (lk d)))"
proof (intro conjI impI)
  let ?m = "component_byte RS_ROUTING # table_bytes 0 (node_table d)"
  have "d' = d\<lparr>lk := lk d'\<rparr> \<and> length (spi_attempts (new_effects (lk d) (lk d'))) \<le> 5"
  proof (cases "sync_is_inside_critical_section (sy d) RS_ROUTING")
    case True
    have e: "d' = d\<lparr>lk := snd (rs_broadcast RS_SHARED_STATE ?m (lk d))\<rparr>"
      using refresh_watched [OF assms(1,2) True] assms(3) by simp
    obtain ok l where b: "rs_broadcast RS_SHARED_STATE ?m (lk d) = (ok, l)"
      by (cases "rs_broadcast RS_SHARED_STATE ?m (lk d)")
    show ?thesis using e rs_broadcast_attempts(2) [OF b] by (simp add: b)
  next
    case False
    then have "d' = board_panic ''Not inside critical section'' d"
      using assms(3) by (simp add: ss_refresh_def)
    then show ?thesis by (simp add: board_panic_def os_panic_def)
  qed
  then show "d' = d\<lparr>lk := lk d'\<rparr>" "length (spi_attempts (new_effects (lk d) (lk d'))) \<le> 5" by auto
  assume "spi_attempts (new_effects (lk d) (lk d')) \<noteq> []"
  then obtain p where p: "p \<in> set (spi_attempts (new_effects (lk d) (lk d')))" by fastforce
  show "sync_is_inside_critical_section (sy d) RS_ROUTING" "214 \<le> env_spi_buffer_size (env (lk d))"
    using refresh_frames [OF assms p] by (auto simp: ring_link_netif_mtu_def)
qed

section \<open>Witnesses\<close>

definition example_ss_board :: ss_sys where
  "example_ss_board =
     (let d = ss_watch RS_ROUTING \<lparr>sd_ptr = Some NodeRoutingTable, sd_length = 200\<rparr>
                (snd (ss_init True 5 (ss_sys_start (quiet_env\<lparr>env_spi_buffer_size := 1600\<rparr>))))
      in d\<lparr>sy := (sy d)\<lparr>critical_sections := replicate 7 \<lparr>cs_function = None, is_inside = True\<rparr>\<rparr>\<rparr>)"

lemma example_ss_board:
  "watches_table example_ss_board" "table_wf (node_table example_ss_board)"
  "sync_is_inside_critical_section (sy example_ss_board) RS_ROUTING"
  "reliable (env (lk example_ss_board))" "ring_link_netif_mtu (env (lk example_ss_board)) = 1588"
  "length (rs_components (rsh example_ss_board)) = RS_MAX_COMPONENTS"
  "rs_components (rsh example_ss_board) ! component_num RS_SHARED_STATE = Some SharedStateOnSibling"
  by (simp_all add: example_ss_board_def ss_init_def ss_watch_def ss_sys_start_def Let_def
      watches_table_def shared_state_zero_def rs_consts SIZEOF_ROUTING_TABLE_def table_wf_init
      sync_is_inside_critical_section_def reliable_def ring_link_netif_mtu_def quiet_env_def
      rs_register_component_def ring_share_zero_def link_init_def)

lemma example_refresh:
  "\<exists>d' p. ss_refresh RS_ROUTING example_ss_board = Some d' \<and>
     p \<in> set (spi_attempts (new_effects (lk example_ss_board) (lk d')))"
proof -
  let ?d = example_ss_board
  let ?m = "component_byte RS_ROUTING # table_bytes 0 (node_table ?d)"
  have len: "length ?m = 201"
    using rt_wire.length_enc [OF example_ss_board(2), of 0] by (simp add: SIZEOF_ROUTING_TABLE_def)
  obtain l where b: "rs_broadcast RS_SHARED_STATE ?m (lk ?d) = (True, l)"
    using reliable_broadcast [OF example_ss_board(4), of ?m RS_SHARED_STATE] len example_ss_board(5)
    by auto
  obtain p where "p \<in> set (spi_attempts (new_effects (lk ?d) l))"
    using rs_broadcast_attempts(3) [OF b] by (cases "spi_attempts (new_effects (lk ?d) l)") auto
  with refresh_watched [OF example_ss_board(1-3)] b show ?thesis by auto
qed

theorem ss_refresh_shares_table_witness:
  "\<exists>d' p msg. ss_refresh RS_ROUTING example_ss_board = Some d' \<and>
     p \<in> set (spi_attempts (new_effects (lk example_ss_board) (lk d'))) \<and>
     ss_on_sibling_message msg example_ss_board =
       Some (example_ss_board\<lparr>node_table := node_table example_ss_board\<rparr>)"
proof -
  let ?d = example_ss_board
  from example_refresh obtain d' p where r: "ss_refresh RS_ROUTING ?d = Some d'"
    "p \<in> set (spi_attempts (new_effects (lk ?d) (lk d')))" by blast
  from ss_refresh_shares_table [OF example_ss_board(1,2) r example_ss_board(1,2,6,7)] r
  show ?thesis by blast
qed

end
