(* ===== verification/Routing_Events.thy ===== *)
theory Routing_Events
  imports Subnets
begin

text \<open>
  The events of the routing protocol (\<open>routing/impl.h\<close>): those the boards of a node send each other
  and those that go to the peer node over TCP. Both are structures with a number and a union of
  128 bytes, sent raw. The bytes of the union that an event does not set are zero; no receiver
  reads them.
\<close>

section \<open>Networks as bytes\<close>

definition network_bytes :: "network_t \<Rightarrow> byte list" where
  "network_bytes n = le32 (nw_addr n) @ le32 (nw_mask n)"

definition network_of_bytes :: "byte list \<Rightarrow> network_t" where
  "network_of_bytes bs = NETWORK (un32 bs) (un32 (drop 4 bs))"

definition HAG_NETWORKS :: nat where "HAG_NETWORKS = 16"

fun networks_of_bytes :: "nat \<Rightarrow> byte list \<Rightarrow> network_t list" where
  "networks_of_bytes 0 bs = []"
| "networks_of_bytes (Suc n) bs = network_of_bytes bs # networks_of_bytes n (drop 8 bs)"

lemma network_bytes_length [simp]: "length (network_bytes n) = 8"
  by (simp add: network_bytes_def)

lemma network_roundtrip [simp]: "network_of_bytes (network_bytes n @ bs) = n"
  by (simp add: network_bytes_def network_of_bytes_def NETWORK_def)

lemma networks_roundtrip [simp]:
  "networks_of_bytes (length ns) (concat (map network_bytes ns) @ bs) = ns"
  by (induction ns) simp_all

lemma networks_length [simp]: "length (concat (map network_bytes ns)) = 8 * length ns"
  by (induction ns) simp_all

lemma networks_of_bytes_length [simp]: "length (networks_of_bytes n bs) = n"
  by (induction n arbitrary: bs) simp_all

section \<open>Events\<close>

datatype rt_sibl_event =
    SiblOnStart
  | SiblUpdateDtr u32
  | SiblProvision u16 u16 network_t  \<comment> \<open>\<open>provider_id\<close>, \<open>dtr\<close>, \<open>network\<close>\<close>
  | SiblSendNewGatewayRequest "network_t list"
  | SiblNewGatewayWinner network_t u32
  | SiblUnknown u32

datatype rt_peer_event =
    PeerHandshake network_t network_t u32  \<comment> \<open>external network, provided network, \<open>dtr\<close>\<close>
  | PeerUpdateDtr u32
  | PeerNewGatewayRequest "network_t list"
  | PeerNewGatewayResponse network_t u32
  | PeerConnected network_t
  | PeerLost network_t
  | PeerUnknown u32

definition SIBL_ON_START :: u32 where "SIBL_ON_START = 1"
definition SIBL_UPDATE_DTR :: u32 where "SIBL_UPDATE_DTR = 2"
definition SIBL_PROVISION :: u32 where "SIBL_PROVISION = 3"
definition SIBL_SEND_NEW_GATEWAY_REQUEST :: u32 where "SIBL_SEND_NEW_GATEWAY_REQUEST = 4"
definition SIBL_NEW_GATEWAY_WINNER :: u32 where "SIBL_NEW_GATEWAY_WINNER = 5"

definition PEER_HANDSHAKE :: u32 where "PEER_HANDSHAKE = 1"
definition PEER_UPDATE_DTR :: u32 where "PEER_UPDATE_DTR = 2"
definition PEER_NEW_GATEWAY_REQUEST :: u32 where "PEER_NEW_GATEWAY_REQUEST = 3"
definition PEER_NEW_GATEWAY_RESPONSE :: u32 where "PEER_NEW_GATEWAY_RESPONSE = 4"
definition PEER_CONNECTED :: u32 where "PEER_CONNECTED = 5"
definition PEER_LOST :: u32 where "PEER_LOST = 6"

lemmas event_ids = SIBL_ON_START_def SIBL_UPDATE_DTR_def SIBL_PROVISION_def
  SIBL_SEND_NEW_GATEWAY_REQUEST_def SIBL_NEW_GATEWAY_WINNER_def PEER_HANDSHAKE_def
  PEER_UPDATE_DTR_def PEER_NEW_GATEWAY_REQUEST_def PEER_NEW_GATEWAY_RESPONSE_def
  PEER_CONNECTED_def PEER_LOST_def

definition SIZEOF_RT_EVENT :: nat where "SIZEOF_RT_EVENT = 132"

definition event_bytes :: "u32 \<Rightarrow> byte list \<Rightarrow> byte list" where
  "event_bytes i payload = le32 i @ payload @ replicate (SIZEOF_RT_EVENT - 4 - length payload) 0"

fun sibl_event_bytes :: "rt_sibl_event \<Rightarrow> byte list" where
  "sibl_event_bytes SiblOnStart = event_bytes SIBL_ON_START []"
| "sibl_event_bytes (SiblUpdateDtr dtr) = event_bytes SIBL_UPDATE_DTR (le32 dtr)"
| "sibl_event_bytes (SiblProvision provider dtr n) =
     event_bytes SIBL_PROVISION (le16 provider @ le16 dtr @ network_bytes n)"
| "sibl_event_bytes (SiblSendNewGatewayRequest ns) =
     event_bytes SIBL_SEND_NEW_GATEWAY_REQUEST (concat (map network_bytes ns))"
| "sibl_event_bytes (SiblNewGatewayWinner n dtr) =
     event_bytes SIBL_NEW_GATEWAY_WINNER (network_bytes n @ le32 dtr)"
| "sibl_event_bytes (SiblUnknown i) = event_bytes i []"

definition sibl_event_of_bytes :: "byte list \<Rightarrow> rt_sibl_event" where
  "sibl_event_of_bytes bs =
     (let i = un32 bs; p = drop 4 bs
      in if i = SIBL_ON_START then SiblOnStart
         else if i = SIBL_UPDATE_DTR then SiblUpdateDtr (un32 p)
         else if i = SIBL_PROVISION
         then SiblProvision (un16 p) (un16 (drop 2 p)) (network_of_bytes (drop 4 p))
         else if i = SIBL_SEND_NEW_GATEWAY_REQUEST
         then SiblSendNewGatewayRequest (networks_of_bytes HAG_NETWORKS p)
         else if i = SIBL_NEW_GATEWAY_WINNER
         then SiblNewGatewayWinner (network_of_bytes p) (un32 (drop 8 p))
         else SiblUnknown i)"

fun peer_event_bytes :: "rt_peer_event \<Rightarrow> byte list" where
  "peer_event_bytes (PeerHandshake ext prov dtr) =
     event_bytes PEER_HANDSHAKE (network_bytes ext @ network_bytes prov @ le32 dtr)"
| "peer_event_bytes (PeerUpdateDtr dtr) = event_bytes PEER_UPDATE_DTR (le32 dtr)"
| "peer_event_bytes (PeerNewGatewayRequest ns) =
     event_bytes PEER_NEW_GATEWAY_REQUEST (concat (map network_bytes ns))"
| "peer_event_bytes (PeerNewGatewayResponse n dtr) =
     event_bytes PEER_NEW_GATEWAY_RESPONSE (network_bytes n @ le32 dtr)"
| "peer_event_bytes (PeerConnected n) = event_bytes PEER_CONNECTED (network_bytes n)"
| "peer_event_bytes (PeerLost n) = event_bytes PEER_LOST (network_bytes n)"
| "peer_event_bytes (PeerUnknown i) = event_bytes i []"

definition peer_event_of_bytes :: "byte list \<Rightarrow> rt_peer_event" where
  "peer_event_of_bytes bs =
     (let i = un32 bs; p = drop 4 bs
      in if i = PEER_HANDSHAKE
         then PeerHandshake (network_of_bytes p) (network_of_bytes (drop 8 p)) (un32 (drop 16 p))
         else if i = PEER_UPDATE_DTR then PeerUpdateDtr (un32 p)
         else if i = PEER_NEW_GATEWAY_REQUEST
         then PeerNewGatewayRequest (networks_of_bytes HAG_NETWORKS p)
         else if i = PEER_NEW_GATEWAY_RESPONSE
         then PeerNewGatewayResponse (network_of_bytes p) (un32 (drop 8 p))
         else if i = PEER_CONNECTED then PeerConnected (network_of_bytes p)
         else if i = PEER_LOST then PeerLost (network_of_bytes p)
         else PeerUnknown i)"

section \<open>Wire formats\<close>

fun sibl_event_ok :: "rt_sibl_event \<Rightarrow> bool" where
  "sibl_event_ok (SiblSendNewGatewayRequest ns) \<longleftrightarrow> length ns = HAG_NETWORKS"
| "sibl_event_ok (SiblUnknown i) \<longleftrightarrow> i \<notin> {SIBL_ON_START, SIBL_UPDATE_DTR, SIBL_PROVISION,
     SIBL_SEND_NEW_GATEWAY_REQUEST, SIBL_NEW_GATEWAY_WINNER}"
| "sibl_event_ok _ \<longleftrightarrow> True"

fun peer_event_ok :: "rt_peer_event \<Rightarrow> bool" where
  "peer_event_ok (PeerNewGatewayRequest ns) \<longleftrightarrow> length ns = HAG_NETWORKS"
| "peer_event_ok (PeerUnknown i) \<longleftrightarrow> i \<notin> {PEER_HANDSHAKE, PEER_UPDATE_DTR,
     PEER_NEW_GATEWAY_REQUEST, PEER_NEW_GATEWAY_RESPONSE, PEER_CONNECTED, PEER_LOST}"
| "peer_event_ok _ \<longleftrightarrow> True"

lemma event_bytes_simps [simp]:
  "length payload \<le> 128 \<Longrightarrow> length (event_bytes i payload) = SIZEOF_RT_EVENT"
  "un32 (event_bytes i payload) = i"
  "drop 4 (event_bytes i payload) = payload @ replicate (SIZEOF_RT_EVENT - 4 - length payload) 0"
  by (simp_all add: event_bytes_def SIZEOF_RT_EVENT_def)

lemma hag_roundtrip [simp]:
  "length ns = HAG_NETWORKS \<Longrightarrow> networks_of_bytes HAG_NETWORKS (concat (map network_bytes ns) @ bs) = ns"
  using networks_roundtrip [of ns bs] by simp

interpretation sibl_wire: wire_format sibl_event_bytes sibl_event_of_bytes SIZEOF_RT_EVENT sibl_event_ok
proof
  fix e assume ok: "sibl_event_ok e"
  show "length (sibl_event_bytes e) = SIZEOF_RT_EVENT"
    using ok by (cases e) (simp_all add: HAG_NETWORKS_def)
  show "sibl_event_of_bytes (sibl_event_bytes e) = e"
    using ok by (cases e) (simp_all add: sibl_event_of_bytes_def Let_def event_ids)
qed

interpretation peer_wire: wire_format peer_event_bytes peer_event_of_bytes SIZEOF_RT_EVENT peer_event_ok
proof
  fix e assume ok: "peer_event_ok e"
  show "length (peer_event_bytes e) = SIZEOF_RT_EVENT"
    using ok by (cases e) (simp_all add: HAG_NETWORKS_def)
  show "peer_event_of_bytes (peer_event_bytes e) = e"
    using ok by (cases e) (simp_all add: peer_event_of_bytes_def Let_def event_ids)
qed

text \<open>What is read from bytes is always an event that can be sent on.\<close>

lemma decoded_ok [simp]: "sibl_event_ok (sibl_event_of_bytes bs)" "peer_event_ok (peer_event_of_bytes bs)"
  by (simp_all add: sibl_event_of_bytes_def peer_event_of_bytes_def Let_def)

section \<open>Properties\<close>

text \<open>
  An event of the routing protocol takes 132 bytes, of
  whichever kind it is, and the board or the peer that receives them reads the same event, with
  all sixteen networks of a gateway request.
\<close>

lemma routing_events_roundtrip:
  assumes "sibl_event_ok e" "peer_event_ok e'"
  shows "length (sibl_event_bytes e) = 132 \<and> sibl_event_of_bytes (sibl_event_bytes e) = e \<and>
    length (peer_event_bytes e') = 132 \<and> peer_event_of_bytes (peer_event_bytes e') = e'"
  using sibl_wire.length_enc [OF assms(1)] sibl_wire.dec_enc [OF assms(1)]
    peer_wire.length_enc [OF assms(2)] peer_wire.dec_enc [OF assms(2)]
  by (simp add: SIZEOF_RT_EVENT_def)

end
