(* ===== verification/Routing.thy ===== *)
theory Routing
  imports Shared_State Routing_Events
begin

text \<open>
  The routing component (\<open>components/routing/routing\<close>): its state, the handlers of the three roles
  (\<open>root.c\<close>, \<open>home.c\<close>, \<open>forwarder/peer.c\<close>, \<open>forwarder/sibling.c\<close>), the two event queues and their
  dispatch inside the critical section (\<open>routing.c\<close>). The union of role states and the table of
  handler functions are set together, so one datatype stands for both; a null handler is a role
  that leaves the board alone. A computation of a subnet with an undefined shift is \<open>None\<close>.
\<close>

section \<open>State\<close>

datatype local_state = LOCAL_STATE_NOT_CONNECTED | LOCAL_STATE_CONNECTED

datatype global_state = GLOBAL_STATE_WITH_NETWORK | GLOBAL_STATE_WITHOUT_NETWORK
  | GLOBAL_STATE_READY | GLOBAL_STATE_ON_GW_REQUEST

record rt_forwarder_state =
  fw_node_network :: network_t
  fw_device_network :: network_t
  fw_is_local_root :: bool
  fw_local_state :: local_state
  fw_global_state :: global_state
  fw_dtr :: u32

record rt_root_state =
  root_network :: network_t
  gateway_requested :: bool
  gateway_requested_timeout :: u32

record rt_home_state =
  is_provisioned :: bool

datatype rt_role = NoRole | RootRole rt_root_state | HomeRole rt_home_state
  | ForwarderRole rt_forwarder_state

datatype wireless_callbacks = DoNothingCallbacks | RoutingCallbacks

record routing =
  rt_orientation :: u8
  external_queue :: "rt_peer_event list"
  internal_queue :: "rt_sibl_event list"
  rt_role :: rt_role

record rt_sys = ss_sys +
  rt :: routing
  wl_callbacks :: wireless_callbacks

definition MAX_PEER_EVENT_QUEUED :: nat where "MAX_PEER_EVENT_QUEUED = 16"
definition MAX_SIBL_EVENT_QUEUED :: nat where "MAX_SIBL_EVENT_QUEUED = 16"
definition NODE_STARTUP_DELAY_SECONDS :: u32 where "NODE_STARTUP_DELAY_SECONDS = 10"
definition GATEWAY_REQUEST_TIMEOUT :: u32 where "GATEWAY_REQUEST_TIMEOUT = 10000"

lemmas rt_consts = MAX_PEER_EVENT_QUEUED_def MAX_SIBL_EVENT_QUEUED_def
  NODE_STARTUP_DELAY_SECONDS_def GATEWAY_REQUEST_TIMEOUT_def

definition routing_zero :: routing where
  "routing_zero = \<lparr>rt_orientation = 0, external_queue = [], internal_queue = [], rt_role = NoRole\<rparr>"

definition forwarder_start :: rt_forwarder_state where
  "forwarder_start = \<lparr>fw_node_network = NETWORK 0 0, fw_device_network = NETWORK 0 0,
     fw_is_local_root = False, fw_local_state = LOCAL_STATE_NOT_CONNECTED,
     fw_global_state = GLOBAL_STATE_WITHOUT_NETWORK, fw_dtr = 0\<rparr>"

definition upd_rt :: "(routing \<Rightarrow> routing) \<Rightarrow> 'a rt_sys_scheme \<Rightarrow> 'a rt_sys_scheme" where
  "upd_rt f d = d\<lparr>rt := f (rt d)\<rparr>"

text \<open>\<open>GET_STATE\<close> of the three roles.\<close>

definition fw :: "'a rt_sys_scheme \<Rightarrow> rt_forwarder_state" where
  "fw d = (case rt_role (rt d) of ForwarderRole s \<Rightarrow> s | _ \<Rightarrow> forwarder_start)"

definition upd_fw :: "(rt_forwarder_state \<Rightarrow> rt_forwarder_state) \<Rightarrow> 'a rt_sys_scheme \<Rightarrow> 'a rt_sys_scheme" where
  "upd_fw f d = upd_rt (\<lambda>r. r\<lparr>rt_role := ForwarderRole (f (fw d))\<rparr>) d"

definition set_root :: "rt_root_state \<Rightarrow> 'a rt_sys_scheme \<Rightarrow> 'a rt_sys_scheme" where
  "set_root s = upd_rt (\<lambda>r. r\<lparr>rt_role := RootRole s\<rparr>)"

section \<open>What the handlers use\<close>

definition rt_broadcast :: "rt_sibl_event \<Rightarrow> 'a rt_sys_scheme \<Rightarrow> bool \<times> 'a rt_sys_scheme" where
  "rt_broadcast e d = board_broadcast RS_ROUTING (sibl_event_bytes e) d"

definition wl_send_peer_message :: "rt_peer_event \<Rightarrow> 'a rt_sys_scheme \<Rightarrow> bool \<times> 'a rt_sys_scheme" where
  "wl_send_peer_message e d = node_send_wireless_message (peer_event_bytes e) d"

definition wl_enable_ap_mode :: "network_t \<Rightarrow> 'a rt_sys_scheme \<Rightarrow> 'a rt_sys_scheme option" where
  "wl_enable_ap_mode n d = node_set_as_ap (nw_addr n) (nw_mask n) d"

definition add_global_route :: "network_t \<Rightarrow> u8 \<Rightarrow> 'a rt_sys_scheme \<Rightarrow> 'a rt_sys_scheme option" where
  "add_global_route route output d =
     (let (t, full) = routing_table_add (nw_addr route) (nw_mask route) output (node_table d);
          d1 = (if full then board_panic ''Routing table is full'' d else d)
      in ss_refresh RS_ROUTING (d1\<lparr>node_table := t\<rparr>))"

definition remove_routes_by_output :: "u8 \<Rightarrow> 'a rt_sys_scheme \<Rightarrow> 'a rt_sys_scheme option" where
  "remove_routes_by_output output d =
     ss_refresh RS_ROUTING (d\<lparr>node_table := routing_table_remove_by_output output (node_table d)\<rparr>)"

definition own_subnet :: "network_t \<Rightarrow> 'a rt_sys_scheme \<Rightarrow> network_t option" where
  "own_subnet n d = get_node_subnet n (ucast (rt_orientation (rt d)))"

section \<open>The root\<close>

definition root_on_start :: "rt_root_state \<Rightarrow> 'a rt_sys_scheme \<Rightarrow> 'a rt_sys_scheme option" where
  "root_on_start s d =
     do { d1 \<leftarrow> add_global_route (NETWORK 0 0) (rt_orientation (rt d)) d;
          let (ok, d2) = rt_broadcast
            (SiblProvision (ucast ORIENTATION_CENTER) 1 (root_network s)) d1;
          Some (if \<not> ok then board_panic ''Failed to broadcast provision'' d2 else d2) }"

definition root_on_new_gateway_request :: "rt_root_state \<Rightarrow> 'a rt_sys_scheme \<Rightarrow> 'a rt_sys_scheme" where
  "root_on_new_gateway_request s d =
     set_root (s\<lparr>gateway_requested := True, gateway_requested_timeout := GATEWAY_REQUEST_TIMEOUT\<rparr>) d"

definition root_on_tick :: "u32 \<Rightarrow> rt_root_state \<Rightarrow> 'a rt_sys_scheme \<Rightarrow> 'a rt_sys_scheme" where
  "root_on_tick dt_ms s d =
     (if \<not> gateway_requested s then d
      else if dt_ms \<ge> gateway_requested_timeout s
      then snd (rt_broadcast (SiblNewGatewayWinner (root_network s) 1)
             (set_root (s\<lparr>gateway_requested := False, gateway_requested_timeout := 0\<rparr>) d))
      else set_root (s\<lparr>gateway_requested_timeout := gateway_requested_timeout s - dt_ms\<rparr>) d)"

definition create_root_core :: "u32 \<Rightarrow> u32 \<Rightarrow> 'a rt_sys_scheme \<Rightarrow> 'a rt_sys_scheme" where
  "create_root_core network msk d =
     set_root \<lparr>root_network = NETWORK network msk, gateway_requested = False,
       gateway_requested_timeout = 0\<rparr> d"

section \<open>The home\<close>

definition home_on_start :: "'a rt_sys_scheme \<Rightarrow> 'a rt_sys_scheme option" where
  "home_on_start d = ss_refresh RS_ROUTING d"

definition home_on_provision :: "network_t \<Rightarrow> rt_home_state \<Rightarrow> 'a rt_sys_scheme \<Rightarrow> 'a rt_sys_scheme option" where
  "home_on_provision network s d =
     (if is_provisioned s then Some d
      else do { my_subnet \<leftarrow> own_subnet network d;
                d1 \<leftarrow> add_global_route my_subnet (rt_orientation (rt d)) d;
                d2 \<leftarrow> wl_enable_ap_mode my_subnet d1;
                Some (upd_rt (\<lambda>r. r\<lparr>rt_role := HomeRole \<lparr>is_provisioned = True\<rparr>\<rparr>) d2) })"

definition create_home_core :: "'a rt_sys_scheme \<Rightarrow> 'a rt_sys_scheme" where
  "create_home_core = upd_rt (\<lambda>r. r\<lparr>rt_role := HomeRole \<lparr>is_provisioned = False\<rparr>\<rparr>)"

section \<open>The forwarder: events of the peer\<close>

definition fwd_on_peer_connected :: "'a rt_sys_scheme \<Rightarrow> 'a rt_sys_scheme" where
  "fwd_on_peer_connected d =
     (let d1 = upd_fw (\<lambda>s. s\<lparr>fw_local_state := LOCAL_STATE_CONNECTED\<rparr>) d
      in snd (wl_send_peer_message (PeerHandshake (fw_node_network (fw d1))
           (fw_device_network (fw d1)) (fw_dtr (fw d1))) d1))"

definition fwd_on_handshake :: "network_t \<Rightarrow> network_t \<Rightarrow> u32 \<Rightarrow> 'a rt_sys_scheme \<Rightarrow> 'a rt_sys_scheme option" where
  "fwd_on_handshake external provided dtr d =
     (if fw_global_state (fw d) = GLOBAL_STATE_WITHOUT_NETWORK
      then do { subnet \<leftarrow> own_subnet provided d;
                let d1 = upd_fw (\<lambda>s. s\<lparr>fw_dtr := dtr, fw_device_network := subnet,
                           fw_node_network := provided, fw_global_state := GLOBAL_STATE_WITH_NETWORK,
                           fw_is_local_root := True\<rparr>) d;
                let d2 = node_set_network_settings (nw_addr subnet) (nw_mask subnet) d1;
                d3 \<leftarrow> add_global_route (NETWORK 0 0) (rt_orientation (rt d2)) d2;
                Some (snd (rt_broadcast (SiblProvision (ucast (rt_orientation (rt d3)))
                  (ucast (fw_dtr (fw d3) + 1)) (fw_node_network (fw d3))) d3)) }
      else add_global_route external (rt_orientation (rt d)) d)"

definition fwd_on_peer_update_dtr :: "u32 \<Rightarrow> 'a rt_sys_scheme \<Rightarrow> 'a rt_sys_scheme option" where
  "fwd_on_peer_update_dtr peer_dtr d =
     (let my_dtr = fw_dtr (fw d)
      in if peer_dtr = 0 then Some d
         else if my_dtr = 0 \<or> peer_dtr + 1 < my_dtr
         then do { let d1 = upd_fw (\<lambda>s. s\<lparr>fw_dtr := peer_dtr + 1, fw_is_local_root := True\<rparr>) d;
                   d2 \<leftarrow> add_global_route (NETWORK 0 0) (rt_orientation (rt d1)) d1;
                   Some (snd (rt_broadcast (SiblUpdateDtr (peer_dtr + 1)) d2)) }
         else Some d)"

text \<open>The loop tests the first network of the message in every round.\<close>

fun add_hag_routes :: "network_t \<Rightarrow> network_t list \<Rightarrow> 'a rt_sys_scheme \<Rightarrow> 'a rt_sys_scheme option" where
  "add_hag_routes first [] d = Some d"
| "add_hag_routes first (n # ns) d =
     (if nw_addr first = 0 then Some d
      else do { d1 \<leftarrow> add_global_route n (rt_orientation (rt d)) d;
                add_hag_routes first ns d1 })"

definition fwd_on_new_gateway_request :: "network_t list \<Rightarrow> 'a rt_sys_scheme \<Rightarrow> 'a rt_sys_scheme option" where
  "fwd_on_new_gateway_request hag_networks d =
     do { d1 \<leftarrow> add_hag_routes (hd hag_networks) hag_networks d;
          let ev = SiblSendNewGatewayRequest hag_networks;
          if fw_dtr (fw d1) = 1 then Some (snd (rt_broadcast ev d1))
          else if fw_global_state (fw d1) = GLOBAL_STATE_ON_GW_REQUEST then Some d1
          else Some (snd (rt_broadcast ev
            (upd_fw (\<lambda>s. s\<lparr>fw_global_state := GLOBAL_STATE_ON_GW_REQUEST, fw_dtr := 0\<rparr>) d1))) }"

definition fwd_on_new_gateway_response :: "network_t \<Rightarrow> u32 \<Rightarrow> 'a rt_sys_scheme \<Rightarrow> 'a rt_sys_scheme option" where
  "fwd_on_new_gateway_response external peer_dtr d =
     (if fw_dtr (fw d) \<noteq> 0 \<and> fw_dtr (fw d) \<le> peer_dtr then Some d
      else do { let d1 = upd_fw (\<lambda>s. s\<lparr>fw_global_state := GLOBAL_STATE_WITH_NETWORK,
                           fw_is_local_root := True, fw_dtr := peer_dtr + 1\<rparr>) d;
                d2 \<leftarrow> add_global_route (NETWORK 0 0) (rt_orientation (rt d1)) d1;
                Some (snd (rt_broadcast (SiblNewGatewayWinner external (fw_dtr (fw d2))) d2)) })"

text \<open>The networks of the request that is sent when the root is lost are all zero.\<close>

definition fwd_on_peer_lost :: "'a rt_sys_scheme \<Rightarrow> 'a rt_sys_scheme option" where
  "fwd_on_peer_lost d =
     do { let d1 = upd_fw (\<lambda>s. s\<lparr>fw_local_state := LOCAL_STATE_NOT_CONNECTED\<rparr>) d;
          d2 \<leftarrow> remove_routes_by_output (rt_orientation (rt d1)) d1;
          Some (if fw_is_local_root (fw d2)
                then snd (rt_broadcast (SiblSendNewGatewayRequest (replicate HAG_NETWORKS (NETWORK 0 0)))
                  (upd_fw (\<lambda>s. s\<lparr>fw_is_local_root := False, fw_dtr := 0,
                     fw_global_state := GLOBAL_STATE_ON_GW_REQUEST\<rparr>) d2))
                else d2) }"

section \<open>The forwarder: events of the siblings\<close>

definition fwd_on_sibl_update_dtr :: "u32 \<Rightarrow> 'a rt_sys_scheme \<Rightarrow> 'a rt_sys_scheme" where
  "fwd_on_sibl_update_dtr peer_dtr d =
     (if peer_dtr = 0 then d
      else if fw_dtr (fw d) = 0 \<or> peer_dtr < fw_dtr (fw d)
      then let d1 = upd_fw (\<lambda>s. s\<lparr>fw_dtr := peer_dtr, fw_is_local_root := False\<rparr>) d
           in if fw_local_state (fw d1) = LOCAL_STATE_CONNECTED
              then snd (wl_send_peer_message (PeerUpdateDtr (fw_dtr (fw d1))) d1) else d1
      else d)"

definition fwd_on_provision :: "u16 \<Rightarrow> network_t \<Rightarrow> 'a rt_sys_scheme \<Rightarrow> 'a rt_sys_scheme option" where
  "fwd_on_provision dtr network d =
     (if fw_global_state (fw d) = GLOBAL_STATE_WITH_NETWORK then Some d
      else do { subnet \<leftarrow> own_subnet network d;
                let d1 = upd_fw (\<lambda>s. s\<lparr>fw_dtr := ucast dtr, fw_device_network := subnet,
                           fw_node_network := network, fw_global_state := GLOBAL_STATE_WITH_NETWORK,
                           fw_is_local_root := False\<rparr>) d;
                wl_enable_ap_mode subnet d1 })"

definition fwd_on_send_new_gateway_request :: "network_t list \<Rightarrow> 'a rt_sys_scheme \<Rightarrow> 'a rt_sys_scheme" where
  "fwd_on_send_new_gateway_request hag_networks d =
     (if fw_dtr (fw d) = 1 then d
      else if fw_global_state (fw d) = GLOBAL_STATE_ON_GW_REQUEST then d
      else if fw_local_state (fw d) = LOCAL_STATE_NOT_CONNECTED then d
      else case find_free_spot hag_networks of
             None \<Rightarrow> d
           | Some i \<Rightarrow>
               let d1 = upd_fw (\<lambda>s. s\<lparr>fw_global_state := GLOBAL_STATE_ON_GW_REQUEST, fw_dtr := 0\<rparr>) d
               in snd (wl_send_peer_message
                    (PeerNewGatewayRequest (hag_networks[i := fw_node_network (fw d1)])) d1))"

definition fwd_on_new_gateway_winner :: "u32 \<Rightarrow> 'a rt_sys_scheme \<Rightarrow> 'a rt_sys_scheme" where
  "fwd_on_new_gateway_winner dtr d =
     (if fw_dtr (fw d) = 1
      then snd (wl_send_peer_message (PeerNewGatewayResponse (fw_node_network (fw d)) (fw_dtr (fw d))) d)
      else let d1 = upd_fw (\<lambda>s. s\<lparr>fw_global_state := GLOBAL_STATE_WITH_NETWORK,
                      fw_is_local_root := False, fw_dtr := dtr + 1\<rparr>) d
           in snd (wl_send_peer_message
                (PeerNewGatewayResponse (fw_node_network (fw d1)) (fw_dtr (fw d1))) d1))"

definition create_forwarder_core :: "'a rt_sys_scheme \<Rightarrow> 'a rt_sys_scheme" where
  "create_forwarder_core = upd_rt (\<lambda>r. r\<lparr>rt_role := ForwarderRole forwarder_start\<rparr>)"

section \<open>Dispatch inside the critical section\<close>

text \<open>The handler of an event; \<open>Inl\<close> for an event with an unknown number.\<close>

definition sibl_handler :: "rt_sibl_event \<Rightarrow> 'a rt_sys_scheme \<Rightarrow> (u32 + 'a rt_sys_scheme) option" where
  "sibl_handler e d =
     (case e of
        SiblOnStart \<Rightarrow>
          (case rt_role (rt d) of
             RootRole s \<Rightarrow> map_option Inr (root_on_start s d)
           | HomeRole s \<Rightarrow> map_option Inr (home_on_start d)
           | _ \<Rightarrow> Some (Inr d))
      | SiblUpdateDtr dtr \<Rightarrow>
          (case rt_role (rt d) of
             ForwarderRole s \<Rightarrow> Some (Inr (fwd_on_sibl_update_dtr dtr d))
           | _ \<Rightarrow> Some (Inr d))
      | SiblProvision provider dtr network \<Rightarrow>
          (case rt_role (rt d) of
             HomeRole s \<Rightarrow> map_option Inr (home_on_provision network s d)
           | ForwarderRole s \<Rightarrow> map_option Inr (fwd_on_provision dtr network d)
           | _ \<Rightarrow> Some (Inr d))
      | SiblSendNewGatewayRequest ns \<Rightarrow>
          (case rt_role (rt d) of
             RootRole s \<Rightarrow> Some (Inr (root_on_new_gateway_request s d))
           | ForwarderRole s \<Rightarrow> Some (Inr (fwd_on_send_new_gateway_request ns d))
           | _ \<Rightarrow> Some (Inr d))
      | SiblNewGatewayWinner network dtr \<Rightarrow>
          (case rt_role (rt d) of
             ForwarderRole s \<Rightarrow> Some (Inr (fwd_on_new_gateway_winner dtr d))
           | _ \<Rightarrow> Some (Inr d))
      | SiblUnknown i \<Rightarrow> Some (Inl i))"

definition peer_handler :: "rt_peer_event \<Rightarrow> 'a rt_sys_scheme \<Rightarrow> (u32 + 'a rt_sys_scheme) option" where
  "peer_handler e d =
     (case rt_role (rt d) of
        ForwarderRole s \<Rightarrow>
          (case e of
             PeerHandshake ext prov dtr \<Rightarrow> map_option Inr (fwd_on_handshake ext prov dtr d)
           | PeerUpdateDtr dtr \<Rightarrow> map_option Inr (fwd_on_peer_update_dtr dtr d)
           | PeerNewGatewayRequest ns \<Rightarrow> map_option Inr (fwd_on_new_gateway_request ns d)
           | PeerNewGatewayResponse n dtr \<Rightarrow> map_option Inr (fwd_on_new_gateway_response n dtr d)
           | PeerConnected n \<Rightarrow> Some (Inr (fwd_on_peer_connected d))
           | PeerLost n \<Rightarrow> map_option Inr (fwd_on_peer_lost d)
           | PeerUnknown i \<Rightarrow> Some (Inl i))
      | _ \<Rightarrow> (case e of PeerUnknown i \<Rightarrow> Some (Inl i) | _ \<Rightarrow> Some (Inr d)))"

text \<open>A loop over a queue: the flag tells whether it came to its end.\<close>

fun dispatch_events ::
  "('e \<Rightarrow> 'd \<Rightarrow> (u32 + 'd) option) \<Rightarrow> (u32 \<Rightarrow> 'd \<Rightarrow> 'd) \<Rightarrow> 'e list \<Rightarrow> 'd \<Rightarrow> (bool \<times> 'd) option" where
  "dispatch_events h panic [] d = Some (True, d)"
| "dispatch_events h panic (e # es) d =
     (case h e d of
        None \<Rightarrow> None
      | Some (Inl i) \<Rightarrow> Some (False, panic i d)
      | Some (Inr d1) \<Rightarrow> dispatch_events h panic es d1)"

definition on_critical_section :: "'a rt_sys_scheme \<Rightarrow> 'a rt_sys_scheme option" where
  "on_critical_section d =
     do { (more, d1) \<leftarrow> dispatch_events sibl_handler (\<lambda>_. board_panic ''Unknown sibling message'')
            (internal_queue (rt d)) d;
          if \<not> more then Some d1
          else do { (done, d2) \<leftarrow> dispatch_events peer_handler (\<lambda>_. board_panic ''Unknown peer message'')
                      (external_queue (rt d1)) d1;
                    Some (if done then upd_rt (\<lambda>r. r\<lparr>external_queue := [], internal_queue := []\<rparr>) d2
                          else d2) } }"

section \<open>The queues\<close>

definition rt_on_sibling_message :: "byte list \<Rightarrow> 'a rt_sys_scheme \<Rightarrow> 'a rt_sys_scheme option" where
  "rt_on_sibling_message raw d =
     (if length (internal_queue (rt d)) \<ge> MAX_SIBL_EVENT_QUEUED
      then Some (board_panic ''Maximum number of sibling messages queued reached'' d)
      else if length raw \<noteq> SIZEOF_RT_EVENT
      then Some (board_panic ''Invalid sibling message received'' d)
      else sync_request_critical_section RS_ROUTING
             (upd_rt (\<lambda>r. r\<lparr>internal_queue := internal_queue r @ [sibl_event_of_bytes raw]\<rparr>) d))"

definition queue_peer_message :: "rt_peer_event \<Rightarrow> 'a rt_sys_scheme \<Rightarrow> 'a rt_sys_scheme option" where
  "queue_peer_message e d =
     (if length (external_queue (rt d)) \<ge> MAX_PEER_EVENT_QUEUED
      then Some (board_panic ''Maximum number of peer messages queued reached'' d)
      else sync_request_critical_section RS_ROUTING
             (upd_rt (\<lambda>r. r\<lparr>external_queue := external_queue r @ [e]\<rparr>) d))"

definition rt_on_peer_connected :: "u32 \<Rightarrow> u32 \<Rightarrow> 'a rt_sys_scheme \<Rightarrow> 'a rt_sys_scheme option" where
  "rt_on_peer_connected network msk d = queue_peer_message (PeerConnected (NETWORK network msk)) d"

definition rt_on_peer_message :: "byte list \<Rightarrow> 'a rt_sys_scheme \<Rightarrow> 'a rt_sys_scheme option" where
  "rt_on_peer_message raw d =
     (if length raw \<noteq> SIZEOF_RT_EVENT
      then Some (board_panic ''Invalid peer message received'' d)
      else queue_peer_message (peer_event_of_bytes raw) d)"

definition rt_on_peer_lost :: "u32 \<Rightarrow> u32 \<Rightarrow> 'a rt_sys_scheme \<Rightarrow> 'a rt_sys_scheme option" where
  "rt_on_peer_lost network msk d = queue_peer_message (PeerLost (NETWORK network msk)) d"

section \<open>Start and use\<close>

text \<open>The first argument tells whether \<open>mutex_create\<close> succeeds.\<close>

definition rt_create :: "bool \<Rightarrow> u8 \<Rightarrow> 'a rt_sys_scheme \<Rightarrow> bool \<times> 'a rt_sys_scheme" where
  "rt_create mutex_ok ori d =
     (let d1 = d\<lparr>rt := routing_zero, node_table := routing_table_init 0\<rparr>
      in if \<not> mutex_ok then (False, d1)
         else
           let d2 = d1\<lparr>rt := (rt d1)\<lparr>rt_orientation := ori\<rparr>,
                       node_table := routing_table_init ORIENTATION_CENTER,
                       wl_callbacks := RoutingCallbacks,
                       sy := sync_register_critical_section RS_ROUTING
                               (Some RoutingOnCriticalSection) (sy d1)\<rparr>
           in (True, ss_watch RS_ROUTING
                \<lparr>sd_ptr = Some NodeRoutingTable, sd_length = of_nat SIZEOF_ROUTING_TABLE\<rparr> d2))"

definition rt_init_root :: "u32 \<Rightarrow> u32 \<Rightarrow> 'a rt_sys_scheme \<Rightarrow> 'a rt_sys_scheme" where
  "rt_init_root network msk d = create_root_core network msk d"

definition rt_init_home :: "'a rt_sys_scheme \<Rightarrow> 'a rt_sys_scheme" where
  "rt_init_home d = create_home_core d"

definition rt_init_forwarder :: "'a rt_sys_scheme \<Rightarrow> 'a rt_sys_scheme" where
  "rt_init_forwarder d = create_forwarder_core d"

definition rt_on_start :: "'a rt_sys_scheme \<Rightarrow> 'a rt_sys_scheme option" where
  "rt_on_start d =
     (let d1 = upd_rt (\<lambda>r. r\<lparr>internal_queue := [SiblOnStart]\<rparr>) d;
          d2 = d1\<lparr>rsh := rs_register_component RS_ROUTING (Some RoutingOnSibling) (rsh d1)\<rparr>;
          d3 = delay_ms (NODE_STARTUP_DELAY_SECONDS * 1000) d2
      in sync_request_critical_section RS_ROUTING d3)"

datatype rt_routing_result = ROUTE_NONE | ROUTE_SPI | ROUTE_WIFI

definition rt_do_route :: "u32 \<Rightarrow> u32 \<Rightarrow> 'a rt_sys_scheme \<Rightarrow> rt_routing_result" where
  "rt_do_route src_ip dst_ip d =
     (let output = routing_table_route (node_table d) dst_ip
      in if output = rt_orientation (rt d) then ROUTE_WIFI else ROUTE_SPI)"

definition rt_on_tick :: "u32 \<Rightarrow> 'a rt_sys_scheme \<Rightarrow> 'a rt_sys_scheme" where
  "rt_on_tick dt_ms d =
     (case rt_role (rt d) of RootRole s \<Rightarrow> root_on_tick dt_ms s d | _ \<Rightarrow> d)"

end
