(* ===== verification/Routing_Facts.thy ===== *)
theory Routing_Facts
  imports Routing
begin

text \<open>
  What the operations of the routing component leave alone, and the properties of its handlers:
  the queues, the networks of a forwarder, the provisioning of a node, the timer of the root.
\<close>

section \<open>Operations that only use the link\<close>

definition only_link :: "'a sys_scheme \<Rightarrow> 'a sys_scheme \<Rightarrow> bool" where
  "only_link d d' \<longleftrightarrow> d' = d\<lparr>lk := lk d'\<rparr> \<and> link_step (lk d) (lk d')"

named_theorems link_only

lemma only_link_refl [simp, intro]: "only_link d d"
  by (simp add: only_link_def)

lemma only_link_trans: "only_link a b \<Longrightarrow> only_link b c \<Longrightarrow> only_link a c"
  unfolding only_link_def by (metis (no_types, lifting) link_step_trans sys.surjective sys.update_convs(1))

lemma only_link_upd: "link_step (lk d) l \<Longrightarrow> only_link d (d\<lparr>lk := l\<rparr>)"
  by (simp add: only_link_def)

lemma only_link_broadcast [link_only]: "only_link d (snd (board_broadcast c m d))"
  by (cases "rs_broadcast c m (lk d)")
     (auto simp: board_broadcast_def intro!: only_link_upd dest: rs_broadcast_attempts(1))

lemma only_link_panic [link_only]: "only_link d (board_panic m d)"
  by (simp add: board_panic_def only_link_upd)

lemma only_link_rt_broadcast [link_only]: "only_link d (snd (rt_broadcast e d))"
  by (simp add: rt_broadcast_def only_link_broadcast)

lemma only_link_delay [link_only]: "only_link d (delay_ms ms d)"
  by (simp add: delay_ms_def only_link_upd)

lemma only_link_socket_send: "socket_send m d = (ok, d') \<Longrightarrow> only_link d d'"
  by (auto simp: socket_send_def Let_def intro!: only_link_upd link_step_trans [OF link_step_tick link_step_emit])

lemma only_link_send_retry:
  assumes f: "\<And>d ok d'. f d = (ok, d') \<Longrightarrow> only_link d d'" and w: "\<And>d. only_link d (wait d)"
  shows "send_retry n f wait d = (ok, d') \<Longrightarrow> only_link d d'"
proof (induction n arbitrary: d)
  case (Suc n)
  obtain ok1 d1 where 1: "f d = (ok1, d1)" by (cases "f d")
  show ?case
  proof (cases ok1)
    case True
    with Suc.prems 1 f [OF 1] show ?thesis by simp
  next
    case False
    with Suc.prems 1 have "send_retry n f wait (wait d1) = (ok, d')" by simp
    from only_link_trans [OF only_link_trans [OF f [OF 1] w] Suc.IH [OF this]] show ?thesis .
  qed
qed simp

lemma only_link_send [link_only]: "only_link d (snd (wl_send_peer_message e d))"
proof -
  have dev: "only_link x x'" if "device_send_wireless_message m x = (ok, x')" for m ok and x x' :: "'b wifi_sys_scheme"
    using that by (auto simp: device_send_wireless_message_def server_send_message_def
        client_send_message_def intro: only_link_socket_send split: device_mode.splits if_splits)
  obtain ok d' where "send_retry MAX_RETRIES (device_send_wireless_message (peer_event_bytes e))
      (delay_ms RETRY_DELAY_MS) d = (ok, d')"
    by (cases "send_retry MAX_RETRIES (device_send_wireless_message (peer_event_bytes e))
      (delay_ms RETRY_DELAY_MS) d")
  moreover from only_link_send_retry [OF dev only_link_delay this] have "only_link d d'" .
  ultimately show ?thesis
    by (simp add: wl_send_peer_message_def node_send_wireless_message_def)
qed

lemma only_link_refresh: "ss_refresh c d = Some d' \<Longrightarrow> only_link d d'"
  by (auto simp: ss_refresh_def broadcast_data_def Let_def only_link_panic only_link_broadcast
      split: if_splits Option.bind_splits option.splits)

text \<open>The fields of a board that such an operation keeps.\<close>

lemma only_link_fields:
  "only_link d d' \<Longrightarrow> sy d' = sy d"
  "only_link e e' \<Longrightarrow> dev e' = dev e" "only_link e e' \<Longrightarrow> cmgr e' = cmgr e" "only_link e e' \<Longrightarrow> wst e' = wst e"
  "only_link g g' \<Longrightarrow> nd g' = nd g"
  "only_link h h' \<Longrightarrow> rsh h' = rsh h" "only_link h h' \<Longrightarrow> node_table h' = node_table h"
  "only_link h h' \<Longrightarrow> ss h' = ss h"
  "only_link k k' \<Longrightarrow> rt k' = rt k" "only_link k k' \<Longrightarrow> wl_callbacks k' = wl_callbacks k"
  "only_link k k' \<Longrightarrow> rt_sys.more k' = rt_sys.more k" "only_link e e' \<Longrightarrow> pmgr e' = pmgr e"
  "only_link g g' \<Longrightarrow> rmgr g' = rmgr g"
  unfolding only_link_def
  by (metis sys.select_convs(2) sys.surjective sys.update_convs(1), (elim conjE, erule ssubst, simp)+)

section \<open>What the wifi side leaves alone\<close>

text \<open>
  No operation of the wifi side touches the lock, the shared table or the routing state, or sends
  a frame to the ring.
\<close>

declare sent_frames_append [simp]

definition keeps_routing :: "'a rt_sys_scheme \<Rightarrow> 'a rt_sys_scheme \<Rightarrow> bool" where
  "keeps_routing d d' \<longleftrightarrow> sy d' = sy d \<and> rsh d' = rsh d \<and> node_table d' = node_table d \<and>
     ss d' = ss d \<and> rt d' = rt d \<and> wl_callbacks d' = wl_callbacks d \<and> env (lk d') = env (lk d) \<and>
     cmgr d' = cmgr d \<and> pmgr d' = pmgr d \<and> rmgr d' = rmgr d \<and> node_uuid (nd d') = node_uuid (nd d) \<and>
     node_orientation (nd d') = node_orientation (nd d) \<and> rt_sys.more d' = rt_sys.more d \<and>
     sent_frames (trace (lk d')) = sent_frames (trace (lk d))"

named_theorems routing_kept

lemma keeps_routing_refl [simp, routing_kept]: "keeps_routing d d"
  by (simp add: keeps_routing_def)

lemma keeps_routing_trans: "keeps_routing a b \<Longrightarrow> keeps_routing b c \<Longrightarrow> keeps_routing a c"
  by (simp add: keeps_routing_def)

lemma keeps_routing_updates [routing_kept]:
  "keeps_routing a (driver n xs d) = keeps_routing a d"
  "keeps_routing a (delay_ms ms d) = keeps_routing a d"
  "keeps_routing a (upd_dev f d) = keeps_routing a d"
  "keeps_routing a (upd_ap f2 d) = keeps_routing a d"
  "keeps_routing a (upd_st f3 d) = keeps_routing a d"
  "keeps_routing a (upd_wst f4 d) = keeps_routing a d"
  "keeps_routing a (upd_nd (\<lambda>n. n\<lparr>node_subnet := s, node_mask := m\<rparr>) d) = keeps_routing a d"
  "keeps_routing a (upd_nd (\<lambda>n. n\<lparr>node_is_apsta := y\<rparr>) d) = keeps_routing a d"
  "keeps_routing a (d\<lparr>remote_server := b\<rparr>) = keeps_routing a d"
  by (simp_all add: keeps_routing_def board_updates upd_nd_def vTaskDelay_ms_def)

lemma keeps_routing_if [routing_kept]:
  "keeps_routing a (if b then x else y) = (if b then keeps_routing a x else keeps_routing a y)"
  by simp

lemma keeps_routing_ap [routing_kept]:
  "keeps_routing a (ap_init ch ssid pw mc ctr apsta d) = keeps_routing a d"
  "keeps_routing a (ap_start d) = keeps_routing a d"
  "keeps_routing a (ap_stop d) = keeps_routing a d"
  "keeps_routing a (ap_set_network ip gw m d) = keeps_routing a d"
  "keeps_routing a (ap_destroy_netif d) = keeps_routing a d"
  "keeps_routing a (client_close d) = keeps_routing a d"
  "keeps_routing a (im_http_client_start d) = keeps_routing a d"
  "keeps_routing a (remote_command_server_create d) = keeps_routing a d"
  "keeps_routing a (station_init x1 x2 x3 x4 x5 d) = keeps_routing a d"
  "keeps_routing a (station_start d) = keeps_routing a d"
  "keeps_routing a (station_stop d) = keeps_routing a d"
  "keeps_routing a (station_disconnect d) = keeps_routing a d"
  "keeps_routing a (station_destroy_netif d) = keeps_routing a d"
  by (simp_all add: ap_init_def ap_start_def ap_stop_def ap_set_network_def ap_destroy_netif_def
      client_close_def im_http_client_start_def remote_command_server_create_def station_init_def
      station_start_def station_stop_def station_disconnect_def station_destroy_netif_def
      Let_def routing_kept)

lemma keeps_routing_device [routing_kept]:
  "keeps_routing a (device_start_ap d) = keeps_routing a d"
  "keeps_routing a (device_start_station d) = keeps_routing a d"
  "keeps_routing a (device_stop_station_task d) = keeps_routing a d"
  "keeps_routing a (device_disconnect_station d) = keeps_routing a d"
  "keeps_routing a (device_connect_station d) = keeps_routing a d"
  "keeps_routing a (device_set_network_ap ip gw m d) = keeps_routing a d"
  "keeps_routing a (device_set_max_tx_power pw d) = keeps_routing a d"
  "keeps_routing a (node_set_network_settings n m d) = keeps_routing a d"
  "keeps_routing a (orientation_delay d) = keeps_routing a d"
  by (simp_all add: device_start_ap_def device_start_station_def device_stop_station_task_def
      device_disconnect_station_def device_connect_station_def device_set_network_ap_def
      device_set_max_tx_power_def node_set_network_settings_def orientation_delay_def
      Let_def routing_kept)

lemma keeps_routing_reset [routing_kept]:
  "keeps_routing a (device_destroy_netif d) = keeps_routing a d"
  "keeps_routing a (device_reset d) = keeps_routing a d"
  by (simp_all add: device_destroy_netif_def device_reset_def Let_def routing_kept split: device_mode.splits)

lemma keeps_routing_init:
  "device_init uuid ori prefix pw ch mc root apsta mode d = Some d' \<Longrightarrow> keeps_routing a d' = keeps_routing a d"
  by (auto simp: device_init_def device_init_ap_def device_init_station_def Let_def routing_kept
      split: device_mode.splits if_splits Option.bind_splits)

lemma keeps_routing_channel:
  "cm_get_suggested_channel cm l = (c, l') \<Longrightarrow> env l' = env l \<and> sent_frames (trace l') = sent_frames (trace l)"
  by (auto simp: cm_get_suggested_channel_def split: if_splits)

lemma node_set_as_ap_keeps:
  assumes "node_set_as_ap n m d = Some d'"
  shows "keeps_routing d d'"
proof -
  define d0 where "d0 = (if dev_mode (dev d) \<noteq> NAN then device_reset d else d)"
  have 0: "keeps_routing d d0" by (simp add: d0_def routing_kept)
  obtain ch l where c: "cm_get_suggested_channel (cmgr (node_set_network_settings n m d0))
      (lk (node_set_network_settings n m d0)) = (ch, l)"
    by (cases "cm_get_suggested_channel (cmgr (node_set_network_settings n m d0))
      (lk (node_set_network_settings n m d0))")
  define d2 where "d2 = (node_set_network_settings n m d0)\<lparr>lk := l\<rparr>"
  have 2: "keeps_routing d d2"
    using 0 keeps_routing_channel [OF c]
    by (simp add: d2_def keeps_routing_def node_set_network_settings_def upd_nd_def)
  from assms show ?thesis
    unfolding node_set_as_ap_def Let_def d0_def [symmetric] c
    using 2 by (auto simp: d2_def [symmetric] routing_kept dest!: keeps_routing_init [where a = d]
        split: prod.splits Option.bind_splits if_splits)
qed

section \<open>Routes that are added and removed\<close>

lemma only_link_env: "only_link d d' \<Longrightarrow> env (lk d') = env (lk d)"
  by (simp add: only_link_def link_step_def)

lemma add_route_result:
  assumes "add_global_route n out d = Some d'"
  shows "rt d' = rt d" "node_table d' = fst (routing_table_add (nw_addr n) (nw_mask n) out (node_table d))"
    "sy d' = sy d" "ss d' = ss d" "rsh d' = rsh d" "nd d' = nd d" "env (lk d') = env (lk d)" "dev d' = dev d"
    "wl_callbacks d' = wl_callbacks d" "cmgr d' = cmgr d" "pmgr d' = pmgr d" "rt_sys.more d' = rt_sys.more d"
    "rmgr d' = rmgr d"
proof -
  obtain t full where r: "routing_table_add (nw_addr n) (nw_mask n) out (node_table d) = (t, full)"
    by (cases "routing_table_add (nw_addr n) (nw_mask n) out (node_table d)")
  define d1 where "d1 = (if full then board_panic ''Routing table is full'' d else d)"
  have 1: "only_link d d1" by (simp add: d1_def link_only)
  have 2: "only_link (d1\<lparr>node_table := t\<rparr>) d'"
    using assms r by (auto simp: add_global_route_def d1_def Let_def intro!: only_link_refresh)
  note A = only_link_fields [OF 1] and B = only_link_fields [OF 2]
  show "rt d' = rt d" using A(9) B(9) by simp
  show "node_table d' = fst (routing_table_add (nw_addr n) (nw_mask n) out (node_table d))"
    using B(7) by (simp add: r)
  show "sy d' = sy d" using A(1) B(1) by simp
  show "ss d' = ss d" using A(8) B(8) by simp
  show "rsh d' = rsh d" using A(6) B(6) by simp
  show "nd d' = nd d" using A(5) B(5) by simp
  show "dev d' = dev d" using A(2) B(2) by simp
  show "wl_callbacks d' = wl_callbacks d" using A(10) B(10) by simp
  show "cmgr d' = cmgr d" using A(3) B(3) by simp
  show "pmgr d' = pmgr d" using A(12) B(12) by simp
  show "rmgr d' = rmgr d" using A(13) B(13) by simp
  show "rt_sys.more d' = rt_sys.more d" using A(11) B(11) by simp
  show "env (lk d') = env (lk d)" using only_link_env [OF 1] only_link_env [OF 2] by simp
qed

lemma remove_routes_result:
  assumes "remove_routes_by_output out d = Some d'"
  shows "rt d' = rt d" "node_table d' = routing_table_remove_by_output out (node_table d)"
    "sy d' = sy d" "ss d' = ss d" "rsh d' = rsh d" "env (lk d') = env (lk d)" "wl_callbacks d' = wl_callbacks d"
    "cmgr d' = cmgr d" "pmgr d' = pmgr d" "rt_sys.more d' = rt_sys.more d"
    "rmgr d' = rmgr d" "nd d' = nd d"
proof -
  have 2: "only_link (d\<lparr>node_table := routing_table_remove_by_output out (node_table d)\<rparr>) d'"
    using assms by (auto simp: remove_routes_by_output_def intro!: only_link_refresh)
  note B = only_link_fields [OF 2]
  show "rt d' = rt d" using B(9) by simp
  show "node_table d' = routing_table_remove_by_output out (node_table d)" using B(7) by simp
  show "sy d' = sy d" using B(1) by simp
  show "ss d' = ss d" using B(8) by simp
  show "rsh d' = rsh d" using B(6) by simp
  show "wl_callbacks d' = wl_callbacks d" using B(10) by simp
  show "cmgr d' = cmgr d" using B(3) by simp
  show "pmgr d' = pmgr d" using B(12) by simp
  show "rmgr d' = rmgr d" using B(13) by simp
  show "nd d' = nd d" using B(5) by simp
  show "rt_sys.more d' = rt_sys.more d" using B(11) by simp
  show "env (lk d') = env (lk d)" using only_link_env [OF 2] by simp
qed

lemma upd_fw_simps [simp]:
  "fw (upd_fw f d) = f (fw d)" "node_table (upd_fw f d) = node_table d" "sy (upd_fw f d) = sy d"
  "ss (upd_fw f d) = ss d" "lk (upd_fw f d) = lk d" "nd (upd_fw f d) = nd d" "rsh (upd_fw f d) = rsh d"
  "rt_orientation (rt (upd_fw f d)) = rt_orientation (rt d)"
  "external_queue (rt (upd_fw f d)) = external_queue (rt d)"
  "internal_queue (rt (upd_fw f d)) = internal_queue (rt d)"
  "rt_role (rt (upd_fw f d)) = ForwarderRole (f (fw d))"
  by (simp_all add: upd_fw_def upd_rt_def fw_def)

lemma fw_cong: "rt d' = rt d \<Longrightarrow> fw d' = fw d"
  by (simp add: fw_def)

lemma only_link_send_fields [simp]:
  "rt (snd (wl_send_peer_message e d)) = rt d" "node_table (snd (wl_send_peer_message e d)) = node_table d"
  "rt (snd (rt_broadcast s d)) = rt d" "node_table (snd (rt_broadcast s d)) = node_table d"
  "fw (snd (wl_send_peer_message e d)) = fw d" "fw (snd (rt_broadcast s d)) = fw d"
  using only_link_fields(7,9) [OF only_link_send [of d e]] only_link_fields(7,9) [OF only_link_rt_broadcast [of d s]]
  by (simp_all add: fw_def)

lemma hag_routes_result:
  "add_hag_routes first ns d = Some d' \<Longrightarrow> rt d' = rt d \<and> (table_wf (node_table d) \<longrightarrow> table_wf (node_table d'))"
proof (induction ns arbitrary: d)
  case (Cons n ns)
  show ?case
  proof (cases "nw_addr first = 0")
    case False
    with Cons.prems obtain d1 where d1: "add_global_route n (rt_orientation (rt d)) d = Some d1"
      "add_hag_routes first ns d1 = Some d'" by (auto split: Option.bind_splits)
    from Cons.IH [OF d1(2)] add_route_result(1,2) [OF d1(1)] show ?thesis
      by (simp add: table_wf_add)
  qed (use Cons.prems in simp)
qed simp

section \<open>The networks of a forwarder\<close>

text \<open>
  A forwarder that is not provisioned has no network; one that is has the block of its node's
  network that belongs to its orientation, or still none when a gateway message came first.
\<close>

definition networks_ok :: "u8 \<Rightarrow> rt_forwarder_state \<Rightarrow> bool" where
  "networks_ok ori s \<longleftrightarrow> fw_global_state s \<noteq> GLOBAL_STATE_READY \<and>
     (get_node_subnet (fw_node_network s) (ucast ori) = Some (fw_device_network s) \<and>
        fw_global_state s \<noteq> GLOBAL_STATE_WITHOUT_NETWORK \<or>
      fw_node_network s = NETWORK 0 0 \<and> fw_device_network s = NETWORK 0 0)"

text \<open>What every event keeps of a forwarder.\<close>

definition forwarder_ok :: "u8 \<Rightarrow> 'a rt_sys_scheme \<Rightarrow> bool" where
  "forwarder_ok ori d \<longleftrightarrow> (\<exists>s. rt_role (rt d) = ForwarderRole s \<and> networks_ok ori s) \<and>
     rt_orientation (rt d) = ori \<and> table_wf (node_table d)"

lemma forwarder_okD:
  assumes "forwarder_ok ori d"
  shows "networks_ok ori (fw d)" "rt_role (rt d) = ForwarderRole (fw d)" "rt_orientation (rt d) = ori"
    "table_wf (node_table d)"
  using assms by (auto simp: forwarder_ok_def fw_def)

lemma forwarder_ok_cong:
  "rt d' = rt d \<Longrightarrow> table_wf (node_table d') = table_wf (node_table d) \<Longrightarrow>
   forwarder_ok ori d' = forwarder_ok ori d"
  by (simp add: forwarder_ok_def)

lemma forwarder_ok_upd:
  "forwarder_ok ori d \<Longrightarrow> networks_ok ori (f (fw d)) \<Longrightarrow> forwarder_ok ori (upd_fw f d)"
  by (simp add: forwarder_ok_def)

lemma forwarder_ok_send [simp]:
  "forwarder_ok ori (snd (wl_send_peer_message e d)) = forwarder_ok ori d"
  "forwarder_ok ori (snd (rt_broadcast s d)) = forwarder_ok ori d"
  by (rule forwarder_ok_cong; simp)+

lemma forwarder_ok_add:
  "add_global_route n out d = Some d' \<Longrightarrow> forwarder_ok ori d \<longrightarrow> forwarder_ok ori d'"
  using add_route_result(1,2) [of n out d d'] by (simp add: forwarder_ok_def table_wf_add)

lemma forwarder_ok_remove:
  "remove_routes_by_output out d = Some d' \<Longrightarrow> forwarder_ok ori d \<longrightarrow> forwarder_ok ori d'"
  using remove_routes_result(1,2) [of out d d'] by (simp add: forwarder_ok_def table_wf_remove)

lemma forwarder_ok_hag:
  "add_hag_routes first ns d = Some d' \<Longrightarrow> forwarder_ok ori d \<longrightarrow> forwarder_ok ori d'"
  using hag_routes_result [of first ns d d'] by (simp add: forwarder_ok_def)

lemma forwarder_ok_ap:
  "wl_enable_ap_mode n d = Some d' \<Longrightarrow> forwarder_ok ori d \<longrightarrow> forwarder_ok ori d'"
  using node_set_as_ap_keeps [of "nw_addr n" "nw_mask n" d d']
  by (simp add: forwarder_ok_def wl_enable_ap_mode_def keeps_routing_def)

section \<open>The handlers\<close>

text \<open>No handler touches the queues; an event is refused exactly when its number is unknown.\<close>

definition queues :: "routing \<Rightarrow> rt_sibl_event list \<times> rt_peer_event list \<times> u8" where
  "queues r = (internal_queue r, external_queue r, rt_orientation r)"

lemma queues_upd [simp]:
  "queues (rt (upd_fw f d)) = queues (rt d)" "queues (rt (set_root s d)) = queues (rt d)"
  "queues (rt (upd_rt (\<lambda>r. r\<lparr>rt_role := x\<rparr>) d)) = queues (rt d)"
  "queues (rt (node_set_network_settings n m d)) = queues (rt d)"
  by (simp_all add: queues_def set_root_def upd_rt_def node_set_network_settings_def upd_nd_def)

lemma queues_add: "add_global_route n out d = Some d' \<Longrightarrow> queues (rt d') = queues (rt d)"
  using add_route_result(1) [of n out d d'] by simp

lemma queues_remove: "remove_routes_by_output out d = Some d' \<Longrightarrow> queues (rt d') = queues (rt d)"
  using remove_routes_result(1) [of out d d'] by simp

lemma queues_hag: "add_hag_routes first ns d = Some d' \<Longrightarrow> queues (rt d') = queues (rt d)"
  using hag_routes_result [of first ns d d'] by simp

lemma queues_ap: "wl_enable_ap_mode n d = Some d' \<Longrightarrow> queues (rt d') = queues (rt d)"
  using node_set_as_ap_keeps [of "nw_addr n" "nw_mask n" d d']
  by (simp add: wl_enable_ap_mode_def keeps_routing_def)

lemma queues_refresh: "ss_refresh c d = Some d' \<Longrightarrow> queues (rt d') = queues (rt d)"
  using only_link_fields(9) [OF only_link_refresh] by metis

lemma queues_panic [simp]: "queues (rt (board_panic m d)) = queues (rt d)"
  by (simp add: board_panic_def)

lemmas queues_calls = queues_add queues_remove queues_hag queues_ap queues_refresh

lemma sibl_handler_queues:
  "sibl_handler e d = Some (Inr d') \<Longrightarrow> queues (rt d') = queues (rt d)"
  by (cases e; cases "rt_role (rt d)")
     (auto simp: sibl_handler_def root_on_start_def home_on_start_def home_on_provision_def
       root_on_new_gateway_request_def fwd_on_sibl_update_dtr_def fwd_on_provision_def
       fwd_on_send_new_gateway_request_def fwd_on_new_gateway_winner_def Let_def case_prod_unfold
       dest!: queues_calls split: if_splits Option.bind_splits option.splits)

lemma peer_handler_queues:
  "peer_handler e d = Some (Inr d') \<Longrightarrow> queues (rt d') = queues (rt d)"
  by (cases e; cases "rt_role (rt d)")
     (auto simp: peer_handler_def fwd_on_peer_connected_def fwd_on_handshake_def
       fwd_on_peer_update_dtr_def fwd_on_new_gateway_request_def fwd_on_new_gateway_response_def
       fwd_on_peer_lost_def Let_def dest!: queues_calls split: if_splits Option.bind_splits)

fun known_sibl :: "rt_sibl_event \<Rightarrow> bool" where
  "known_sibl (SiblUnknown i) \<longleftrightarrow> False" | "known_sibl _ \<longleftrightarrow> True"

fun known_peer :: "rt_peer_event \<Rightarrow> bool" where
  "known_peer (PeerUnknown i) \<longleftrightarrow> False" | "known_peer _ \<longleftrightarrow> True"

lemma sibl_handler_known: "sibl_handler e d = Some r \<Longrightarrow> isl r \<longleftrightarrow> \<not> known_sibl e"
  by (cases e) (auto simp: sibl_handler_def split: rt_role.splits)

lemma peer_handler_known: "peer_handler e d = Some r \<Longrightarrow> isl r \<longleftrightarrow> \<not> known_peer e"
  by (cases e) (auto simp: peer_handler_def split: rt_role.splits)

text \<open>The loop over a queue, for handlers of this kind.\<close>

lemma dispatch_result:
  assumes h: "\<And>e d r. h e d = Some r \<Longrightarrow> isl r \<longleftrightarrow> \<not> known e"
    and q: "\<And>e d d'. h e d = Some (Inr d') \<Longrightarrow> queues (rt d') = queues (rt d)"
    and p: "\<And>i d. queues (rt (panic i d)) = queues (rt d)"
  shows "dispatch_events h panic es d = Some (ok, d') \<Longrightarrow>
    queues (rt d') = queues (rt d) \<and> (ok \<longleftrightarrow> (\<forall>e \<in> set es. known e))"
proof (induction es arbitrary: d)
  case (Cons e es)
  then obtain r where r: "h e d = Some r" by (auto split: option.splits)
  show ?case
  proof (cases r)
    case (Inl i)
    with Cons.prems r h [OF r] p show ?thesis by auto
  next
    case (Inr d1)
    with Cons.prems r have "dispatch_events h panic es d1 = Some (ok, d')" by simp
    from Cons.IH [OF this] h [OF r] q [of e d d1] r Inr show ?thesis by simp
  qed
qed simp

lemma forwarder_ok_settings:
  "forwarder_ok ori (node_set_network_settings n m d) = forwarder_ok ori d"
  by (simp add: forwarder_ok_def node_set_network_settings_def upd_nd_def)

lemmas forwarder_ok_calls = forwarder_ok_add forwarder_ok_remove forwarder_ok_hag forwarder_ok_ap

lemma own_subnet_ok: "forwarder_ok ori d \<Longrightarrow> own_subnet n d = get_node_subnet n (ucast ori)"
  by (simp add: own_subnet_def forwarder_ok_def)

lemma forwarder_ok_updates:
  assumes "forwarder_ok ori d"
  shows "forwarder_ok ori (upd_fw (\<lambda>s. s\<lparr>fw_local_state := x\<rparr>) d)"
    "forwarder_ok ori (upd_fw (\<lambda>s. s\<lparr>fw_dtr := y, fw_is_local_root := b\<rparr>) d)"
    "forwarder_ok ori (upd_fw (\<lambda>s. s\<lparr>fw_global_state := GLOBAL_STATE_ON_GW_REQUEST, fw_dtr := y\<rparr>) d)"
    "forwarder_ok ori (upd_fw (\<lambda>s. s\<lparr>fw_is_local_root := b, fw_dtr := y,
       fw_global_state := GLOBAL_STATE_ON_GW_REQUEST\<rparr>) d)"
    "forwarder_ok ori (upd_fw (\<lambda>s. s\<lparr>fw_global_state := GLOBAL_STATE_WITH_NETWORK,
       fw_is_local_root := b, fw_dtr := y\<rparr>) d)"
    "get_node_subnet n (ucast ori) = Some m \<Longrightarrow>
     forwarder_ok ori (upd_fw (\<lambda>s. s\<lparr>fw_dtr := y, fw_device_network := m, fw_node_network := n,
       fw_global_state := GLOBAL_STATE_WITH_NETWORK, fw_is_local_root := b\<rparr>) d)"
  using assms forwarder_okD(1) [OF assms] by (simp_all add: forwarder_ok_def networks_ok_def) auto

lemma sibl_handler_forwarder:
  assumes ok: "forwarder_ok ori d" and h: "sibl_handler e d = Some (Inr d')"
  shows "forwarder_ok ori d'"
  using h ok
  by (cases e)
     (auto simp: sibl_handler_def forwarder_okD(2) [OF ok] own_subnet_ok [OF ok]
       fwd_on_sibl_update_dtr_def fwd_on_provision_def fwd_on_send_new_gateway_request_def
       fwd_on_new_gateway_winner_def Let_def
       forwarder_ok_updates dest!: forwarder_ok_calls [where ori = ori] split: if_splits Option.bind_splits option.splits)

lemma peer_handler_forwarder:
  assumes ok: "forwarder_ok ori d" and h: "peer_handler e d = Some (Inr d')"
  shows "forwarder_ok ori d'"
  using h ok
  by (cases e)
     (auto simp: peer_handler_def forwarder_okD(2) [OF ok] own_subnet_ok [OF ok]
       fwd_on_peer_connected_def fwd_on_handshake_def fwd_on_peer_update_dtr_def
       fwd_on_new_gateway_request_def fwd_on_new_gateway_response_def fwd_on_peer_lost_def Let_def
       forwarder_ok_settings
       forwarder_ok_updates dest!: forwarder_ok_calls [where ori = ori] split: if_splits Option.bind_splits)

section \<open>Runs of a board\<close>

text \<open>
  What happens to the routing component of a board, in any order. A critical section is the
  callback that the lock runs, inside of the section; a shared table comes from a sibling, whose
  table is well formed.
\<close>

datatype rt_op = SiblingMessage "byte list" | PeerMessage "byte list" | PeerUp u32 u32
  | PeerDown u32 u32 | SharedTable rt_routing_table | CriticalSection | Tick u32

fun rt_step :: "rt_op \<Rightarrow> 'a rt_sys_scheme \<Rightarrow> 'a rt_sys_scheme option" where
  "rt_step (SiblingMessage raw) d = rt_on_sibling_message raw d"
| "rt_step (PeerMessage raw) d = rt_on_peer_message raw d"
| "rt_step (PeerUp n m) d = rt_on_peer_connected n m d"
| "rt_step (PeerDown n m) d = rt_on_peer_lost n m d"
| "rt_step (SharedTable t) d =
     (if table_wf t then ss_on_sibling_message (component_byte RS_ROUTING # table_bytes 0 t) d else Some d)"
| "rt_step CriticalSection d = run_callback (\<lambda>_. on_critical_section) (component_num RS_ROUTING) d"
| "rt_step (Tick dt) d = Some (rt_on_tick dt d)"

fun rt_run :: "rt_op list \<Rightarrow> 'a rt_sys_scheme \<Rightarrow> 'a rt_sys_scheme option" where
  "rt_run [] d = Some d"
| "rt_run (op # ops) d = do { d1 \<leftarrow> rt_step op d; rt_run ops d1 }"

lemma request_keeps:
  assumes "sync_request_critical_section c d = Some d'"
  shows "rt d' = rt d" "node_table d' = node_table d" "ss d' = ss d" "rsh d' = rsh d"
proof -
  have b: "rt (sync_broadcast m x) = rt x \<and> node_table (sync_broadcast m x) = node_table x \<and>
      ss (sync_broadcast m x) = ss x \<and> rsh (sync_broadcast m x) = rsh x" for m and x :: "'a rt_sys_scheme"
    by (simp add: sync_broadcast_def board_broadcast_def case_prod_unfold Let_def)
  show "rt d' = rt d" "node_table d' = node_table d" "ss d' = ss d" "rsh d' = rsh d"
    using assms
    by (auto simp: sync_request_critical_section_def leader_request_critical_section_def b
        follower_request_critical_section_def issue_new_token_def on_leader_def Let_def
        split: sync_impl.splits if_splits Option.bind_splits)
qed

definition queues_bounded :: "'a rt_sys_scheme \<Rightarrow> bool" where
  "queues_bounded d \<longleftrightarrow> length (internal_queue (rt d)) \<le> MAX_SIBL_EVENT_QUEUED \<and>
     length (external_queue (rt d)) \<le> MAX_PEER_EVENT_QUEUED"

lemma queues_bounded_panic [simp]: "queues_bounded (board_panic m d) = queues_bounded d"
  by (simp add: queues_bounded_def board_panic_def)

lemma forwarder_ok_panic [simp]: "forwarder_ok ori (board_panic m d) = forwarder_ok ori d"
  by (simp add: forwarder_ok_def board_panic_def)

lemma forwarder_ok_queue [simp]:
  "forwarder_ok ori (upd_rt (\<lambda>r. r\<lparr>internal_queue := f r\<rparr>) d) = forwarder_ok ori d"
  "forwarder_ok ori (upd_rt (\<lambda>r. r\<lparr>external_queue := g r\<rparr>) d) = forwarder_ok ori d"
  "forwarder_ok ori (upd_rt (\<lambda>r. r\<lparr>external_queue := g r, internal_queue := f r\<rparr>) d) = forwarder_ok ori d"
  by (simp_all add: forwarder_ok_def upd_rt_def)

lemma forwarder_ok_request:
  "sync_request_critical_section c d = Some d' \<Longrightarrow> forwarder_ok ori d' = forwarder_ok ori d"
  using request_keeps [of c d d'] by (simp add: forwarder_ok_def)

lemma dispatch_forwarder:
  assumes h: "\<And>e d d'. forwarder_ok ori d \<Longrightarrow> h e d = Some (Inr d') \<Longrightarrow> forwarder_ok ori d'"
    and p: "\<And>i d. forwarder_ok ori (panic i d) = forwarder_ok ori d"
  shows "dispatch_events h panic es d = Some (ok, d') \<Longrightarrow> forwarder_ok ori d \<Longrightarrow> forwarder_ok ori d'"
proof (induction es arbitrary: d)
  case (Cons e es)
  then obtain r where r: "h e d = Some r" by (auto split: option.splits)
  with Cons h [of d e] p show ?case by (cases r) auto
qed simp

lemma sibl_dispatch:
  assumes "dispatch_events sibl_handler (\<lambda>_. board_panic m) es d = Some (ok, d')"
  shows "queues (rt d') = queues (rt d)" "ok \<longleftrightarrow> (\<forall>e \<in> set es. known_sibl e)"
    "forwarder_ok ori d \<Longrightarrow> forwarder_ok ori d'"
  using dispatch_result [OF sibl_handler_known sibl_handler_queues _ assms]
    dispatch_forwarder [OF sibl_handler_forwarder _ assms] by simp_all

lemma peer_dispatch:
  assumes "dispatch_events peer_handler (\<lambda>_. board_panic m) es d = Some (ok, d')"
  shows "queues (rt d') = queues (rt d)" "ok \<longleftrightarrow> (\<forall>e \<in> set es. known_peer e)"
    "forwarder_ok ori d \<Longrightarrow> forwarder_ok ori d'"
  using dispatch_result [OF peer_handler_known peer_handler_queues _ assms]
    dispatch_forwarder [OF peer_handler_forwarder _ assms] by simp_all

lemma critical_section_queues:
  assumes "on_critical_section d = Some d'"
  shows "queues (rt d') = (if (\<forall>e \<in> set (internal_queue (rt d)). known_sibl e) \<and>
      (\<forall>e \<in> set (external_queue (rt d)). known_peer e)
    then ([], [], rt_orientation (rt d)) else queues (rt d))"
proof -
  obtain more d1 where 1: "dispatch_events sibl_handler (\<lambda>_. board_panic ''Unknown sibling message'')
      (internal_queue (rt d)) d = Some (more, d1)"
    using assms by (auto simp: on_critical_section_def split: Option.bind_splits)
  note S = sibl_dispatch(1,2) [OF 1]
  show ?thesis
  proof (cases more)
    case False
    with assms 1 S show ?thesis by (auto simp: on_critical_section_def)
  next
    case True
    then obtain fin d2 where 2: "dispatch_events peer_handler (\<lambda>_. board_panic ''Unknown peer message'')
        (external_queue (rt d1)) d1 = Some (fin, d2)"
      using assms 1 by (auto simp: on_critical_section_def split: Option.bind_splits)
    note P = peer_dispatch(1,2) [OF 2]
    have e: "external_queue (rt d1) = external_queue (rt d)" "rt_orientation (rt d2) = rt_orientation (rt d)"
      using S(1) P(1) by (simp_all add: queues_def)
    have "d' = (if fin then upd_rt (\<lambda>r. r\<lparr>external_queue := [], internal_queue := []\<rparr>) d2 else d2)"
      using assms 1 2 True by (auto simp: on_critical_section_def)
    with S P True e show ?thesis by (auto simp: queues_def upd_rt_def)
  qed
qed

lemma critical_section_forwarder:
  assumes "on_critical_section d = Some d'" "forwarder_ok ori d"
  shows "forwarder_ok ori d'"
proof -
  obtain more d1 where 1: "dispatch_events sibl_handler (\<lambda>_. board_panic ''Unknown sibling message'')
      (internal_queue (rt d)) d = Some (more, d1)"
    using assms by (auto simp: on_critical_section_def split: Option.bind_splits)
  note ok1 = sibl_dispatch(3) [OF 1 assms(2)]
  show ?thesis
  proof (cases more)
    case False
    with assms(1) 1 ok1 show ?thesis by (auto simp: on_critical_section_def)
  next
    case True
    then obtain fin d2 where 2: "dispatch_events peer_handler (\<lambda>_. board_panic ''Unknown peer message'')
        (external_queue (rt d1)) d1 = Some (fin, d2)"
      using assms 1 by (auto simp: on_critical_section_def split: Option.bind_splits)
    from peer_dispatch(3) [OF 2 ok1] assms(1) 1 2 True show ?thesis
      by (auto simp: on_critical_section_def split: if_splits)
  qed
qed

text \<open>The callback of the section, with the mark of the lock around it.\<close>

lemma set_inside_keeps:
  "set_inside cs b d = Some d' \<Longrightarrow> forwarder_ok ori d' = forwarder_ok ori d \<and> queues_bounded d' = queues_bounded d"
  by (auto simp: set_inside_def forwarder_ok_def queues_bounded_def split: Option.bind_splits)

lemma section_callback_forwarder:
  assumes "run_callback (\<lambda>_. on_critical_section) cs d = Some d'" "forwarder_ok ori d" "queues_bounded d"
  shows "forwarder_ok ori d' \<and> queues_bounded d'"
proof -
  have run: "forwarder_ok ori d2 \<and> queues_bounded d2"
    if "on_critical_section d1 = Some d2" "forwarder_ok ori d1" "queues_bounded d1" for d1 d2 :: "'a rt_sys_scheme"
    using critical_section_forwarder [OF that(1,2)] critical_section_queues [OF that(1)] that(3)
    by (auto simp: queues_bounded_def queues_def rt_consts split: if_splits)
  show ?thesis
    using assms by (auto simp: run_callback_def dest!: set_inside_keeps [where ori = ori] run split: Option.bind_splits option.splits)
qed

text \<open>One event of a forwarder's life.\<close>

lemma shared_table_step:
  assumes "ss_on_sibling_message (component_byte RS_ROUTING # table_bytes 0 t) d = Some d'" "table_wf t"
    "table_wf (node_table d)"
  shows "rt d' = rt d \<and> table_wf (node_table d')"
  using assms(1,3) rt_wire.length_enc [OF assms(2), of 0] rt_wire.length_enc [OF assms(3), of 0]
    rt_wire.dec_enc [OF assms(2), of 0] assms(2)
  by (auto simp: ss_on_sibling_message_def Let_def ss_poke_def board_panic_def
      split: if_splits option.splits)

lemma rt_step_forwarder:
  assumes s: "rt_step op d = Some d'" and ok: "forwarder_ok ori d" "queues_bounded d"
  shows "forwarder_ok ori d' \<and> queues_bounded d'"
proof (cases op)
  case (SharedTable t)
  with s ok shared_table_step [of t d d'] show ?thesis
    by (auto simp: forwarder_ok_def queues_bounded_def split: if_splits)
next
  case CriticalSection
  with s section_callback_forwarder [OF _ ok] show ?thesis by simp
next
  case (SiblingMessage raw)
  with s ok show ?thesis
    by (auto simp: rt_on_sibling_message_def queues_bounded_def upd_rt_def rt_consts
        request_keeps forwarder_ok_request forwarder_ok_def board_panic_def split: if_splits)
next
  case (PeerMessage raw)
  with s ok show ?thesis
    by (auto simp: rt_on_peer_message_def queue_peer_message_def queues_bounded_def upd_rt_def rt_consts
        request_keeps forwarder_ok_request forwarder_ok_def board_panic_def split: if_splits)
next
  case (PeerUp n m)
  with s ok show ?thesis
    by (auto simp: rt_on_peer_connected_def queue_peer_message_def queues_bounded_def upd_rt_def rt_consts
        request_keeps forwarder_ok_request forwarder_ok_def board_panic_def split: if_splits)
next
  case (PeerDown n m)
  with s ok show ?thesis
    by (auto simp: rt_on_peer_lost_def queue_peer_message_def queues_bounded_def upd_rt_def rt_consts
        request_keeps forwarder_ok_request forwarder_ok_def board_panic_def split: if_splits)
next
  case (Tick dt)
  with s ok show ?thesis by (auto simp: rt_on_tick_def forwarder_ok_def)
qed

lemma rt_run_forwarder:
  "rt_run ops d = Some d' \<Longrightarrow> forwarder_ok ori d \<Longrightarrow> queues_bounded d \<Longrightarrow>
   forwarder_ok ori d' \<and> queues_bounded d'"
proof (induction ops arbitrary: d)
  case (Cons op ops)
  then obtain d1 where 1: "rt_step op d = Some d1" "rt_run ops d1 = Some d'"
    by (auto split: Option.bind_splits)
  from rt_step_forwarder [OF 1(1) Cons.prems(2,3)] Cons.IH [OF 1(2)] show ?case by blast
qed simp

lemma forwarder_start_ok:
  "forwarder_ok ori (rt_init_forwarder (snd (rt_create True ori d)))"
  "queues_bounded (rt_init_forwarder (snd (rt_create True ori d)))"
  by (simp_all add: rt_init_forwarder_def create_forwarder_core_def rt_create_def ss_watch_def
      upd_rt_def forwarder_ok_def queues_bounded_def routing_zero_def networks_ok_def
      forwarder_start_def table_wf_init Let_def)

end
