(* ===== verification/Routing_Properties.thy ===== *)
theory Routing_Properties
  imports Routing_Facts
begin

text \<open>
  Properties of the routing component: what a critical section leaves in the queues, the networks
  of a forwarder over any history, the provisioning of the boards of a node, the home network, the
  timer of the root, and two places where the handlers do not do what they are meant to.
\<close>

section \<open>Example boards\<close>

definition rt_sys_start :: "environment \<Rightarrow> rt_sys" where
  "rt_sys_start e = \<lparr>lk = link_init e s_config_init, sy = sync_zero, cmgr = cm_zero, pmgr = pm_zero,
     dev = device_start, wst = statics_start, nd = node_start_state, rmgr = rm_zero,
     remote_server = False, rsh = ring_share_zero, node_table = routing_table_init 0,
     ss = shared_state_zero, rt = routing_zero, wl_callbacks = DoNothingCallbacks\<rparr>"

text \<open>A board of a given orientation after \<open>rt_create\<close>, outside the critical section.\<close>

definition example_board :: "u8 \<Rightarrow> rt_sys" where
  "example_board ori = snd (rt_create True ori (snd (ss_init True ori (rt_sys_start quiet_env))))"

definition example_forwarder :: "u8 \<Rightarrow> rt_sys" where
  "example_forwarder ori = rt_init_forwarder (example_board ori)"

lemmas example_defs = example_forwarder_def example_board_def rt_create_def ss_init_def
  rt_sys_start_def rt_init_forwarder_def create_forwarder_core_def ss_watch_def
  sync_register_critical_section_def

lemma example_board_simps [simp]:
  "rt_orientation (rt (example_board ori)) = ori"
  "node_table (example_board ori) = routing_table_init ORIENTATION_CENTER"
  "\<not> sync_is_inside_critical_section (sy (example_board ori)) RS_ROUTING"
  "rt_role (rt (example_board ori)) = NoRole"
  "env (lk (example_board ori)) = quiet_env"
  by (simp_all add: example_defs Let_def routing_zero_def sync_is_inside_critical_section_def
      sync_zero_def rs_consts link_init_def)

lemma example_forwarder_simps [simp]:
  "rt_orientation (rt (example_forwarder ori)) = ori"
  "node_table (example_forwarder ori) = routing_table_init ORIENTATION_CENTER"
  "sy (example_forwarder ori) = sy (example_board ori)"
  "rt_role (rt (example_forwarder ori)) = ForwarderRole forwarder_start"
  "fw (example_forwarder ori) = forwarder_start"
  by (simp_all add: example_forwarder_def rt_init_forwarder_def create_forwarder_core_def upd_rt_def fw_def)

text \<open>Outside the critical section an operation on the table gives a board, with a panic in its log.\<close>

lemma add_outside:
  "\<not> sync_is_inside_critical_section (sy d) RS_ROUTING \<Longrightarrow> \<exists>d'. add_global_route n out d = Some d'"
  by (cases "routing_table_add (nw_addr n) (nw_mask n) out (node_table d)")
     (simp add: add_global_route_def ss_refresh_def board_panic_def)

lemma hag_outside:
  "\<not> sync_is_inside_critical_section (sy d) RS_ROUTING \<Longrightarrow> \<exists>d'. add_hag_routes first ns d = Some d'"
proof (induction ns arbitrary: d)
  case (Cons n ns)
  obtain d1 where 1: "add_global_route n (rt_orientation (rt d)) d = Some d1"
    using add_outside [OF Cons.prems] by blast
  with Cons.IH [of d1] add_route_result(3) [OF 1] Cons.prems show ?case by simp
qed simp

section \<open>The queues\<close>

text \<open>
  When a critical section has been handled, both queues are empty
  if the numbers of all queued events are known. If one is not, nothing is taken off the queues:
  every later critical section handles the same events again, and the sixteen places fill up.
\<close>

lemma rt_critical_section_queues:
  assumes "on_critical_section d = Some d'"
  shows "(internal_queue (rt d'), external_queue (rt d')) =
    (if (\<forall>e \<in> set (internal_queue (rt d)). known_sibl e) \<and> (\<forall>e \<in> set (external_queue (rt d)). known_peer e)
     then ([], []) else (internal_queue (rt d), external_queue (rt d)))"
  using critical_section_queues [OF assms] unfolding queues_def by (auto split: if_splits)

section \<open>The networks of a forwarder\<close>

text \<open>
  Property C8 (routing, forwarder): whatever a forwarder receives from its siblings and its peer
  and however its critical sections fall, its own network is the block of the node's network that
  belongs to its orientation, or both are still empty; it is never in the state \<open>READY\<close>, no queue
  has more than sixteen events, and its routing table stays well formed.
\<close>

theorem forwarder_networks_invariant:
  assumes "rt_run ops (rt_init_forwarder (snd (rt_create True ori d))) = Some d'"
  shows "networks_ok ori (fw d') \<and> rt_orientation (rt d') = ori \<and> table_wf (node_table d') \<and>
    length (internal_queue (rt d')) \<le> 16 \<and> length (external_queue (rt d')) \<le> 16"
  using rt_run_forwarder [OF assms forwarder_start_ok] forwarder_okD
  by (auto simp: queues_bounded_def rt_consts)

lemma ap_from_start:
  assumes "dev_mode (dev d) = NAN" "nd d = node_start_state"
  shows "\<exists>d'. node_set_as_ap n m d = Some d'"
proof -
  obtain ch l where c: "cm_get_suggested_channel (cmgr (node_set_network_settings n m d))
      (lk (node_set_network_settings n m d)) = (ch, l)"
    by (cases "cm_get_suggested_channel (cmgr (node_set_network_settings n m d))
      (lk (node_set_network_settings n m d))")
  show ?thesis
    using assms unfolding node_set_as_ap_def Let_def c
    by (simp add: node_set_network_settings_def upd_nd_def node_start_state_def orientation_delay_def
        board_updates ap_identity_def device_init_def device_init_ap_def orientation_tags_def
        NODE_DEVICE_ORIENTATION_CENTER_def CONFIG_ID_CENTER_def NODE_NAME_PREFIX_def chars_def Let_def
        case_prod_unfold)
qed

text \<open>A history: a sibling tells its network, the peer links up, and a critical section falls.\<close>

definition example_history :: "rt_op list" where
  "example_history = [SiblingMessage (sibl_event_bytes (SiblProvision 1 2 (NETWORK 0x0A000000 0xFF000000))),
     PeerUp 0x0A400000 0xFFFFFFFC, CriticalSection]"

lemma request_of_follower:
  assumes "sync_impl (sy d) = FOLLOWER_IMPL"
  shows "\<exists>d'. sync_request_critical_section c d = Some d' \<and> only_link d d'"
  using assms only_link_broadcast [of d]
  by (simp add: sync_request_critical_section_def follower_request_critical_section_def sync_broadcast_def)

text \<open>The board that waits for its critical section, with an event in each queue.\<close>

lemma provision_section_runs:
  assumes "internal_queue (rt d) = [SiblProvision 1 2 n]" "external_queue (rt d) = [PeerConnected m]"
    and "rt_role (rt d) = ForwarderRole forwarder_start" "rt_orientation (rt d) = 2"
    and "get_node_subnet n 2 = Some block" "dev_mode (dev d) = NAN" "nd d = node_start_state"
    and "length (critical_sections (sy d)) = RS_LAST_COMPONENT_ID"
    and "cs_function (critical_sections (sy d) ! component_num RS_ROUTING) = Some cb"
  shows "\<exists>d'. run_callback (\<lambda>_. on_critical_section) (component_num RS_ROUTING) d = Some d' \<and> fw_node_network (fw d') = n"
proof -
  define d1 where "d1 = d\<lparr>sy := (sy d)\<lparr>critical_sections := (critical_sections (sy d))
     [component_num RS_ROUTING := (critical_sections (sy d) ! component_num RS_ROUTING)\<lparr>is_inside := True\<rparr>]\<rparr>\<rparr>"
  have num: "component_num RS_ROUTING < length (critical_sections (sy d))" by (simp add: assms(8) rs_consts)
  then have inside: "set_inside (component_num RS_ROUTING) True d = Some d1"
    by (simp add: set_inside_def d1_def aget_def aset_def)
  let ?g = "\<lambda>st. st\<lparr>fw_dtr := ucast (2 :: u16), fw_device_network := block, fw_node_network := n,
    fw_global_state := GLOBAL_STATE_WITH_NETWORK, fw_is_local_root := False\<rparr>"
  obtain d2 where d2: "node_set_as_ap (nw_addr block) (nw_mask block) (upd_fw ?g d1) = Some d2"
    using ap_from_start [of "upd_fw ?g d1"] assms(6,7) by (auto simp: d1_def upd_fw_def upd_rt_def)
  have r: "rt_role (rt d1) = ForwarderRole forwarder_start" "fw d1 = forwarder_start" "rt d1 = rt d"
    using assms(3) by (simp_all add: d1_def fw_def)
  have h: "sibl_handler (SiblProvision 1 2 n) d1 = Some (Inr d2)"
    using d2 assms(4,5) r by (simp add: sibl_handler_def fwd_on_provision_def own_subnet_def wl_enable_ap_mode_def
        forwarder_start_def)
  have k: "keeps_routing (upd_fw ?g d1) d2" by (rule node_set_as_ap_keeps [OF d2])
  have rt2: "rt d2 = rt (upd_fw ?g d1)" "sy d2 = sy d1" using k by (simp_all add: keeps_routing_def)
  have role2: "rt_role (rt d2) = ForwarderRole (?g forwarder_start)" "external_queue (rt d2) = [PeerConnected m]"
    using rt2(1) r assms(2) by simp_all
  define d3 where "d3 = fwd_on_peer_connected d2"
  define d4 where "d4 = upd_rt (\<lambda>r. r\<lparr>external_queue := [], internal_queue := []\<rparr>) d3"
  have sec: "on_critical_section d1 = Some d4"
    using h assms(1) r(3) role2 by (simp add: on_critical_section_def peer_handler_def d3_def d4_def)
  have f: "fw_node_network (fw d4) = n" "sy d4 = sy d1"
    using rt2(2) role2(1)
    by (simp_all add: d4_def d3_def fwd_on_peer_connected_def Let_def upd_rt_def upd_fw_def fw_def
        only_link_fields(1,9) [OF only_link_send])
  have "\<exists>d5. set_inside (component_num RS_ROUTING) False d4 = Some d5 \<and> rt d5 = rt d4"
    using num f(2) by (simp add: set_inside_def aget_def aset_def d1_def)
  then show ?thesis
    using inside sec f(1) num assms(9) by (auto simp: run_callback_def aget_def fw_def)
qed

lemma example_history_runs:
  assumes "d = rt_init_forwarder (snd (rt_create True 2 (rt_sys_start quiet_env)))"
  shows "\<exists>d'. rt_run example_history d = Some d' \<and> fw_node_network (fw d') = NETWORK 0x0A000000 0xFF000000"
proof -
  let ?n = "NETWORK 0x0A000000 0xFF000000" and ?m = "NETWORK 0x0A400000 0xFFFFFFFC"
  let ?e = "SiblProvision 1 2 ?n"
  have start: "rt d = routing_zero\<lparr>rt_orientation := 2, rt_role := ForwarderRole forwarder_start\<rparr>"
    "dev d = device_start" "nd d = node_start_state" "sync_impl (sy d) = FOLLOWER_IMPL"
    "length (critical_sections (sy d)) = RS_LAST_COMPONENT_ID"
    "cs_function (critical_sections (sy d) ! component_num RS_ROUTING) = Some RoutingOnCriticalSection"
    unfolding assms by (simp_all add: example_defs upd_rt_def sync_zero_def rs_consts Let_def)
  let ?d0 = "upd_rt (\<lambda>r. r\<lparr>internal_queue := internal_queue r @ [?e]\<rparr>) d"
  obtain d1 where 1: "sync_request_critical_section RS_ROUTING ?d0 = Some d1" "only_link ?d0 d1"
    using request_of_follower [of ?d0] start(4) by (auto simp: upd_rt_def)
  have "rt_on_sibling_message (sibl_event_bytes ?e) d = Some d1"
    using 1(1) sibl_wire.length_enc [of ?e] sibl_wire.dec_enc [of ?e] start(1)
    by (simp add: rt_on_sibling_message_def rt_consts routing_zero_def)
  note s1 = this only_link_fields(1,2,5,9) [OF 1(2)]
  let ?d1 = "upd_rt (\<lambda>r. r\<lparr>external_queue := external_queue r @ [PeerConnected ?m]\<rparr>) d1"
  obtain d2 where 2: "sync_request_critical_section RS_ROUTING ?d1 = Some d2" "only_link ?d1 d2"
    using request_of_follower [of ?d1] start(4) s1 by (auto simp: upd_rt_def)
  have "rt_on_peer_connected 0x0A400000 0xFFFFFFFC d1 = Some d2"
    using 2(1) s1 start(1) by (simp add: rt_on_peer_connected_def queue_peer_message_def upd_rt_def rt_consts routing_zero_def)
  note s2 = this only_link_fields(1,2,5,9) [OF 2(2)]
  have "get_node_subnet ?n 2 = Some (NETWORK 0x0A400000 0xFFE00000)" by code_simp
  then obtain d3 where "run_callback (\<lambda>_. on_critical_section) (component_num RS_ROUTING) d2 = Some d3"
    "fw_node_network (fw d3) = ?n"
    using provision_section_runs [of d2 ?n ?m] s1 s2 start
    by (auto simp: upd_rt_def routing_zero_def device_start_def)
  then show ?thesis using s1(1) s2(1) by (simp add: example_history_def del: sibl_event_bytes.simps)
qed

theorem forwarder_networks_invariant_witness:
  "\<exists>d'. rt_run example_history (rt_init_forwarder (snd (rt_create True 2 (rt_sys_start quiet_env)))) = Some d' \<and>
     fw_device_network (fw d') = NETWORK 0x0A400000 0xFFE00000 \<and> table_wf (node_table d')"
proof -
  obtain d' where d': "rt_run example_history (rt_init_forwarder (snd (rt_create True 2 (rt_sys_start quiet_env)))) = Some d'"
    "fw_node_network (fw d') = NETWORK 0x0A000000 0xFF000000" using example_history_runs [OF HOL.refl] by blast
  have "get_node_subnet (NETWORK 0x0A000000 0xFF000000) 2 = Some (NETWORK 0x0A400000 0xFFE00000)" by code_simp
  moreover have "NETWORK 0x0A000000 0xFF000000 \<noteq> NETWORK 0 0" by (simp add: NETWORK_def)
  ultimately show ?thesis
    using forwarder_networks_invariant [OF d'(1)] d' by (auto simp: networks_ok_def)
qed

section \<open>The timer of the root\<close>

lemma set_root_set_root [simp]: "set_root a (set_root b d) = set_root a d"
  by (simp add: set_root_def upd_rt_def)

lemma set_root_role [simp]: "rt_role (rt (set_root s d)) = RootRole s"
  by (simp add: set_root_def upd_rt_def)

lemma root_waits:
  assumes "gateway_requested s" "sum_list (map unat ts) < unat (gateway_requested_timeout s)"
  shows "fold rt_on_tick ts (set_root s d) =
    set_root (s\<lparr>gateway_requested_timeout :=
      gateway_requested_timeout s - of_nat (sum_list (map unat ts))\<rparr>) d"
  using assms
proof (induction ts arbitrary: s)
  case (Cons t ts)
  let ?s = "s\<lparr>gateway_requested_timeout := gateway_requested_timeout s - t\<rparr>"
  have lt: "t < gateway_requested_timeout s"
    using Cons.prems(2) by (simp add: word_less_nat_alt)
  then have u: "unat (gateway_requested_timeout s - t) = unat (gateway_requested_timeout s) - unat t"
    by (simp add: unat_sub)
  have step: "rt_on_tick t (set_root s d) = set_root ?s d"
    using lt Cons.prems(1) by (simp add: rt_on_tick_def root_on_tick_def not_le)
  have "sum_list (map unat ts) < unat (gateway_requested_timeout ?s)"
    using Cons.prems(2) u by simp
  from Cons.IH [OF _ this] Cons.prems(1) step show ?case by (simp add: diff_diff_eq)
qed simp

text \<open>
  Property C27 (routing, root): after a request for a gateway the root keeps silent while the ticks
  add up to less than ten seconds; the tick that reaches ten seconds broadcasts one message, with
  the root's network at distance 1, and later ticks do nothing until another request. A request
  that comes while the root waits starts the ten seconds again.
\<close>

theorem root_gateway_timer:
  assumes "rt_role (rt d) = RootRole s"
    and "sum_list (map unat ts) < 10000" and "10000 \<le> sum_list (map unat ts) + unat dt"
  shows "lk (fold rt_on_tick ts (root_on_new_gateway_request s d)) = lk d \<and>
    (let d' = rt_on_tick dt (fold rt_on_tick ts (root_on_new_gateway_request s d))
     in d' = snd (rt_broadcast (SiblNewGatewayWinner (root_network s) 1)
          (set_root (s\<lparr>gateway_requested := False, gateway_requested_timeout := 0\<rparr>) d)) \<and>
        fold rt_on_tick us d' = d') \<and>
    (\<forall>s'. rt_role (rt (fold rt_on_tick ts (root_on_new_gateway_request s d))) = RootRole s' \<longrightarrow>
       root_on_new_gateway_request s' (fold rt_on_tick ts (root_on_new_gateway_request s d)) =
       root_on_new_gateway_request s d)"
proof -
  let ?s0 = "s\<lparr>gateway_requested := True, gateway_requested_timeout := 10000\<rparr>"
  let ?t = "10000 - of_nat (sum_list (map unat ts)) :: u32"
  let ?s1 = "?s0\<lparr>gateway_requested_timeout := ?t\<rparr>"
  have req: "root_on_new_gateway_request s d = set_root ?s0 d"
    by (simp add: root_on_new_gateway_request_def GATEWAY_REQUEST_TIMEOUT_def)
  have w: "fold rt_on_tick ts (set_root ?s0 d) = set_root ?s1 d"
    using root_waits [of ?s0 ts d] assms(2) by simp
  have small: "unat (of_nat (sum_list (map unat ts)) :: u32) = sum_list (map unat ts)"
    using assms(2) by (simp add: unat_of_nat)
  have "unat ?t = 10000 - sum_list (map unat ts)"
    using assms(2) small by (subst unat_sub) (simp_all add: word_le_nat_alt)
  then have le: "?t \<le> dt" using assms(3) by (simp add: word_le_nat_alt)
  let ?d' = "snd (rt_broadcast (SiblNewGatewayWinner (root_network s) 1)
      (set_root (s\<lparr>gateway_requested := False, gateway_requested_timeout := 0\<rparr>) d))"
  have last: "rt_on_tick dt (set_root ?s1 d) = ?d'"
    using le by (simp add: rt_on_tick_def root_on_tick_def)
  have idle: "rt_on_tick u ?d' = ?d'" for u
    by (simp add: rt_on_tick_def root_on_tick_def)
  have "fold rt_on_tick us ?d' = ?d'"
    by (induction us) (simp_all add: idle)
  moreover have "root_on_new_gateway_request ?s1 (set_root ?s1 d) = set_root ?s0 d"
    by (simp add: root_on_new_gateway_request_def GATEWAY_REQUEST_TIMEOUT_def)
  moreover have "lk (set_root ?s1 d) = lk d"
    by (simp add: set_root_def upd_rt_def)
  ultimately show ?thesis
    unfolding req w Let_def last by (simp only: set_root_role rt_role.inject) blast
qed

theorem root_gateway_timer_witness:
  "rt_on_tick 1000 (fold rt_on_tick (replicate 9 1000)
     (root_on_new_gateway_request \<lparr>root_network = NETWORK 0 0, gateway_requested = False,
        gateway_requested_timeout = 0\<rparr> (rt_init_root 0 0 (example_board 5)))) =
   snd (rt_broadcast (SiblNewGatewayWinner (NETWORK 0 0) 1) (rt_init_root 0 0 (example_board 5)))"
proof -
  let ?s = "\<lparr>root_network = NETWORK 0 0, gateway_requested = False, gateway_requested_timeout = 0\<rparr>"
  have d: "rt_init_root 0 0 (example_board 5) = set_root ?s (example_board 5)"
    by (simp add: rt_init_root_def create_root_core_def)
  have "sum_list (map unat (replicate 9 (1000 :: u32))) = 9000" by (simp add: sum_list_replicate)
  with root_gateway_timer [of "set_root ?s (example_board 5)" ?s "replicate 9 1000" 1000 "[]"] d
  show ?thesis by (simp add: Let_def)
qed

section \<open>The home network\<close>

lemma add_not_full:
  assumes "table_wf t" "rt_count t < 16"
  shows "\<not> snd (routing_table_add n m out t)"
  using add_used [OF assms(1), of n m out] assms(2)
  by (cases "(n, m) = (0, 0)") (auto simp: case_prod_unfold)

lemma subnet_mask_not_zero: "wf_network q s \<Longrightarrow> 0 < q \<Longrightarrow> nw_mask s \<noteq> 0"
proof
  assume w: "wf_network q s" "0 < q" "nw_mask s = 0"
  then have "q \<le> 32" by (simp add: wf_network_def)
  then have "bit (prefix_mask q) 31" unfolding bit_prefix_mask [OF \<open>q \<le> 32\<close>] using w(2) by simp
  moreover have "prefix_mask q = 0" using w by (simp add: wf_network_def)
  ultimately show False by (metis bit_0_eq bot_apply bot_bool_def)
qed

text \<open>
  When the board of the home is provisioned from the node's network,
  of at most 27 bits of prefix, and the shared table has room and no route longer than the block
  of the home, every address of that block is routed to the wifi side, and a second provision, of
  whatever network, changes nothing.
\<close>

lemma home_serves_its_block:
  assumes "wf_network p n" "p \<le> 27" "rt_orientation (rt d) = ORIENTATION_CENTER"
    and "table_wf (node_table d)" "rt_count (node_table d) < 16"
    and "\<forall>k \<in> dom (route_map (node_table d)). snd k \<le> prefix_mask (p + 3)"
    and "home_on_provision n \<lparr>is_provisioned = False\<rparr> d = Some d'"
  shows "\<exists>block. get_node_subnet n (ucast ORIENTATION_CENTER) = Some block \<and>
    (\<forall>ip. in_network ip block \<longrightarrow> rt_do_route src ip d' = ROUTE_WIFI) \<and>
    rt_role (rt d') = HomeRole \<lparr>is_provisioned = True\<rparr> \<and>
    home_on_provision n' \<lparr>is_provisioned = True\<rparr> d' = Some d'"
proof -
  obtain block d1 d2 where block: "own_subnet n d = Some block"
    and d1: "add_global_route block (rt_orientation (rt d)) d = Some d1"
    and d2: "wl_enable_ap_mode block d1 = Some d2"
    and d': "d' = upd_rt (\<lambda>r. r\<lparr>rt_role := HomeRole \<lparr>is_provisioned = True\<rparr>\<rparr>) d2"
    using assms(7) by (auto simp: home_on_provision_def split: Option.bind_splits)
  have b: "get_node_subnet n (ucast ORIENTATION_CENTER) = Some block"
    using block assms(3) by (simp add: own_subnet_def)
  have five: "(ucast ORIENTATION_CENTER :: u32) < 8" by (simp add: orientations)
  have wf: "wf_network (p + 3) block" using subnet_wf [OF assms(1,2) five b] .
  let ?t = "fst (routing_table_add (nw_addr block) (nw_mask block) ORIENTATION_CENTER (node_table d))"
  have keep: "keeps_routing d1 d2"
    using d2 node_set_as_ap_keeps by (auto simp: wl_enable_ap_mode_def)
  have t: "node_table d' = ?t" and o: "rt_orientation (rt d') = ORIENTATION_CENTER"
    using add_route_result(1,2) [OF d1] keep assms(3) by (simp_all add: d' upd_rt_def keeps_routing_def)
  have route: "routing_table_route ?t ip = ORIENTATION_CENTER" if "in_network ip block" for ip
  proof (rule rt.route_after_add [OF assms(4)])
    show "(nw_addr block, nw_mask block) \<noteq> (0, 0)"
      using subnet_mask_not_zero [OF wf] by simp
    show "\<not> snd (routing_table_add (nw_addr block) (nw_mask block) ORIENTATION_CENTER (node_table d))"
      by (rule add_not_full [OF assms(4,5)])
    show "ip AND nw_mask block = nw_addr block" using that by (simp add: in_network_def)
    show "\<forall>k \<in> dom (route_map (node_table d)). matches ip k \<longrightarrow> snd k \<le> nw_mask block"
      using assms(6) wf by (simp add: wf_network_def)
  qed
  have "rt_do_route src ip d' = ROUTE_WIFI" if "in_network ip block" for ip
    using route [OF that] t o by (simp add: rt_do_route_def)
  moreover have "rt_role (rt d') = HomeRole \<lparr>is_provisioned = True\<rparr>" by (simp add: d' upd_rt_def)
  ultimately show ?thesis using b by (simp add: home_on_provision_def)
qed

section \<open>Provisioning a node\<close>

text \<open>The frames a refresh puts on the bus are for the shared state.\<close>

lemma refresh_frame_kind:
  assumes "ss_refresh c d = Some d'" "q \<in> set (spi_attempts (new_effects (lk d) (lk d')))"
  shows "hd (frame_message q) = component_byte RS_SHARED_STATE"
proof (cases "sync_is_inside_critical_section (sy d) c")
  case True
  with assms(1) obtain m where "d' = snd (board_broadcast RS_SHARED_STATE m d)"
    by (auto simp: ss_refresh_def broadcast_data_def Let_def split: Option.bind_splits option.splits if_splits)
  then have "rs_broadcast RS_SHARED_STATE m (lk d) = (fst (rs_broadcast RS_SHARED_STATE m (lk d)), lk d')"
    by (simp add: board_broadcast_def case_prod_unfold Let_def)
  from rs_frame_bytes [OF this assms(2)] show ?thesis by simp
next
  case False
  with assms show ?thesis by (auto simp: ss_refresh_def board_panic_def os_panic_def)
qed

lemma add_route_frames:
  assumes "add_global_route n out d = Some d'"
  shows "link_step (lk d) (lk d') \<and>
    (\<forall>q \<in> set (spi_attempts (new_effects (lk d) (lk d'))). hd (frame_message q) = component_byte RS_SHARED_STATE)"
proof -
  obtain t full where r: "routing_table_add (nw_addr n) (nw_mask n) out (node_table d) = (t, full)"
    by (cases "routing_table_add (nw_addr n) (nw_mask n) out (node_table d)")
  define d1 where "d1 = (if full then board_panic ''Routing table is full'' d else d)\<lparr>node_table := t\<rparr>"
  have ref: "ss_refresh RS_ROUTING d1 = Some d'"
    using assms r by (simp add: add_global_route_def d1_def Let_def)
  have 1: "link_step (lk d) (lk d1)" "spi_attempts (new_effects (lk d) (lk d1)) = []"
    by (simp_all add: d1_def board_panic_def os_panic_def)
  have 2: "link_step (lk d1) (lk d')"
    using only_link_refresh [OF ref] by (simp add: only_link_def)
  show ?thesis
    using refresh_frame_kind [OF ref] link_step_trans [OF 1(1) 2]
    by (simp add: new_effects_trans [OF 1(1) 2] 1(2))
qed

lemma rt_broadcast_frames:
  assumes "q \<in> set (spi_attempts (new_effects (lk d) (lk (snd (rt_broadcast e d)))))"
  shows "frame_message q = component_byte RS_ROUTING # sibl_event_bytes e"
proof -
  have "rs_broadcast RS_ROUTING (sibl_event_bytes e) (lk d) =
      (fst (rs_broadcast RS_ROUTING (sibl_event_bytes e) (lk d)), lk (snd (rt_broadcast e d)))"
    by (simp add: rt_broadcast_def board_broadcast_def case_prod_unfold Let_def)
  from rs_frame_bytes [OF this assms] show ?thesis .
qed

text \<open>
  A board that is given a network by its peer takes its own block of it and says so to its
  siblings; a sibling that hears it takes its own block of the same network.
\<close>

lemma handshake_provides:
  assumes run: "fwd_on_handshake external n dtr d = Some d'"
    and new: "fw_global_state (fw d) = GLOBAL_STATE_WITHOUT_NETWORK"
    and s: "get_node_subnet n (ucast (rt_orientation (rt d))) = Some s"
    and q: "q \<in> set (spi_attempts (new_effects (lk d) (lk d')))"
    and msg: "frame_message q = component_byte RS_ROUTING # msg"
  shows "fw_node_network (fw d') = n \<and> fw_device_network (fw d') = s \<and>
    (\<exists>provider dtr'. sibl_event_of_bytes msg = SiblProvision provider dtr' n)"
proof -
  let ?f = "\<lambda>st. st\<lparr>fw_dtr := dtr, fw_device_network := s, fw_node_network := n,
    fw_global_state := GLOBAL_STATE_WITH_NETWORK, fw_is_local_root := True\<rparr>"
  let ?d2 = "node_set_network_settings (nw_addr s) (nw_mask s) (upd_fw ?f d)"
  obtain d3 where d3: "add_global_route (NETWORK 0 0) (rt_orientation (rt ?d2)) ?d2 = Some d3"
    and d': "d' = snd (rt_broadcast (SiblProvision (ucast (rt_orientation (rt d3)))
       (ucast (fw_dtr (fw d3) + 1)) (fw_node_network (fw d3))) d3)"
    using run new s by (auto simp: fwd_on_handshake_def own_subnet_def Let_def split: Option.bind_splits)
  have lk2: "lk ?d2 = lk d" "rt ?d2 = rt (upd_fw ?f d)"
    by (simp_all add: node_set_network_settings_def upd_nd_def)
  have fw3: "fw d3 = ?f (fw d)"
    using add_route_result(1) [OF d3] lk2(2) upd_fw_simps(1) [of ?f d] by (simp add: fw_def)
  note A = add_route_frames [OF d3, unfolded lk2(1)]
  have step: "link_step (lk d3) (lk d')"
    unfolding d' using only_link_rt_broadcast [unfolded only_link_def] by blast
  let ?e = "SiblProvision (ucast (rt_orientation (rt d3))) (ucast (fw_dtr (fw d3) + 1)) (fw_node_network (fw d3))"
  have "q \<in> set (spi_attempts (new_effects (lk d) (lk d3))) \<or> q \<in> set (spi_attempts (new_effects (lk d3) (lk d')))"
    using q new_effects_trans [OF conjunct1 [OF A] step] by auto
  moreover have "hd (frame_message q) \<noteq> component_byte RS_SHARED_STATE"
    by (simp add: msg component_byte_def)
  ultimately have "q \<in> set (spi_attempts (new_effects (lk d3) (lk d')))" using A by blast
  then have "msg = sibl_event_bytes ?e" using rt_broadcast_frames [of q d3 ?e] msg by (simp add: d')
  then have "sibl_event_of_bytes msg = ?e" using sibl_wire.dec_enc [of ?e] by simp
  then show ?thesis by (simp add: d' fw3)
qed

lemma provision_takes_block:
  assumes run: "fwd_on_provision dtr n r = Some r'" and new: "fw_global_state (fw r) \<noteq> GLOBAL_STATE_WITH_NETWORK"
    and s: "get_node_subnet n (ucast (rt_orientation (rt r))) = Some s"
  shows "fw_node_network (fw r') = n \<and> fw_device_network (fw r') = s"
proof -
  let ?g = "\<lambda>st. st\<lparr>fw_dtr := ucast dtr, fw_device_network := s, fw_node_network := n,
    fw_global_state := GLOBAL_STATE_WITH_NETWORK, fw_is_local_root := False\<rparr>"
  from run s new have "wl_enable_ap_mode s (upd_fw ?g r) = Some r'"
    by (simp add: fwd_on_provision_def own_subnet_def)
  then have "rt r' = rt (upd_fw ?g r)"
    using node_set_as_ap_keeps by (auto simp: wl_enable_ap_mode_def keeps_routing_def)
  then have "fw r' = ?g (fw r)" using upd_fw_simps(1) [of ?g r] by (simp add: fw_def)
  then show ?thesis by simp
qed

lemma home_takes_block:
  assumes "home_on_provision n \<lparr>is_provisioned = False\<rparr> h = Some h'" "rt_orientation (rt h) = ORIENTATION_CENTER"
    and "get_node_subnet n (ucast ORIENTATION_CENTER) = Some s"
  shows "rt_role (rt h') = HomeRole \<lparr>is_provisioned = True\<rparr> \<and>
    node_table h' = fst (routing_table_add (nw_addr s) (nw_mask s) ORIENTATION_CENTER (node_table h))"
proof -
  obtain h1 h2 where h1: "add_global_route s ORIENTATION_CENTER h = Some h1" and h2: "wl_enable_ap_mode s h1 = Some h2"
    and h': "h' = upd_rt (\<lambda>r. r\<lparr>rt_role := HomeRole \<lparr>is_provisioned = True\<rparr>\<rparr>) h2"
    using assms by (auto simp: home_on_provision_def own_subnet_def split: Option.bind_splits)
  have "node_table h2 = node_table h1"
    using h2 node_set_as_ap_keeps by (auto simp: wl_enable_ap_mode_def keeps_routing_def)
  then show ?thesis using add_route_result(2) [OF h1] by (simp add: h' upd_rt_def)
qed

text \<open>The block of a board in the network of its node: inside of it, and apart from another board's.\<close>

definition own_block :: "network_t \<Rightarrow> u8 \<Rightarrow> network_t \<Rightarrow> network_t \<Rightarrow> bool" where
  "own_block n ori other block \<longleftrightarrow> get_node_subnet n (ucast ori) = Some block \<and>
     (\<forall>ip. in_network ip block \<longrightarrow> in_network ip n \<and> \<not> in_network ip other)"

lemma outer_number: "x \<in> {1..5 :: u8} \<Longrightarrow> (ucast x :: u32) < 8"
  using unat_u8_less [of x]
  by (simp add: word_less_nat_alt word_le_nat_alt unsigned_ucast_eq take_bit_nat_eq_self)

lemma own_block_exists:
  assumes "wf_network p n" "p \<le> 27" "a \<in> {1..5 :: u8}" "b \<in> {1..5}" "a \<noteq> b" "get_node_subnet n (ucast a) = Some other"
  shows "\<exists>block. own_block n b other block"
proof -
  have u: "unat (ucast x :: u32) = unat x" for x :: u8
    using unat_u8_less [of x] by (simp add: unsigned_ucast_eq take_bit_nat_eq_self)
  note ins = outer_number
  have ne: "(ucast a :: u32) \<noteq> ucast b" using assms(5) u by (metis word_unat_eq_iff)
  obtain s where s: "get_node_subnet n (ucast b) = Some s" using get_node_subnet_wf [OF assms(1,2)] by blast
  have "own_block n b other s"
    using s subnets_apart [OF assms(1,2) ins [OF assms(3)] ins [OF assms(4)] ne assms(6) s]
      in_subnet [OF assms(1,2) ins [OF assms(4)] s] by (auto simp: own_block_def)
  then show ?thesis ..
qed

text \<open>
  The boards that wait for a network, outer boards and the home, and what it is to have taken one:
  an outer board has its own block as its network, the home routes its block to itself.
\<close>

definition waits_for_network :: "'a rt_sys_scheme \<Rightarrow> bool" where
  "waits_for_network r \<longleftrightarrow>
     (case rt_role (rt r) of
        ForwarderRole s \<Rightarrow> fw_global_state s \<noteq> GLOBAL_STATE_WITH_NETWORK \<and> rt_orientation (rt r) \<in> {1..4}
      | HomeRole s \<Rightarrow> \<not> is_provisioned s \<and> rt_orientation (rt r) = ORIENTATION_CENTER
      | _ \<Rightarrow> False)"

definition takes_own_block :: "network_t \<Rightarrow> network_t \<Rightarrow> 'a rt_sys_scheme \<Rightarrow> 'a rt_sys_scheme \<Rightarrow> bool" where
  "takes_own_block n other r r' \<longleftrightarrow>
     (\<exists>block. own_block n (rt_orientation (rt r)) other block \<and>
        (case rt_role (rt r) of
           HomeRole s \<Rightarrow> rt_role (rt r') = HomeRole \<lparr>is_provisioned = True\<rparr> \<and>
             node_table r' = fst (routing_table_add (nw_addr block) (nw_mask block) ORIENTATION_CENTER (node_table r))
         | _ \<Rightarrow> fw_node_network (fw r') = n \<and> fw_device_network (fw r') = block))"

lemma provision_handled:
  assumes "sibl_handler (SiblProvision provider dtr n) r = Some (Inr r')" "waits_for_network r"
    and "own_block n (rt_orientation (rt r)) other block"
  shows "takes_own_block n other r r'"
proof (cases "rt_role (rt r)")
  case (HomeRole s)
  then have s: "s = \<lparr>is_provisioned = False\<rparr>" "rt_orientation (rt r) = ORIENTATION_CENTER"
    using assms(2) by (simp_all add: waits_for_network_def)
  have "home_on_provision n \<lparr>is_provisioned = False\<rparr> r = Some r'" using assms(1) HomeRole s(1) by (simp add: sibl_handler_def)
  from home_takes_block [OF this s(2), of block] assms(3) s(2) HomeRole show ?thesis
    by (auto simp: takes_own_block_def own_block_def)
next
  case (ForwarderRole s)
  then have f: "fwd_on_provision dtr n r = Some r'" using assms(1) by (simp add: sibl_handler_def)
  have "fw_global_state (fw r) \<noteq> GLOBAL_STATE_WITH_NETWORK"
    using assms(2) ForwarderRole by (simp add: waits_for_network_def fw_def)
  from provision_takes_block [OF f this, of block] assms(3) ForwarderRole show ?thesis
    by (auto simp: takes_own_block_def own_block_def)
qed (use assms(2) in \<open>simp_all add: waits_for_network_def\<close>)

text \<open>
  Property C11 (routing, provisioning): when an outer board without network is given one by its
  peer, a network of at most 27 bits of prefix, it takes its own block of it, and every frame it
  sends to the routing component of the siblings is a provision with that network. Each other board
  that waits for a network, outer boards and the home, takes its own block when its handler of that
  message comes to its end: an outer board the network for the node and the block for itself, the
  home a route of its block to itself. The blocks lie inside the network and have no address in
  common with that of the board that was given it.
\<close>

theorem provision_reaches_node:
  fixes d :: "'a rt_sys_scheme"
  assumes "fwd_on_handshake external n dtr d = Some d'" "fw_global_state (fw d) = GLOBAL_STATE_WITHOUT_NETWORK"
    and "wf_network p n" "p \<le> 27" "rt_orientation (rt d) \<in> {1..4}"
    and "q \<in> set (spi_attempts (new_effects (lk d) (lk d')))"
    and "frame_message q = component_byte RS_ROUTING # msg"
  shows "\<exists>provider dtr' own. sibl_event_of_bytes msg = SiblProvision provider dtr' n \<and>
    fw_node_network (fw d') = n \<and> fw_device_network (fw d') = own \<and>
    get_node_subnet n (ucast (rt_orientation (rt d))) = Some own \<and> (\<forall>ip. in_network ip own \<longrightarrow> in_network ip n) \<and>
    (\<forall>(r :: 'a rt_sys_scheme) r'. waits_for_network r \<and> rt_orientation (rt r) \<noteq> rt_orientation (rt d) \<and>
        sibl_handler (SiblProvision provider dtr' n) r = Some (Inr r') \<longrightarrow> takes_own_block n own r r')"
proof -
  have outer: "x \<in> {1..5}" if "x \<in> {1..4 :: u8}" for x
    using that by (auto intro: order_trans [where y = 4])
  have five: "x \<le> 5" if "x \<le> (4 :: u8)" for x using that by (rule order_trans) simp
  obtain own where own: "get_node_subnet n (ucast (rt_orientation (rt d))) = Some own"
    using get_node_subnet_wf [OF assms(3,4)] by blast
  have others: "\<exists>block. own_block n b own block" if "b \<in> {1..5}" "b \<noteq> rt_orientation (rt d)" for b
    using own_block_exists [OF assms(3,4) outer [OF assms(5)] that(1) _ own] that(2) by blast
  have inside: "\<forall>ip. in_network ip own \<longrightarrow> in_network ip n"
    using in_subnet [OF assms(3,4) outer_number [OF outer [OF assms(5)]] own] by blast
  have waits: "rt_orientation (rt r) \<in> {1..5}" if "waits_for_network r" for r :: "'a rt_sys_scheme"
    using that five by (auto simp: waits_for_network_def orientations split: rt_role.splits)
  obtain provider dtr' where msg: "fw_node_network (fw d') = n" "fw_device_network (fw d') = own"
    "sibl_event_of_bytes msg = SiblProvision provider dtr' n"
    using handshake_provides [OF assms(1,2) own assms(6,7)] by blast
  then show ?thesis using own inside provision_handled [of provider dtr' n] others waits by blast
qed

lemma rt_broadcast_reaches_bus:
  assumes "reliable (env (lk d))" "133 \<le> ring_link_netif_mtu (env (lk d))" "sibl_event_ok e"
  shows "\<exists>q. q \<in> set (spi_attempts (new_effects (lk d) (lk (snd (rt_broadcast e d)))))"
proof -
  have len: "length (sibl_event_bytes e) = 132"
    using sibl_wire.length_enc [OF assms(3)] by (simp add: SIZEOF_RT_EVENT_def)
  obtain l where b: "rs_broadcast RS_ROUTING (sibl_event_bytes e) (lk d) = (True, l)"
    using reliable_broadcast [OF assms(1), of "sibl_event_bytes e" RS_ROUTING] assms(2) len by auto
  then have "spi_attempts (new_effects (lk d) l) \<noteq> []"
    using rs_broadcast_attempts(3) [OF b] by blast
  with b show ?thesis
    by (cases "spi_attempts (new_effects (lk d) l)") (auto simp: rt_broadcast_def board_broadcast_def)
qed

text \<open>Boards inside of their critical section, where a new route is refreshed.\<close>

lemma add_watched:
  assumes "watches_table d"
  shows "\<exists>d'. add_global_route n out d = Some d'"
  using assms by (simp add: add_global_route_def ss_refresh_def broadcast_data_def watches_table_def ss_peek_def
      sizeof_table_byte SIZEOF_ROUTING_TABLE_def board_panic_def Let_def split: prod.splits)

definition entered :: "rt_sys \<Rightarrow> rt_sys" where
  "entered d = d\<lparr>sy := (sy d)\<lparr>critical_sections := (critical_sections (sy d))
     [component_num RS_ROUTING := \<lparr>cs_function = Some RoutingOnCriticalSection, is_inside = True\<rparr>]\<rparr>\<rparr>"

definition example_home :: rt_sys where
  "example_home = entered (rt_init_home (example_board 5))"

definition example_sibling :: "u8 \<Rightarrow> rt_sys" where
  "example_sibling ori = entered (example_forwarder ori)"

lemma entered_inside:
  "sync_is_inside_critical_section (sy (example_sibling ori)) RS_ROUTING"
  "sync_is_inside_critical_section (sy example_home) RS_ROUTING"
  by (simp_all add: example_sibling_def example_home_def entered_def example_defs rt_init_home_def create_home_core_def
      sync_is_inside_critical_section_def sync_zero_def rs_consts upd_rt_def Let_def)

lemma entered_watches: "watches_table (example_sibling ori)" "watches_table example_home"
  by (simp_all add: watches_table_def example_sibling_def example_home_def entered_def example_defs rt_init_home_def
      create_home_core_def shared_state_zero_def rs_consts upd_rt_def Let_def)

lemma entered_boards:
  "rt (example_sibling ori) = rt (example_forwarder ori)" "fw (example_sibling ori) = forwarder_start"
  "rt_role (rt (example_sibling ori)) = ForwarderRole forwarder_start" "rt_orientation (rt (example_sibling ori)) = ori"
  "dev (example_sibling ori) = device_start" "nd (example_sibling ori) = node_start_state"
  "env (lk (example_sibling ori)) = quiet_env"
  "rt_role (rt example_home) = HomeRole \<lparr>is_provisioned = False\<rparr>" "rt_orientation (rt example_home) = ORIENTATION_CENTER"
  "dev example_home = device_start" "nd example_home = node_start_state"
  "node_table example_home = routing_table_init ORIENTATION_CENTER"
  by (simp_all add: example_sibling_def example_home_def entered_def example_defs rt_init_home_def create_home_core_def
      upd_rt_def fw_def orientations link_init_def Let_def)

lemma sibling_provision_runs:
  "\<exists>r'. sibl_handler (SiblProvision a b (NETWORK 0x0A000000 0xFF000000)) (example_sibling 2) = Some (Inr r')"
proof -
  have "get_node_subnet (NETWORK 0x0A000000 0xFF000000) 2 = Some (NETWORK 0x0A400000 0xFFE00000)" by code_simp
  then show ?thesis
    using ap_from_start [of "upd_fw f (example_sibling 2)" for f]
    by (simp add: sibl_handler_def fwd_on_provision_def entered_boards own_subnet_def wl_enable_ap_mode_def
        forwarder_start_def upd_fw_def upd_rt_def device_start_def)
qed

lemma home_provision_runs:
  "\<exists>h'. sibl_handler (SiblProvision a b (NETWORK 0x0A000000 0xFF000000)) example_home = Some (Inr h')"
proof -
  let ?s = "NETWORK 0x0AA00000 0xFFE00000"
  have s: "get_node_subnet (NETWORK 0x0A000000 0xFF000000) (ucast ORIENTATION_CENTER) = Some ?s" by code_simp
  obtain h1 where h1: "add_global_route ?s ORIENTATION_CENTER example_home = Some h1"
    using add_watched [OF entered_watches(2)] by blast
  have "dev_mode (dev h1) = NAN" "nd h1 = node_start_state"
    using add_route_result(6,8) [OF h1] by (simp_all add: entered_boards device_start_def)
  from ap_from_start [OF this] obtain h2 where "wl_enable_ap_mode ?s h1 = Some h2" unfolding wl_enable_ap_mode_def by blast
  with s h1 show ?thesis
    by (simp add: sibl_handler_def home_on_provision_def own_subnet_def entered_boards)
qed

lemma sibling_handshake_runs:
  "\<exists>d' q msg. fwd_on_handshake (NETWORK 0 0) (NETWORK 0x0A000000 0xFF000000) 1 (example_sibling 1) = Some d' \<and>
     q \<in> set (spi_attempts (new_effects (lk (example_sibling 1)) (lk d'))) \<and>
     frame_message q = component_byte RS_ROUTING # msg"
proof -
  let ?n = "NETWORK 0x0A000000 0xFF000000" and ?d = "example_sibling 1" and ?s = "NETWORK 0x0A200000 0xFFE00000"
  have b: "get_node_subnet ?n 1 = Some ?s" by code_simp
  let ?d2 = "node_set_network_settings (nw_addr ?s) (nw_mask ?s) (upd_fw (\<lambda>st. st\<lparr>fw_dtr := 1,
    fw_device_network := ?s, fw_node_network := ?n, fw_global_state := GLOBAL_STATE_WITH_NETWORK,
    fw_is_local_root := True\<rparr>) ?d)"
  have d2: "watches_table ?d2" "lk ?d2 = lk ?d" "env (lk ?d) = quiet_env"
    using entered_watches(1) [of 1]
    by (simp_all add: watches_table_def node_set_network_settings_def upd_nd_def entered_boards)
  obtain d3 where d3: "add_global_route (NETWORK 0 0) (rt_orientation (rt ?d2)) ?d2 = Some d3"
    using add_watched [OF d2(1)] by blast
  let ?e = "SiblProvision (ucast (rt_orientation (rt d3))) (ucast (fw_dtr (fw d3) + 1)) (fw_node_network (fw d3))"
  let ?d' = "snd (rt_broadcast ?e d3)"
  have h: "fwd_on_handshake (NETWORK 0 0) ?n 1 ?d = Some ?d'"
    using b d3 by (simp add: fwd_on_handshake_def own_subnet_def entered_boards forwarder_start_def Let_def)
  have "env (lk d3) = quiet_env" using add_route_result(7) [OF d3] d2 by simp
  then obtain q where q: "q \<in> set (spi_attempts (new_effects (lk d3) (lk ?d')))"
    using rt_broadcast_reaches_bus [of d3 ?e] by (auto simp: reliable_def quiet_env_def ring_link_netif_mtu_def)
  have step: "link_step (lk d3) (lk ?d')"
    using only_link_rt_broadcast [unfolded only_link_def] by blast
  have "new_effects (lk ?d) (lk ?d') = new_effects (lk ?d) (lk d3) @ new_effects (lk d3) (lk ?d')"
    using new_effects_trans [OF _ step] add_route_frames [OF d3] d2(2) by metis
  then have "q \<in> set (spi_attempts (new_effects (lk ?d) (lk ?d')))" using q by simp
  with h rt_broadcast_frames [OF q] show ?thesis by blast
qed

theorem provision_reaches_node_witness:
  "\<exists>d' provider dtr' r' h'. fwd_on_handshake (NETWORK 0 0) (NETWORK 0x0A000000 0xFF000000) 1 (example_sibling 1) = Some d' \<and>
     fw_device_network (fw d') = NETWORK 0x0A200000 0xFFE00000 \<and>
     sibl_handler (SiblProvision provider dtr' (NETWORK 0x0A000000 0xFF000000)) (example_sibling 2) = Some (Inr r') \<and>
     fw_device_network (fw r') = NETWORK 0x0A400000 0xFFE00000 \<and>
     sibl_handler (SiblProvision provider dtr' (NETWORK 0x0A000000 0xFF000000)) example_home = Some (Inr h') \<and>
     node_table h' = fst (routing_table_add 0x0AA00000 0xFFE00000 5 (routing_table_init 5))"
proof -
  let ?n = "NETWORK 0x0A000000 0xFF000000"
  have wf: "wf_network 8 ?n"
    by (simp add: wf_network_def prefix_mask_def mask_eq_exp_minus_1 push_bit_eq_mult)
  obtain d' q msg where d': "fwd_on_handshake (NETWORK 0 0) ?n 1 (example_sibling 1) = Some d'"
    "q \<in> set (spi_attempts (new_effects (lk (example_sibling 1)) (lk d')))"
    "frame_message q = component_byte RS_ROUTING # msg" using sibling_handshake_runs by blast
  have one: "fw_global_state (fw (example_sibling 1)) = GLOBAL_STATE_WITHOUT_NETWORK"
    "rt_orientation (rt (example_sibling 1)) \<in> {1..4}" "waits_for_network (example_sibling 2)" "waits_for_network example_home"
    by (simp_all add: entered_boards forwarder_start_def waits_for_network_def word_le_nat_alt)
  have b: "get_node_subnet ?n 1 = Some (NETWORK 0x0A200000 0xFFE00000)" "get_node_subnet ?n 2 = Some (NETWORK 0x0A400000 0xFFE00000)"
    "get_node_subnet ?n (ucast ORIENTATION_CENTER) = Some (NETWORK 0x0AA00000 0xFFE00000)" by code_simp+
  have eight: "(8 :: nat) \<le> 27" and one_word: "ucast (1 :: u8) = (1 :: u32)" by simp_all
  obtain provider dtr' own where p: "get_node_subnet ?n 1 = Some own" "fw_device_network (fw d') = own"
    and all: "\<forall>(r :: rt_sys) r'. waits_for_network r \<and> rt_orientation (rt r) \<noteq> 1 \<and>
      sibl_handler (SiblProvision provider dtr' ?n) r = Some (Inr r') \<longrightarrow> takes_own_block ?n own r r'"
    using provision_reaches_node [OF d'(1) one(1) wf eight one(2) d'(2,3), unfolded entered_boards(4)] unfolding one_word by blast
  note takes = all [rule_format, OF conjI, OF _ conjI]
  obtain r' h' where run: "sibl_handler (SiblProvision provider dtr' ?n) (example_sibling 2) = Some (Inr r')"
    "sibl_handler (SiblProvision provider dtr' ?n) example_home = Some (Inr h')"
    using sibling_provision_runs home_provision_runs by metis
  have "fw_device_network (fw r') = NETWORK 0x0A400000 0xFFE00000"
    using takes [OF one(3) _ run(1)] b(2) by (auto simp: takes_own_block_def own_block_def entered_boards)
  moreover have "node_table h' = fst (routing_table_add 0x0AA00000 0xFFE00000 5 (routing_table_init 5))"
    using takes [OF one(4) _ run(2)] b(3) by (auto simp: takes_own_block_def own_block_def entered_boards orientations)
  moreover have "fw_device_network (fw d') = NETWORK 0x0A200000 0xFFE00000" using p b(1) by simp
  ultimately show ?thesis using d'(1) run by blast
qed

section \<open>Gateway requests\<close>

lemma add_gateway:
  "default_gateway (fst (routing_table_add n m out t)) =
     (if n = 0 \<and> m = 0 then out else default_gateway t)"
  by (auto simp: routing_table_add_def Let_def split: add_scan.splits)

lemma hag_gateway:
  assumes "nw_addr first \<noteq> 0" "add_hag_routes first ns d = Some d'"
    and "NETWORK 0 0 \<in> set ns \<or> default_gateway (node_table d) = rt_orientation (rt d)"
  shows "default_gateway (node_table d') = rt_orientation (rt d)"
  using assms(2,3)
proof (induction ns arbitrary: d)
  case (Cons n ns)
  obtain d1 where 1: "add_global_route n (rt_orientation (rt d)) d = Some d1" "add_hag_routes first ns d1 = Some d'"
    using Cons.prems(1) assms(1) by (auto split: Option.bind_splits)
  have g: "default_gateway (node_table d1) =
      (if nw_addr n = 0 \<and> nw_mask n = 0 then rt_orientation (rt d) else default_gateway (node_table d))"
    using add_route_result(2) [OF 1(1)] add_gateway by simp
  have "NETWORK 0 0 \<in> set ns \<or> default_gateway (node_table d1) = rt_orientation (rt d1)"
    using Cons.prems(2) g add_route_result(1) [OF 1(1)] by auto
  from Cons.IH [OF 1(2) this] add_route_result(1) [OF 1(1)] show ?case by simp
qed simp

text \<open>
  Property C28 (routing, gateway requests): the loop over the sixteen networks of a request tests
  the first one in every round and not the one it is at, so it runs over the unused places too. A
  request that names at least one network, and fewer than sixteen, leaves the receiver with itself
  as the default gateway of its node: all traffic of the node for the rest of the mesh turns to
  the node that just asked for a way to the root.
\<close>

theorem gateway_request_takes_default_route:
  assumes "fwd_on_new_gateway_request ns d = Some d'"
    and "nw_addr (hd ns) \<noteq> 0" "NETWORK 0 0 \<in> set ns"
  shows "default_gateway (node_table d') = rt_orientation (rt d)"
proof -
  obtain d1 where 1: "add_hag_routes (hd ns) ns d = Some d1"
    using assms(1) by (auto simp: fwd_on_new_gateway_request_def split: Option.bind_splits)
  have "node_table d' = node_table d1"
    using assms(1) 1 by (auto simp: fwd_on_new_gateway_request_def Let_def split: if_splits)
  with hag_gateway [OF assms(2) 1] assms(3) show ?thesis by simp
qed

theorem gateway_request_takes_default_route_witness:
  "\<exists>d'. fwd_on_new_gateway_request (NETWORK 0x0A200000 0xFFE00000 # replicate 15 (NETWORK 0 0))
       (example_forwarder 3) = Some d' \<and>
     default_gateway (node_table (example_forwarder 3)) = 5 \<and> default_gateway (node_table d') = 3"
proof -
  let ?ns = "NETWORK 0x0A200000 0xFFE00000 # replicate 15 (NETWORK 0 0)"
  obtain d1 where "add_hag_routes (hd ?ns) ?ns (example_forwarder 3) = Some d1"
    using hag_outside [of "example_forwarder 3" "hd ?ns" ?ns] by auto
  then have "\<exists>d'. fwd_on_new_gateway_request ?ns (example_forwarder 3) = Some d'"
    by (simp add: fwd_on_new_gateway_request_def Let_def)
  then obtain d' where d': "fwd_on_new_gateway_request ?ns (example_forwarder 3) = Some d'" ..
  from gateway_request_takes_default_route [OF d'] d' show ?thesis
    by (auto simp: routing_table_init_def orientations)
qed

text \<open>
  A board takes the distance of the peer that
  provides its network as its own, without adding one, as it does for its siblings. The board of a
  node next to the root therefore has distance 1, which the handlers of gateway requests read as
  being the root: it drops a request of its siblings, and answers a winner with a response at
  distance 1 in the name of its own network.
\<close>

lemma child_of_root_answers_as_root:
  assumes "fwd_on_handshake external n 1 d = Some d'"
    and "fw_global_state (fw d) = GLOBAL_STATE_WITHOUT_NETWORK"
  shows "fwd_on_send_new_gateway_request ns d' = d' \<and>
    fwd_on_new_gateway_winner dtr d' = snd (wl_send_peer_message (PeerNewGatewayResponse n 1) d')"
proof -
  have "fw_dtr (fw d') = 1 \<and> fw_node_network (fw d') = n"
    using assms
    by (auto simp: fwd_on_handshake_def Let_def fw_def node_set_network_settings_def upd_nd_def
        dest!: add_route_result(1) split: Option.bind_splits)
  then show ?thesis
    by (simp add: fwd_on_send_new_gateway_request_def fwd_on_new_gateway_winner_def)
qed

end
