(* ===== verification/Node_Join.thy ===== *)
theory Node_Join
  imports Routing_Properties
begin

text \<open>
  How a node joins the mesh: the outer boards of two nodes are linked, the one that is an access
  point tells its networks, and the other takes its node's network from it and answers. The
  messages are the bytes that each board hands to its socket inside its critical section.
\<close>

section \<open>What a board hands to its socket\<close>

fun sock_bytes :: "effect list \<Rightarrow> byte list list" where
  "sock_bytes [] = []"
| "sock_bytes (SockSend bs n # es) = bs # sock_bytes es"
| "sock_bytes (_ # es) = sock_bytes es"

lemma sock_bytes_append [simp]: "sock_bytes (es @ fs) = sock_bytes es @ sock_bytes fs"
  by (induction es rule: sock_bytes.induct) simp_all

text \<open>From one link to another nothing but this message went to the socket.\<close>

definition says :: "byte list set \<Rightarrow> link \<Rightarrow> link \<Rightarrow> bool" where
  "says M l l' \<longleftrightarrow> link_step l l' \<and> set (sock_bytes (new_effects l l')) \<subseteq> M"

lemma says_refl [simp]: "says M l l"
  by (simp add: says_def)

lemma says_trans: "says M a b \<Longrightarrow> says M b c \<Longrightarrow> says M a c"
  using new_effects_trans [of a b c] link_step_trans [of a b c] by (auto simp: says_def)

lemma says_emit: "(\<forall>bs n. e \<noteq> SockSend bs n) \<Longrightarrow> says M l (emit e l)"
  by (cases e) (simp_all add: says_def)

lemma says_tick [simp]: "says M l (tick l)"
  by (simp add: says_def new_effects_def)

lemma says_mono: "says M l l' \<Longrightarrow> M \<subseteq> N \<Longrightarrow> says N l l'"
  by (auto simp: says_def)

lemma says_broadcast: "broadcast_to_siblings msg l = (ok, l') \<Longrightarrow> says M l l'"
  unfolding says_def
  by (auto simp: broadcast_to_siblings_def send_broadcast_def Let_def spi_transmit_def
      ring_link_lowlevel_transmit_payload_def new_effects_def link_step_def
      split: if_splits prod.splits)

lemma says_retry: "retry n (broadcast_to_siblings msg) l = (ok, l') \<Longrightarrow> says M l l'"
proof (induction n arbitrary: l)
  case (Suc n)
  obtain ok1 l1 where one: "broadcast_to_siblings msg l = (ok1, l1)"
    by (cases "broadcast_to_siblings msg l")
  note 1 = says_broadcast [OF one, of M]
  show ?case
  proof (cases ok1)
    case True
    with Suc.prems one 1 show ?thesis by simp
  next
    case False
    with Suc.prems one have "says M (vTaskDelay_ms RETRY_DELAY_MS l1) l'" by (intro Suc.IH) simp
    moreover have "says M l1 (vTaskDelay_ms RETRY_DELAY_MS l1)"
      by (simp add: vTaskDelay_ms_def says_emit)
    ultimately show ?thesis using 1 says_trans by blast
  qed
qed simp

lemma says_rs_broadcast: "says M l (snd (rs_broadcast c msg l))"
proof (cases "length msg > RS_MAX_BROADCAST_LEN")
  case True
  then show ?thesis by (simp add: rs_broadcast_def os_panic_def says_emit)
next
  case False
  obtain ok l' where "retry MAX_RETRIES (broadcast_to_siblings (component_byte c # msg)) l = (ok, l')"
    by (cases "retry MAX_RETRIES (broadcast_to_siblings (component_byte c # msg)) l")
  with False says_retry [OF this] show ?thesis
    by (simp add: rs_broadcast_def sb_broadcast_to_siblings_def node_broadcast_to_siblings_def)
qed

lemma says_board [simp]:
  "says M (lk d) (lk (snd (board_broadcast c msg d)))" "says M (lk d) (lk (board_panic t d))"
  "says M (lk d) (lk (delay_ms ms e)) = says M (lk d) (vTaskDelay_ms ms (lk e))"
  using says_rs_broadcast [of M "lk d" c msg]
  by (simp_all add: board_broadcast_def case_prod_unfold Let_def board_panic_def os_panic_def says_emit delay_ms_def)

lemma says_rt_broadcast [simp]: "says M (lk d) (lk (snd (rt_broadcast e d)))"
  by (simp add: rt_broadcast_def)

lemma says_refresh: "ss_refresh c d = Some d' \<Longrightarrow> says M (lk d) (lk d')"
  by (auto simp: ss_refresh_def broadcast_data_def Let_def split: if_splits Option.bind_splits option.splits)

lemma says_add: "add_global_route n out d = Some d' \<Longrightarrow> says M (lk d) (lk d')"
proof -
  assume a: "add_global_route n out d = Some d'"
  obtain t full where r: "routing_table_add (nw_addr n) (nw_mask n) out (node_table d) = (t, full)"
    by (cases "routing_table_add (nw_addr n) (nw_mask n) out (node_table d)")
  let ?d1 = "(if full then board_panic ''Routing table is full'' d else d)\<lparr>node_table := t\<rparr>"
  have "ss_refresh RS_ROUTING ?d1 = Some d'" using a r by (simp add: add_global_route_def)
  from says_refresh [OF this, of M] have "says M (lk ?d1) (lk d')" .
  moreover have "says M (lk d) (lk ?d1)" by simp
  ultimately show ?thesis using says_trans by blast
qed

lemma says_socket: "socket_send m d = (ok, d') \<Longrightarrow> says {m} (lk d) (lk d')"
  by (auto simp: socket_send_def Let_def says_def new_effects_def link_step_def)

lemma says_send_retry:
  assumes f: "\<And>d ok d'. f d = (ok, d') \<Longrightarrow> says M (lk d) (lk d')" and w: "\<And>d. says M (lk d) (lk (wait d))"
  shows "send_retry n f wait d = (ok, d') \<Longrightarrow> says M (lk d) (lk d')"
proof (induction n arbitrary: d)
  case (Suc n)
  obtain ok1 d1 where 1: "f d = (ok1, d1)" by (cases "f d")
  show ?case
  proof (cases ok1)
    case False
    with Suc 1 have "says M (lk (wait d1)) (lk d')" by simp
    with f [OF 1] w show ?thesis using says_trans by blast
  qed (use Suc.prems 1 f [OF 1] in simp)
qed simp

lemma says_send: "says {peer_event_bytes e} (lk d) (lk (snd (wl_send_peer_message e d)))"
proof -
  have dev: "says {m} (lk x) (lk x')" if "device_send_wireless_message m x = (ok, x')" for m ok and x x' :: "'a rt_sys_scheme"
    using that by (auto simp: device_send_wireless_message_def server_send_message_def
        client_send_message_def intro: says_socket split: device_mode.splits if_splits)
  have w: "says {m} (lk x) (lk (delay_ms RETRY_DELAY_MS x))" for m and x :: "'a rt_sys_scheme"
    by (simp add: vTaskDelay_ms_def says_emit)
  show ?thesis
    using says_send_retry [OF dev w]
    by (cases "send_retry MAX_RETRIES (device_send_wireless_message (peer_event_bytes e)) (delay_ms RETRY_DELAY_MS) d")
      (simp add: wl_send_peer_message_def node_send_wireless_message_def)
qed

section \<open>The critical sections of the two boards\<close>

definition handshake_of :: "rt_forwarder_state \<Rightarrow> rt_peer_event" where
  "handshake_of s = PeerHandshake (fw_node_network s) (fw_device_network s) (fw_dtr s)"

lemma section_of:
  assumes "internal_queue (rt d) = []" "external_queue (rt d) = es"
  shows "on_critical_section d =
    map_option (\<lambda>(fin, d2). if fin then upd_rt (\<lambda>r. r\<lparr>external_queue := [], internal_queue := []\<rparr>) d2 else d2)
      (dispatch_events peer_handler (\<lambda>_. board_panic ''Unknown peer message'') es d)"
  using assms by (simp add: on_critical_section_def map_option_case split: option.splits prod.splits)

lemma connected_result:
  assumes "rt_role (rt d) = ForwarderRole s"
  shows "peer_handler (PeerConnected n) d = Some (Inr (fwd_on_peer_connected d))"
    and "rt_role (rt (fwd_on_peer_connected d)) = ForwarderRole (s\<lparr>fw_local_state := LOCAL_STATE_CONNECTED\<rparr>)"
    and "rt_orientation (rt (fwd_on_peer_connected d)) = rt_orientation (rt d)"
    and "node_table (fwd_on_peer_connected d) = node_table d"
    and "says {peer_event_bytes (handshake_of s)} (lk d) (lk (fwd_on_peer_connected d))"
proof -
  let ?d1 = "upd_fw (\<lambda>s. s\<lparr>fw_local_state := LOCAL_STATE_CONNECTED\<rparr>) d"
  have "fw d = s" using assms by (simp add: fw_def)
  then have "says {peer_event_bytes (handshake_of s)} (lk ?d1) (lk (fwd_on_peer_connected d))"
    using says_send [of "handshake_of s" ?d1] by (simp add: fwd_on_peer_connected_def handshake_of_def Let_def)
  then show "says {peer_event_bytes (handshake_of s)} (lk d) (lk (fwd_on_peer_connected d))" by simp
  show "peer_handler (PeerConnected n) d = Some (Inr (fwd_on_peer_connected d))"
    using assms by (simp add: peer_handler_def)
  show "rt_role (rt (fwd_on_peer_connected d)) = ForwarderRole (s\<lparr>fw_local_state := LOCAL_STATE_CONNECTED\<rparr>)"
    "rt_orientation (rt (fwd_on_peer_connected d)) = rt_orientation (rt d)"
    "node_table (fwd_on_peer_connected d) = node_table d"
    using \<open>fw d = s\<close> by (simp_all add: fwd_on_peer_connected_def Let_def)
qed

lemma child_handshake:
  assumes "rt_role (rt d) = ForwarderRole s" "fw_global_state s = GLOBAL_STATE_WITHOUT_NETWORK"
    and "peer_handler (PeerHandshake ext prov dtr) d = Some r"
  shows "\<exists>d' block. r = Inr d' \<and> get_node_subnet prov (ucast (rt_orientation (rt d))) = Some block \<and>
    rt_role (rt d') = ForwarderRole (s\<lparr>fw_dtr := dtr, fw_device_network := block, fw_node_network := prov,
      fw_global_state := GLOBAL_STATE_WITH_NETWORK, fw_is_local_root := True\<rparr>) \<and>
    rt_orientation (rt d') = rt_orientation (rt d) \<and>
    node_table d' = fst (routing_table_add 0 0 (rt_orientation (rt d)) (node_table d)) \<and> says {} (lk d) (lk d')"
proof -
  have fw: "fw d = s" using assms(1) by (simp add: fw_def)
  obtain block d3 where block: "get_node_subnet prov (ucast (rt_orientation (rt d))) = Some block"
    and d3: "add_global_route (NETWORK 0 0) (rt_orientation (rt d))
      (node_set_network_settings (nw_addr block) (nw_mask block) (upd_fw (\<lambda>s. s\<lparr>fw_dtr := dtr,
        fw_device_network := block, fw_node_network := prov, fw_global_state := GLOBAL_STATE_WITH_NETWORK,
        fw_is_local_root := True\<rparr>) d)) = Some d3"
    and r: "r = Inr (snd (rt_broadcast (SiblProvision (ucast (rt_orientation (rt d3)))
      (ucast (fw_dtr (fw d3) + 1)) (fw_node_network (fw d3))) d3))"
    using assms by (auto simp: peer_handler_def fwd_on_handshake_def fw own_subnet_def Let_def
        node_set_network_settings_def upd_nd_def split: Option.bind_splits)
  note R = add_route_result [OF d3] and S = says_add [OF d3, of "{}"]
  have "says {} (lk d3) (lk (snd (rt_broadcast x d3)))" for x by simp
  then have "says {} (lk d) (lk (snd (rt_broadcast x d3)))" for x
    using S says_trans by (fastforce simp: node_set_network_settings_def upd_nd_def)
  with R block r fw show ?thesis
    by (simp add: node_set_network_settings_def upd_nd_def)
qed

lemma parent_handshake:
  assumes "rt_role (rt d) = ForwarderRole s" "fw_global_state s \<noteq> GLOBAL_STATE_WITHOUT_NETWORK"
    and "peer_handler (PeerHandshake ext prov dtr) d = Some r"
  shows "\<exists>d'. r = Inr d' \<and> rt d' = rt d \<and> says {} (lk d) (lk d') \<and>
    node_table d' = fst (routing_table_add (nw_addr ext) (nw_mask ext) (rt_orientation (rt d)) (node_table d))"
proof -
  have "fw d = s" using assms(1) by (simp add: fw_def)
  then obtain d' where "add_global_route ext (rt_orientation (rt d)) d = Some d'" "r = Inr d'"
    using assms by (auto simp: peer_handler_def fwd_on_handshake_def)
  then show ?thesis using add_route_result(1,2) says_add by blast
qed

lemma section_says:
  assumes "says M (lk d) (lk d')" "raw \<in> set (sock_bytes (new_effects (lk d) (lk d')))"
  shows "raw \<in> M"
  using assms by (auto simp: says_def)

lemma parent_section:
  assumes "rt_role (rt A) = ForwarderRole s" "internal_queue (rt A) = []" "external_queue (rt A) = [PeerConnected n]"
    and "on_critical_section A = Some A1"
  shows "rt_role (rt A1) = ForwarderRole (s\<lparr>fw_local_state := LOCAL_STATE_CONNECTED\<rparr>)"
    "rt_orientation (rt A1) = rt_orientation (rt A)" "internal_queue (rt A1) = []" "node_table A1 = node_table A"
    "says {peer_event_bytes (handshake_of s)} (lk A) (lk A1)"
  using assms(4) section_of [OF assms(2,3)] connected_result [OF assms(1)] by (auto simp: upd_rt_def)

lemma answer_section:
  assumes "rt_role (rt A) = ForwarderRole s" "fw_global_state s \<noteq> GLOBAL_STATE_WITHOUT_NETWORK"
    and "internal_queue (rt A) = []" "external_queue (rt A) = [PeerHandshake ext prov dtr]"
    and "on_critical_section A = Some A'"
  shows "node_table A' = table_step (node_table A) (AddRoute (nw_addr ext) (nw_mask ext) (rt_orientation (rt A)))"
proof -
  obtain r where r: "peer_handler (PeerHandshake ext prov dtr) A = Some r"
    using assms(5) section_of [OF assms(3,4)] by (auto split: option.splits)
  obtain d' where "r = Inr d'"
    "node_table d' = fst (routing_table_add (nw_addr ext) (nw_mask ext) (rt_orientation (rt A)) (node_table A))"
    using parent_handshake [OF assms(1,2) r] by blast
  with r assms(5) section_of [OF assms(3,4)] show ?thesis by (auto simp: upd_rt_def)
qed

lemma child_section:
  assumes "rt_role (rt B) = ForwarderRole s" "fw_global_state s = GLOBAL_STATE_WITHOUT_NETWORK"
    and "internal_queue (rt B) = []" "external_queue (rt B) = [PeerHandshake ext prov dtr, PeerConnected n]"
    and "on_critical_section B = Some B1"
  shows "\<exists>block. get_node_subnet prov (ucast (rt_orientation (rt B))) = Some block \<and>
    rt_role (rt B1) = ForwarderRole (s\<lparr>fw_dtr := dtr, fw_device_network := block, fw_node_network := prov,
      fw_global_state := GLOBAL_STATE_WITH_NETWORK, fw_is_local_root := True, fw_local_state := LOCAL_STATE_CONNECTED\<rparr>) \<and>
    node_table B1 = table_step (node_table B) (AddRoute 0 0 (rt_orientation (rt B))) \<and>
    says {peer_event_bytes (PeerHandshake prov block dtr)} (lk B) (lk B1)"
proof -
  obtain r where r: "peer_handler (PeerHandshake ext prov dtr) B = Some r"
    using assms(5) section_of [OF assms(3,4)] by (auto split: option.splits)
  obtain d1 block where 1: "r = Inr d1" "get_node_subnet prov (ucast (rt_orientation (rt B))) = Some block"
    "rt_role (rt d1) = ForwarderRole (s\<lparr>fw_dtr := dtr, fw_device_network := block, fw_node_network := prov,
      fw_global_state := GLOBAL_STATE_WITH_NETWORK, fw_is_local_root := True\<rparr>)"
    "node_table d1 = fst (routing_table_add 0 0 (rt_orientation (rt B)) (node_table B))" "says {} (lk B) (lk d1)"
    using child_handshake [OF assms(1,2) r] by blast
  note C = connected_result [OF 1(3)]
  have "says {peer_event_bytes (PeerHandshake prov block dtr)} (lk B) (lk (fwd_on_peer_connected d1))"
    using says_trans [OF says_mono [OF 1(5)] C(5)] by (simp add: handshake_of_def)
  with r 1 C assms(5) section_of [OF assms(3,4)] show ?thesis by (auto simp: upd_rt_def)
qed

lemma decoded_handshake: "peer_event_of_bytes (peer_event_bytes (PeerHandshake a b c)) = PeerHandshake a b c"
  by (rule peer_wire.dec_enc) simp

lemma decoded_handshake_of:
  "peer_event_of_bytes (peer_event_bytes (handshake_of s)) =
   PeerHandshake (fw_node_network s) (fw_device_network s) (fw_dtr s)"
  unfolding handshake_of_def by (rule decoded_handshake)

section \<open>Properties\<close>

text \<open>
  Property C22 (routing, two nodes): a board that has a network is linked to a board of a node that
  has none. The first sends its networks; the second reads them before it is told of the link, as
  the client does, takes the block of the first as the network of its own node and its block of
  that, becomes the default gateway of its node, and answers; from the answer the first routes
  its block to the link. These are the only changes of the two tables, so the tables of the
  nodes grow by the routes that the mesh is made of.
\<close>

theorem nodes_join:
  assumes "rt_role (rt A) = ForwarderRole sA" "fw_global_state sA = GLOBAL_STATE_WITH_NETWORK"
    and "internal_queue (rt A) = []" "external_queue (rt A) = [PeerConnected nA]"
    and "on_critical_section A = Some A1" "raw1 \<in> set (sock_bytes (new_effects (lk A) (lk A1)))"
    and "rt_role (rt B) = ForwarderRole sB" "fw_global_state sB = GLOBAL_STATE_WITHOUT_NETWORK"
    and "internal_queue (rt B) = []" "external_queue (rt B) = [peer_event_of_bytes raw1, PeerConnected nB]"
    and "on_critical_section B = Some B1" "raw2 \<in> set (sock_bytes (new_effects (lk B) (lk B1)))"
    and "on_critical_section (upd_rt (\<lambda>r. r\<lparr>external_queue := [peer_event_of_bytes raw2]\<rparr>) A1) = Some A2"
  shows "get_node_subnet (fw_device_network sA) (ucast (rt_orientation (rt B))) = Some (fw_device_network (fw B1)) \<and>
    fw_node_network (fw B1) = fw_device_network sA \<and> fw_dtr (fw B1) = fw_dtr sA \<and>
    fw_global_state (fw B1) = GLOBAL_STATE_WITH_NETWORK \<and> fw_is_local_root (fw B1) \<and>
    node_table B1 = table_step (node_table B) (AddRoute 0 0 (rt_orientation (rt B))) \<and>
    node_table A2 = table_step (node_table A) (AddRoute (nw_addr (fw_device_network sA))
      (nw_mask (fw_device_network sA)) (rt_orientation (rt A)))"
proof -
  note P = parent_section [OF assms(1,3,4,5)]
  have raw1: "raw1 = peer_event_bytes (handshake_of sA)" using section_says [OF P(5) assms(6)] by simp
  have "external_queue (rt B) = [PeerHandshake (fw_node_network sA) (fw_device_network sA) (fw_dtr sA), PeerConnected nB]"
    using assms(10) unfolding raw1 decoded_handshake_of .
  from child_section [OF assms(7,8,9) this assms(11)] obtain block where
    block: "get_node_subnet (fw_device_network sA) (ucast (rt_orientation (rt B))) = Some block"
    and role: "rt_role (rt B1) = ForwarderRole (sB\<lparr>fw_dtr := fw_dtr sA, fw_device_network := block,
      fw_node_network := fw_device_network sA, fw_global_state := GLOBAL_STATE_WITH_NETWORK,
      fw_is_local_root := True, fw_local_state := LOCAL_STATE_CONNECTED\<rparr>)"
    and table: "node_table B1 = table_step (node_table B) (AddRoute 0 0 (rt_orientation (rt B)))"
    and said: "says {peer_event_bytes (PeerHandshake (fw_device_network sA) block (fw_dtr sA))} (lk B) (lk B1)"
    by blast
  have raw2: "raw2 = peer_event_bytes (PeerHandshake (fw_device_network sA) block (fw_dtr sA))"
    using section_says [OF said assms(12)] by simp
  have q: "external_queue (rt (upd_rt (\<lambda>r. r\<lparr>external_queue := [peer_event_of_bytes raw2]\<rparr>) A1)) =
      [PeerHandshake (fw_device_network sA) block (fw_dtr sA)]"
    unfolding raw2 decoded_handshake by (simp add: upd_rt_def)
  have "node_table A2 = table_step (node_table A) (AddRoute (nw_addr (fw_device_network sA))
      (nw_mask (fw_device_network sA)) (rt_orientation (rt A)))"
    using answer_section [OF _ _ _ q assms(13)] P assms(2) by (simp add: upd_rt_def)
  with block role table show ?thesis by (simp add: fw_def)
qed

text \<open>
  Property C40 (routing, two nodes): a board that is told of the link before it has read the networks
  of the other, because these came too late or were lost, sends that it has no network, 0/0.
  The other node takes this as a route and makes the link its default gateway, so that it
  sends everything it does not know to a node that has no way to the root.
\<close>

theorem early_answer_takes_default_route:
  assumes "rt_role (rt B) = ForwarderRole forwarder_start"
    and "internal_queue (rt B) = []" "external_queue (rt B) = [PeerConnected nB]"
    and "on_critical_section B = Some B1" "raw \<in> set (sock_bytes (new_effects (lk B) (lk B1)))"
    and "rt_role (rt A) = ForwarderRole sA" "fw_global_state sA = GLOBAL_STATE_WITH_NETWORK"
    and "internal_queue (rt A) = []" "external_queue (rt A) = [peer_event_of_bytes raw]"
    and "table_wf (node_table A)" "on_critical_section A = Some A1"
  shows "default_gateway (node_table A1) = rt_orientation (rt A) \<and> route_map (node_table A1) = route_map (node_table A) \<and>
    rt_role (rt B1) = ForwarderRole (forwarder_start\<lparr>fw_local_state := LOCAL_STATE_CONNECTED\<rparr>) \<and>
    node_table B1 = node_table B"
proof -
  note P = parent_section [OF assms(1-4)]
  have raw: "raw = peer_event_bytes (handshake_of forwarder_start)" using section_says [OF P(5) assms(5)] by simp
  have "external_queue (rt A) = [PeerHandshake (NETWORK 0 0) (NETWORK 0 0) 0]"
    using assms(9) unfolding raw decoded_handshake_of by (simp add: forwarder_start_def)
  from answer_section [OF assms(6) _ assms(8) this assms(11)] assms(7)
  have "node_table A1 = fst (routing_table_add 0 0 (rt_orientation (rt A)) (node_table A))" by simp
  with rt.add_default [OF assms(10)] P show ?thesis by simp
qed

section \<open>Witnesses\<close>

text \<open>A message goes to the socket when the board is linked to a peer.\<close>

definition linked :: "'a rt_sys_scheme \<Rightarrow> bool" where
  "linked d \<longleftrightarrow> dev_mode (dev d) = AP \<and> 0 \<le> sv_client_sock (wst d) \<or>
     dev_mode (dev d) = STATION \<and> 0 \<le> cl_server_sock (wst d)"

lemma linked_sends:
  assumes "linked d" "device_send_wireless_message m d = (ok, d1)" "m \<noteq> []"
  shows "m \<in> set (sock_bytes (new_effects (lk d) (lk d1)))" "only_link d d1"
  using assms by (auto simp: linked_def device_send_wireless_message_def server_send_message_def
      client_send_message_def socket_send_def Let_def new_effects_def only_link_def link_step_def)

lemma linked_said:
  assumes "linked d"
  shows "peer_event_bytes e \<in> set (sock_bytes (new_effects (lk d) (lk (snd (wl_send_peer_message e d)))))"
proof -
  let ?m = "peer_event_bytes e"
  have m: "?m \<noteq> []" by (cases e) (simp_all add: event_bytes_def le32_def)
  obtain ok d1 where 1: "device_send_wireless_message ?m d = (ok, d1)" by (cases "device_send_wireless_message ?m d")
  have dev: "only_link x x'" if "device_send_wireless_message m x = (ok, x')" for m ok and x x' :: "'a rt_sys_scheme"
    using that by (auto simp: device_send_wireless_message_def server_send_message_def
        client_send_message_def intro: only_link_socket_send split: device_mode.splits if_splits)
  obtain ok' d' where all: "send_retry MAX_RETRIES (device_send_wireless_message ?m) (delay_ms RETRY_DELAY_MS) d = (ok', d')"
    by (cases "send_retry MAX_RETRIES (device_send_wireless_message ?m) (delay_ms RETRY_DELAY_MS) d")
  have rest: "link_step (lk d1) (lk d')"
  proof (cases ok)
    case True
    with all 1 show ?thesis by (simp add: MAX_RETRIES_def numeral_eq_Suc)
  next
    case False
    with all 1 have r: "send_retry 4 (device_send_wireless_message ?m) (delay_ms RETRY_DELAY_MS)
        (delay_ms RETRY_DELAY_MS d1) = (ok', d')"
      by (simp add: MAX_RETRIES_def numeral_eq_Suc)
    from only_link_trans [OF only_link_delay only_link_send_retry [OF dev only_link_delay r]]
    show ?thesis by (simp add: only_link_def)
  qed
  have "link_step (lk d) (lk d1)" using linked_sends(2) [OF assms 1 m] by (simp add: only_link_def)
  from new_effects_trans [OF this rest] linked_sends(1) [OF assms 1 m] all show ?thesis
    by (simp add: wl_send_peer_message_def node_send_wireless_message_def)
qed

lemma connected_said:
  assumes "rt_role (rt d) = ForwarderRole s" "linked d"
  shows "peer_event_bytes (handshake_of s) \<in> set (sock_bytes (new_effects (lk d) (lk (fwd_on_peer_connected d))))"
proof -
  let ?d1 = "upd_fw (\<lambda>s. s\<lparr>fw_local_state := LOCAL_STATE_CONNECTED\<rparr>) d"
  have l: "linked ?d1" using assms(2) by (simp add: linked_def upd_fw_def upd_rt_def)
  from assms(1) linked_said [OF l, of "handshake_of s"] show ?thesis
    by (simp add: fwd_on_peer_connected_def handshake_of_def Let_def fw_def del: peer_event_bytes.simps)
qed

lemma connected_sy: "sy (fwd_on_peer_connected d) = sy d"
  using only_link_fields(1) [OF only_link_send [of "upd_fw (\<lambda>s. s\<lparr>fw_local_state := LOCAL_STATE_CONNECTED\<rparr>) d"]]
  by (simp add: fwd_on_peer_connected_def Let_def)

lemma add_route_linked: "add_global_route n out d = Some d' \<Longrightarrow> linked d' = linked d"
proof -
  assume a: "add_global_route n out d = Some d'"
  obtain t full where r: "routing_table_add (nw_addr n) (nw_mask n) out (node_table d) = (t, full)"
    by (cases "routing_table_add (nw_addr n) (nw_mask n) out (node_table d)")
  let ?d1 = "(if full then board_panic ''Routing table is full'' d else d)\<lparr>node_table := t\<rparr>"
  have "only_link ?d1 d'" using a r only_link_refresh [of RS_ROUTING ?d1 d'] by (simp add: add_global_route_def)
  then have "wst d' = wst ?d1" "dev d' = dev ?d1" by (rule only_link_fields)+
  then show ?thesis by (simp add: linked_def board_panic_def)
qed

lemma child_handshake_runs:
  assumes "rt_role (rt d) = ForwarderRole s" "fw_global_state s = GLOBAL_STATE_WITHOUT_NETWORK"
    and "get_node_subnet prov (ucast (rt_orientation (rt d))) = Some block"
    and "\<not> sync_is_inside_critical_section (sy d) RS_ROUTING"
  shows "\<exists>d'. peer_handler (PeerHandshake ext prov dtr) d = Some (Inr d') \<and> linked d' = linked d"
proof -
  let ?d2 = "node_set_network_settings (nw_addr block) (nw_mask block) (upd_fw (\<lambda>s. s\<lparr>fw_dtr := dtr,
        fw_device_network := block, fw_node_network := prov, fw_global_state := GLOBAL_STATE_WITH_NETWORK,
        fw_is_local_root := True\<rparr>) d)"
  have fw: "fw d = s" using assms(1) by (simp add: fw_def)
  have "sy ?d2 = sy d" "linked ?d2 = linked d"
    by (simp_all add: node_set_network_settings_def upd_nd_def linked_def upd_fw_def upd_rt_def)
  with assms(4) obtain d3 where d3: "add_global_route (NETWORK 0 0) (rt_orientation (rt d)) ?d2 = Some d3"
    "linked d3 = linked d"
    using add_outside [of ?d2 "NETWORK 0 0" "rt_orientation (rt d)"] add_route_linked by metis
  have "linked (snd (rt_broadcast e d3)) = linked d" for e
    using only_link_fields(2,4) [OF only_link_rt_broadcast [of d3 e]] d3(2) by (simp add: linked_def)
  with assms(1-3) fw d3(1) show ?thesis
    by (simp add: peer_handler_def fwd_on_handshake_def own_subnet_def Let_def node_set_network_settings_def upd_nd_def)
qed

lemma answer_section_runs:
  assumes "rt_role (rt A) = ForwarderRole s" "fw_global_state s \<noteq> GLOBAL_STATE_WITHOUT_NETWORK"
    and "internal_queue (rt A) = []" "external_queue (rt A) = [PeerHandshake ext prov dtr]"
    and "\<not> sync_is_inside_critical_section (sy A) RS_ROUTING"
  shows "\<exists>A'. on_critical_section A = Some A'"
proof -
  obtain d' where "add_global_route ext (rt_orientation (rt A)) A = Some d'" using add_outside [OF assms(5)] by blast
  with assms(1,2) have "peer_handler (PeerHandshake ext prov dtr) A = Some (Inr d')"
    by (simp add: peer_handler_def fwd_on_handshake_def fw_def)
  with section_of [OF assms(3,4)] show ?thesis by simp
qed

definition joining_board :: "u8 \<Rightarrow> device_mode \<Rightarrow> rt_forwarder_state \<Rightarrow> rt_peer_event list \<Rightarrow> rt_sys" where
  "joining_board ori mode s es = (upd_rt (\<lambda>r. r\<lparr>rt_role := ForwarderRole s, external_queue := es\<rparr>) (example_forwarder ori))
     \<lparr>dev := device_start\<lparr>dev_mode := mode\<rparr>, wst := statics_start\<lparr>sv_client_sock := 3, cl_server_sock := 3\<rparr>\<rparr>"

lemma joining_board_simps [simp]:
  "rt_role (rt (joining_board ori mode s es)) = ForwarderRole s" "fw (joining_board ori mode s es) = s"
  "rt_orientation (rt (joining_board ori mode s es)) = ori" "external_queue (rt (joining_board ori mode s es)) = es"
  "internal_queue (rt (joining_board ori mode s es)) = []"
  "node_table (joining_board ori mode s es) = routing_table_init ORIENTATION_CENTER"
  "sy (joining_board ori mode s es) = sy (example_board ori)"
  "linked (joining_board ori AP s es)" "linked (joining_board ori STATION s es)"
  by (simp_all add: joining_board_def upd_rt_def fw_def linked_def example_defs routing_zero_def Let_def)

theorem nodes_join_witness:
  "\<exists>A1 raw1 B1 raw2 A2. on_critical_section (joining_board 1 AP (forwarder_start\<lparr>fw_dtr := 1,
       fw_device_network := NETWORK 0x0A200000 0xFFE00000, fw_global_state := GLOBAL_STATE_WITH_NETWORK\<rparr>)
       [PeerConnected (NETWORK 0 0)]) = Some A1 \<and>
     on_critical_section (joining_board 4 STATION forwarder_start [peer_event_of_bytes raw1, PeerConnected (NETWORK 0 0)]) =
       Some B1 \<and> fw_device_network (fw B1) = NETWORK 0x0A300000 0xFFFC0000 \<and>
     on_critical_section (upd_rt (\<lambda>r. r\<lparr>external_queue := [peer_event_of_bytes raw2]\<rparr>) A1) = Some A2 \<and>
     node_table A2 = table_step (routing_table_init ORIENTATION_CENTER) (AddRoute 0x0A200000 0xFFE00000 1)"
proof -
  let ?s = "forwarder_start\<lparr>fw_dtr := 1, fw_device_network := NETWORK 0x0A200000 0xFFE00000,
    fw_global_state := GLOBAL_STATE_WITH_NETWORK\<rparr>"
  let ?c = "PeerConnected (NETWORK 0 0)"
  let ?A = "joining_board 1 AP ?s [?c]" and ?raw = "peer_event_bytes (handshake_of ?s)"
  let ?B = "joining_board 4 STATION forwarder_start [peer_event_of_bytes ?raw, ?c]"
  have out: "\<not> sync_is_inside_critical_section (sy (joining_board ori m s es)) RS_ROUTING" for ori m s es by simp
  obtain A1 where A1: "on_critical_section ?A = Some A1"
    "A1 = upd_rt (\<lambda>r. r\<lparr>external_queue := [], internal_queue := []\<rparr>) (fwd_on_peer_connected ?A)"
    using section_of [of ?A "[?c]"] connected_result(1) [of ?A ?s] by simp
  have 1: "?raw \<in> set (sock_bytes (new_effects (lk ?A) (lk A1)))"
    using connected_said [of ?A ?s] by (simp add: A1(2) upd_rt_def del: peer_event_bytes.simps)
  have h: "peer_event_of_bytes ?raw = PeerHandshake (NETWORK 0 0) (NETWORK 0x0A200000 0xFFE00000) 1"
    unfolding decoded_handshake_of by (simp add: forwarder_start_def)
  have blk: "get_node_subnet (NETWORK 0x0A200000 0xFFE00000) 4 = Some (NETWORK 0x0A300000 0xFFFC0000)" by code_simp
  obtain d1 where d1: "peer_handler (peer_event_of_bytes ?raw) ?B = Some (Inr d1)" "linked d1"
    using child_handshake_runs [of ?B forwarder_start "NETWORK 0x0A200000 0xFFE00000" "NETWORK 0x0A300000 0xFFFC0000"
      "NETWORK 0 0" 1] blk out unfolding h by (auto simp: forwarder_start_def)
  obtain s1 where s1: "rt_role (rt d1) = ForwarderRole s1" and quiet: "says {} (lk ?B) (lk d1)"
    using child_handshake [of ?B forwarder_start] d1(1) unfolding h by (fastforce simp: forwarder_start_def)
  note C = connected_result [OF s1]
  define B1 where "B1 = upd_rt (\<lambda>r. r\<lparr>external_queue := [], internal_queue := []\<rparr>) (fwd_on_peer_connected d1)"
  have B1: "on_critical_section ?B = Some B1"
    using section_of [of ?B "[peer_event_of_bytes ?raw, ?c]"] d1(1) C(1)
    by (simp add: B1_def del: peer_event_bytes.simps)
  have 2: "peer_event_bytes (handshake_of s1) \<in> set (sock_bytes (new_effects (lk ?B) (lk B1)))"
    using new_effects_trans [of "lk ?B" "lk d1" "lk (fwd_on_peer_connected d1)"] quiet C(5) connected_said [OF s1 d1(2)]
    by (simp add: B1_def upd_rt_def says_def del: peer_event_bytes.simps)
  let ?A' = "upd_rt (\<lambda>r. r\<lparr>external_queue := [peer_event_of_bytes (peer_event_bytes (handshake_of s1))]\<rparr>) A1"
  have "rt_role (rt ?A') = ForwarderRole (?s\<lparr>fw_local_state := LOCAL_STATE_CONNECTED\<rparr>)" "internal_queue (rt ?A') = []"
    using connected_result(2) [of ?A ?s] by (simp_all add: A1(2) upd_rt_def)
  moreover have "sy ?A' = sy ?A"
    using connected_sy [of ?A] by (simp add: A1(2) upd_rt_def)
  ultimately obtain A2 where A2: "on_critical_section ?A' = Some A2"
    using answer_section_runs [of ?A' "?s\<lparr>fw_local_state := LOCAL_STATE_CONNECTED\<rparr>"] out
    unfolding decoded_handshake_of by (auto simp: upd_rt_def)
  have start: "fw_global_state forwarder_start = GLOBAL_STATE_WITHOUT_NETWORK" by (simp add: forwarder_start_def)
  have Q: "rt_role (rt ?A) = ForwarderRole ?s" "fw_global_state ?s = GLOBAL_STATE_WITH_NETWORK"
    "internal_queue (rt ?A) = []" "external_queue (rt ?A) = [?c]" "rt_role (rt ?B) = ForwarderRole forwarder_start"
    "internal_queue (rt ?B) = []" "external_queue (rt ?B) = [peer_event_of_bytes ?raw, ?c]" by simp_all
  note J = nodes_join [OF Q(1,2,3,4) A1(1) 1 Q(5) start Q(6,7) B1 2 A2]
  have N: "fw_device_network (fw B1) = NETWORK 0x0A300000 0xFFFC0000" using J blk by simp
  have T: "node_table A2 = table_step (routing_table_init ORIENTATION_CENTER) (AddRoute 0x0A200000 0xFFE00000 1)"
    using J by simp
  show ?thesis by (intro exI conjI) (rule A1(1), rule B1, rule N, rule A2, rule T)
qed

theorem early_answer_takes_default_route_witness:
  "\<exists>B1 raw A1. on_critical_section (joining_board 4 STATION forwarder_start [PeerConnected (NETWORK 0 0)]) = Some B1 \<and>
     on_critical_section (joining_board 1 AP (forwarder_start\<lparr>fw_global_state := GLOBAL_STATE_WITH_NETWORK\<rparr>)
       [peer_event_of_bytes raw]) = Some A1 \<and> default_gateway (node_table A1) = 1"
proof -
  let ?c = "PeerConnected (NETWORK 0 0)" and ?s = "forwarder_start\<lparr>fw_global_state := GLOBAL_STATE_WITH_NETWORK\<rparr>"
  let ?B = "joining_board 4 STATION forwarder_start [?c]" and ?raw = "peer_event_bytes (handshake_of forwarder_start)"
  let ?A = "joining_board 1 AP ?s [peer_event_of_bytes ?raw]"
  obtain B1 where B1: "on_critical_section ?B = Some B1"
    "B1 = upd_rt (\<lambda>r. r\<lparr>external_queue := [], internal_queue := []\<rparr>) (fwd_on_peer_connected ?B)"
    using section_of [of ?B "[?c]"] connected_result(1) [of ?B forwarder_start] by simp
  have 1: "?raw \<in> set (sock_bytes (new_effects (lk ?B) (lk B1)))"
    using connected_said [of ?B forwarder_start] by (simp add: B1(2) upd_rt_def del: peer_event_bytes.simps)
  obtain A1 where A1: "on_critical_section ?A = Some A1"
    using answer_section_runs [of ?A ?s] unfolding decoded_handshake_of by auto
  show ?thesis
    using early_answer_takes_default_route [of ?B "NETWORK 0 0" B1 ?raw ?A ?s A1] B1(1) 1 A1 table_wf_init
    by (auto simp del: peer_event_bytes.simps)
qed

end
