(* ===== verification/OS_Mutex.thy ===== *)
theory OS_Mutex
  imports Main "HOL-Library.Monad_Syntax"
begin

text \<open>
  The mutexes of \<open>os/src/os.c\<close> and the macro \<open>WITH_LOCK\<close> of \<open>os.h\<close>. A \<open>mutex_t\<close> holds the handle of
  a FreeRTOS semaphore, 0 standing for \<open>NULL\<close>; the functions take the address of a \<open>mutex_t\<close>. The
  program also calls them with the \<open>mutex_t\<close> itself (\<open>rt_do_route\<close>, \<open>rt_destroy\<close>, the shared state),
  so that the semaphore's own memory is taken for a \<open>mutex_t\<close>. The argument \<open>first_word\<close> gives the word
  that is read there, for each handle, the same whenever it is read; nothing else is assumed of it.
\<close>

section \<open>Mutexes\<close>

text \<open>The variables of type \<open>mutex_t\<close>; \<open>shared_data_t.lock\<close> is a copy of \<open>m_lock\<close>.\<close>

datatype mutex_var = RING_SHARE_BROADCAST_LOCK | SHARED_STATE_BROADCAST_LOCK | NODE_STATE_M_LOCK

text \<open>An argument: \<open>&x\<close> or \<open>x\<close>.\<close>

datatype mutex_arg = Address mutex_var | Content mutex_var

record os_locks =
  mvar :: "mutex_var \<Rightarrow> nat"
  semaphores :: "nat set"  \<comment> \<open>the handles of all semaphores there are\<close>
  holder :: "nat \<Rightarrow> nat option"

definition os_locks_zero :: os_locks where
  "os_locks_zero = \<lparr>mvar = (\<lambda>_. 0), semaphores = {}, holder = (\<lambda>_. None)\<rparr>"

text \<open>The handle that an operation on the argument uses; 0 when it gives up.\<close>

definition handle_of :: "(nat \<Rightarrow> nat) \<Rightarrow> mutex_arg \<Rightarrow> os_locks \<Rightarrow> nat" where
  "handle_of first_word m s =
     (case m of Address v \<Rightarrow> mvar s v | Content v \<Rightarrow> if mvar s v = 0 then 0 else first_word (mvar s v))"

text \<open>The argument \<open>h\<close> is what \<open>xSemaphoreCreateMutex\<close> answers.\<close>

definition mutex_create :: "nat \<Rightarrow> mutex_var \<Rightarrow> os_locks \<Rightarrow> bool \<times> os_locks" where
  "mutex_create h v s =
     (h \<noteq> 0, s\<lparr>mvar := (mvar s)(v := h),
        semaphores := (if h \<noteq> 0 then insert h (semaphores s) else semaphores s),
        holder := (if h \<noteq> 0 then (holder s)(h := None) else holder s)\<rparr>)"

text \<open>
  \<open>t\<close> is the task that calls; \<open>None\<close> stands for a call that does not come back: the task waits, as
  \<open>portMAX_DELAY\<close> sets no limit, or the word that FreeRTOS is given is not the handle of a
  semaphore, which is undefined. A mutex is not recursive: its own holder waits as well.
\<close>

definition mutex_lock :: "(nat \<Rightarrow> nat) \<Rightarrow> nat \<Rightarrow> mutex_arg \<Rightarrow> os_locks \<Rightarrow> (bool \<times> os_locks) option" where
  "mutex_lock first_word t m s =
     (let h = handle_of first_word m s
      in if h = 0 then Some (False, s)
         else if h \<notin> semaphores s then None
         else if holder s h = None then Some (True, s\<lparr>holder := (holder s)(h \<mapsto> t)\<rparr>)
         else None)"

definition mutex_unlock :: "(nat \<Rightarrow> nat) \<Rightarrow> nat \<Rightarrow> mutex_arg \<Rightarrow> os_locks \<Rightarrow> (bool \<times> os_locks) option" where
  "mutex_unlock first_word t m s =
     (let h = handle_of first_word m s
      in if h = 0 then Some (False, s)
         else if h \<notin> semaphores s then None
         else if holder s h = Some t then Some (True, s\<lparr>holder := (holder s)(h := None)\<rparr>)
         else Some (False, s))"

text \<open>Destroying by address sets the variable to \<open>NULL\<close>; the word that is cleared otherwise is the semaphore's.\<close>

definition mutex_destroy :: "(nat \<Rightarrow> nat) \<Rightarrow> mutex_arg \<Rightarrow> os_locks \<Rightarrow> os_locks option" where
  "mutex_destroy first_word m s =
     (let h = handle_of first_word m s
      in if h = 0 then Some s
         else if h \<notin> semaphores s then None
         else Some (s\<lparr>semaphores := semaphores s - {h}, holder := (holder s)(h := None),
                mvar := (case m of Address v \<Rightarrow> (mvar s)(v := 0) | Content v \<Rightarrow> mvar s)\<rparr>))"

text \<open>The results of \<open>mutex_lock\<close> and \<open>mutex_unlock\<close> are not looked at.\<close>

definition WITH_LOCK ::
  "(nat \<Rightarrow> nat) \<Rightarrow> nat \<Rightarrow> mutex_arg \<Rightarrow> (os_locks \<Rightarrow> os_locks option) \<Rightarrow> os_locks \<Rightarrow> os_locks option" where
  "WITH_LOCK first_word t m block s =
     do { (ok, s1) \<leftarrow> mutex_lock first_word t m s;
          s2 \<leftarrow> block s1;
          (ok', s3) \<leftarrow> mutex_unlock first_word t m s2;
          Some s3 }"

definition rt_destroy :: "(nat \<Rightarrow> nat) \<Rightarrow> os_locks \<Rightarrow> os_locks option" where
  "rt_destroy first_word s = mutex_destroy first_word (Content NODE_STATE_M_LOCK) s"

section \<open>Tasks in their locked blocks\<close>

text \<open>What each task is inside of, innermost first, beside the mutexes.\<close>

type_synonym tasks = "nat \<Rightarrow> mutex_arg list"

inductive lock_step :: "(nat \<Rightarrow> nat) \<Rightarrow> os_locks \<times> tasks \<Rightarrow> os_locks \<times> tasks \<Rightarrow> bool" for first_word where
  enter_block: "mutex_lock first_word t m s = Some (ok, s') \<Longrightarrow>
    lock_step first_word (s, inside) (s', inside(t := m # inside t))"
| leave_block: "inside t = m # ms \<Longrightarrow> mutex_unlock first_word t m s = Some (ok, s') \<Longrightarrow>
    lock_step first_word (s, inside) (s', inside(t := ms))"

text \<open>The handles that a task holds, and what holds of them.\<close>

definition held :: "(nat \<Rightarrow> nat) \<Rightarrow> os_locks \<Rightarrow> mutex_arg list \<Rightarrow> nat list" where
  "held first_word s ms = filter (\<lambda>h. h \<noteq> 0) (map (\<lambda>m. handle_of first_word m s) ms)"

definition locks_ok :: "(nat \<Rightarrow> nat) \<Rightarrow> os_locks \<Rightarrow> os_locks \<times> tasks \<Rightarrow> bool" where
  "locks_ok first_word s0 = (\<lambda>(s, inside). mvar s = mvar s0 \<and>
     (\<forall>t. distinct (held first_word s0 (inside t)) \<and>
       (\<forall>h \<in> set (held first_word s0 (inside t)). holder s h = Some t)))"

lemma handle_of_cong: "mvar s = mvar s0 \<Longrightarrow> handle_of first_word m s = handle_of first_word m s0"
  by (simp add: handle_of_def cong: if_cong mutex_arg.case_cong)

lemma held_Cons: "held fw s (m # ms) = (if handle_of fw m s = 0 then [] else [handle_of fw m s]) @ held fw s ms"
  by (simp add: held_def)

lemma lock_step_ok:
  assumes "lock_step first_word c c'" "locks_ok first_word s0 c"
  shows "locks_ok first_word s0 c'"
  using assms
proof cases
  case (enter_block t m s ok s' inside)
  then have same: "mvar s = mvar s0" using assms(2) by (simp add: locks_ok_def)
  note h = handle_of_cong [OF same, of first_word m]
  show ?thesis
    using enter_block assms(2) by (fastforce simp: locks_ok_def mutex_lock_def h held_Cons Let_def split: if_splits)
next
  case (leave_block inside t m ms s ok s')
  then have same: "mvar s = mvar s0" using assms(2) by (simp add: locks_ok_def)
  note h = handle_of_cong [OF same, of first_word m]
  let ?h = "handle_of first_word m s0"
  have ok: "distinct (held first_word s0 (inside u))" "x \<in> set (held first_word s0 (inside u)) \<Longrightarrow> holder s x = Some u"
    for u x
    using assms(2) leave_block(1) by (simp_all add: locks_ok_def)
  have cons: "held first_word s0 (inside t) = (if ?h = 0 then [] else [?h]) @ held first_word s0 ms"
    by (simp add: leave_block(3) held_Cons)
  have other: "?h \<notin> set (held first_word s0 (inside u))" if "?h \<noteq> 0" "u \<noteq> t" for u
    using ok(2) [of ?h t] ok(2) [of ?h u] cons that by auto
  have "?h \<notin> set (held first_word s0 ms)" if "?h \<noteq> 0" using ok(1) [of t] cons that by simp
  with other ok(1) [of t] ok(2) [of _ t] cons show ?thesis
    using leave_block(4) ok same
    by (auto simp: leave_block(2) locks_ok_def mutex_unlock_def h Let_def split: if_splits)
qed

lemma lock_steps_ok: "(lock_step first_word)\<^sup>*\<^sup>* c c' \<Longrightarrow> locks_ok first_word s0 c \<Longrightarrow> locks_ok first_word s0 c'"
  by (induction rule: rtranclp_induct) (auto intro: lock_step_ok)

section \<open>Property\<close>

text \<open>
  Property C24 (the mutexes): whatever tasks come and go in blocks of \<open>WITH_LOCK\<close>, two of them are
  never both inside blocks that name a created mutex by its address. A block that names it by its
  value, as \<open>rt_do_route\<close> and \<open>shared_state\<close> do, does not take that mutex, and whether it can be entered
  does not depend on who holds it: a task can be inside while another changes the table. In the same
  way \<open>rt_destroy\<close> leaves the variable and the mutex as they are. The exception is a semaphore whose
  own memory begins with its own handle.
\<close>

theorem with_lock_exclusion:
  assumes "\<And>h. holder s0 h = None" and "(lock_step first_word)\<^sup>*\<^sup>* (s0, \<lambda>_. []) (s, inside)"
  shows "(\<forall>v t u. mvar s0 v \<noteq> 0 \<longrightarrow> Address v \<in> set (inside t) \<longrightarrow> Address v \<in> set (inside u) \<longrightarrow> t = u) \<and>
    (\<forall>v t ok s'. first_word (mvar s v) \<noteq> mvar s v \<longrightarrow> mutex_lock first_word t (Content v) s = Some (ok, s') \<longrightarrow>
      holder s' (mvar s v) = holder s (mvar s v) \<and>
      (\<forall>who. mutex_lock first_word t (Content v) (s\<lparr>holder := (holder s)(mvar s v := who)\<rparr>) =
         Some (ok, s'\<lparr>holder := (holder s')(mvar s v := who)\<rparr>))) \<and>
    (\<forall>s'. first_word (mvar s NODE_STATE_M_LOCK) \<noteq> mvar s NODE_STATE_M_LOCK \<longrightarrow> rt_destroy first_word s = Some s' \<longrightarrow>
      mvar s' = mvar s \<and> holder s' (mvar s NODE_STATE_M_LOCK) = holder s (mvar s NODE_STATE_M_LOCK) \<and>
      (mvar s NODE_STATE_M_LOCK \<in> semaphores s' \<longleftrightarrow> mvar s NODE_STATE_M_LOCK \<in> semaphores s))"
proof (intro conjI allI impI)
  have ok: "locks_ok first_word s0 (s, inside)"
    by (rule lock_steps_ok [OF assms(2)]) (simp add: locks_ok_def held_def)
  fix v t u
  assume v: "mvar s0 v \<noteq> 0" "Address v \<in> set (inside t)" "Address v \<in> set (inside u)"
  then have "mvar s0 v \<in> set (held first_word s0 (inside t))" "mvar s0 v \<in> set (held first_word s0 (inside u))"
    by (force simp: held_def handle_of_def)+
  with ok have "holder s (mvar s0 v) = Some t" "holder s (mvar s0 v) = Some u" unfolding locks_ok_def by blast+
  then show "t = u" by simp
next
  fix v t ok s' who
  assume other: "first_word (mvar s v) \<noteq> mvar s v" and lock: "mutex_lock first_word t (Content v) s = Some (ok, s')"
  show "holder s' (mvar s v) = holder s (mvar s v)"
    using lock other by (auto simp: mutex_lock_def handle_of_def Let_def split: if_splits)
  show "mutex_lock first_word t (Content v) (s\<lparr>holder := (holder s)(mvar s v := who)\<rparr>) =
      Some (ok, s'\<lparr>holder := (holder s')(mvar s v := who)\<rparr>)"
  proof (cases "handle_of first_word (Content v) s = 0")
    case True
    then have "handle_of first_word (Content v) (s\<lparr>holder := (holder s)(mvar s v := who)\<rparr>) = 0"
      by (simp add: handle_of_def cong: if_cong)
    with lock True show ?thesis by (simp add: mutex_lock_def)
  next
    case False
    then have h: "mvar s v \<noteq> 0" "first_word (mvar s v) \<noteq> 0" by (simp_all add: handle_of_def split: if_splits)
    have "holder s (first_word (mvar s v)) = None" "first_word (mvar s v) \<in> semaphores s"
      "ok" "s' = s\<lparr>holder := (holder s)(first_word (mvar s v) \<mapsto> t)\<rparr>"
      using lock h by (simp_all add: mutex_lock_def handle_of_def Let_def split: if_splits)
    with h other show ?thesis by (simp add: mutex_lock_def handle_of_def fun_upd_twist [OF other])
  qed
qed (auto simp: rt_destroy_def mutex_destroy_def handle_of_def Let_def split: if_splits)

text \<open>The witness: one task changes the table, another enters the block that looks up a route.\<close>

theorem with_lock_exclusion_witness:
  "\<exists>s s' s''. (lock_step (\<lambda>h. h + 1))\<^sup>*\<^sup>* (os_locks_zero\<lparr>mvar := (\<lambda>_. 7), semaphores := {7, 8}\<rparr>, \<lambda>_. [])
      (s, (\<lambda>_. [])(1 := [Address NODE_STATE_M_LOCK])) \<and>
    lock_step (\<lambda>h. h + 1) (s, (\<lambda>_. [])(1 := [Address NODE_STATE_M_LOCK]))
      (s', (\<lambda>_. [])(1 := [Address NODE_STATE_M_LOCK], 2 := [Content NODE_STATE_M_LOCK])) \<and>
    holder s' 7 = Some 1 \<and> rt_destroy (\<lambda>h. h + 1) s = Some s'' \<and> 7 \<in> semaphores s''"
proof -
  let ?fw = "\<lambda>h :: nat. h + 1" and ?init = "os_locks_zero\<lparr>mvar := (\<lambda>_. 7), semaphores := {7, 8}\<rparr>"
  let ?s = "?init\<lparr>holder := (holder ?init)(7 \<mapsto> 1)\<rparr>"
  let ?s' = "?s\<lparr>holder := (holder ?s)(8 \<mapsto> 2)\<rparr>"
  have start: "\<And>h. holder ?init h = None" by (simp add: os_locks_zero_def)
  have "mutex_lock ?fw 1 (Address NODE_STATE_M_LOCK) ?init = Some (True, ?s)"
    by (simp add: mutex_lock_def os_locks_zero_def handle_of_def)
  then have r: "(lock_step ?fw)\<^sup>*\<^sup>* (?init, \<lambda>_. []) (?s, (\<lambda>_. [])(1 := [Address NODE_STATE_M_LOCK]))"
    using enter_block [where inside = "\<lambda>_. []" and t = 1] by force
  let ?in = "(\<lambda>_ :: nat. [])(1 := [Address NODE_STATE_M_LOCK])"
  have lock: "mutex_lock ?fw 2 (Content NODE_STATE_M_LOCK) ?s = Some (True, ?s')"
    by (simp add: mutex_lock_def os_locks_zero_def handle_of_def)
  obtain s'' where d: "rt_destroy ?fw ?s = Some s''"
    by (simp add: rt_destroy_def mutex_destroy_def handle_of_def os_locks_zero_def)
  note T = with_lock_exclusion [OF start r]
  have other: "?fw (mvar ?s NODE_STATE_M_LOCK) \<noteq> mvar ?s NODE_STATE_M_LOCK" by simp
  have "holder ?s' (mvar ?s NODE_STATE_M_LOCK) = holder ?s (mvar ?s NODE_STATE_M_LOCK)"
    by (rule T [THEN conjunct2, THEN conjunct1, rule_format, OF other lock, THEN conjunct1])
  moreover have "7 \<in> semaphores s''"
    using T [THEN conjunct2, THEN conjunct2, rule_format, OF other d] by simp
  ultimately show ?thesis
    using r enter_block [OF lock, of ?in] d by (intro exI [of _ ?s] exI [of _ ?s'] exI [of _ s'']) simp
qed

end
