(* ===== verification/Table_Race.thy ===== *)
theory Table_Race
  imports Routing_Table
begin

text \<open>
  What a lookup sees while another task changes the routing table. \<open>rt_do_route\<close> takes no lock
  (\<open>OS_Mutex\<close>), so the loads of a lookup and the stores of \<open>routing_table_add\<close> and
  \<open>routing_table_remove_by_output\<close> come in any order. The stores are those of single fields, in the
  order of the statements; an entry that is copied is three of them, and \<open>memmove\<close> is any sequence of
  stores that has its effect, as its specification says no more. The results do not rest on the order of the stores
  of an entry: the lookup goes between two statements, or falls between two rounds of its own loop
  and goes on when the operation is over.
\<close>

section \<open>The stores\<close>

datatype table_store = StoreGateway u8 | StoreNetwork nat u32 | StoreMask nat u32 | StoreOutput nat u8 | StoreCount nat

definition write_entry :: "nat \<Rightarrow> (rt_routing_entry \<Rightarrow> rt_routing_entry) \<Rightarrow> rt_routing_table \<Rightarrow> rt_routing_table" where
  "write_entry i f t = t\<lparr>rt_entries := (rt_entries t)[i := f (rt_entries t ! i)]\<rparr>"

fun do_store :: "table_store \<Rightarrow> rt_routing_table \<Rightarrow> rt_routing_table" where
  "do_store (StoreGateway out) t = t\<lparr>default_gateway := out\<rparr>"
| "do_store (StoreNetwork i n) t = write_entry i (\<lambda>e. e\<lparr>re_network := n\<rparr>) t"
| "do_store (StoreMask i m) t = write_entry i (\<lambda>e. e\<lparr>re_mask := m\<rparr>) t"
| "do_store (StoreOutput i out) t = write_entry i (\<lambda>e. e\<lparr>re_output := out\<rparr>) t"
| "do_store (StoreCount c) t = t\<lparr>rt_count := c\<rparr>"

definition do_stores :: "table_store list \<Rightarrow> rt_routing_table \<Rightarrow> rt_routing_table" where
  "do_stores ws t = fold do_store ws t"

text \<open>The stores of an insertion; \<open>moves\<close> are those of \<open>memmove\<close>, if it is called.\<close>

definition add_stores :: "table_store list \<Rightarrow> u32 \<Rightarrow> u32 \<Rightarrow> u8 \<Rightarrow> rt_routing_table \<Rightarrow> table_store list" where
  "add_stores moves network msk output t =
     (if network = 0 \<and> msk = 0 then [StoreGateway output]
      else case scan_entries (used t) 0 network msk of
        SameEntry i \<Rightarrow> [StoreOutput i output]
      | Position position \<Rightarrow>
          if rt_count t \<ge> MAX_ROUTING_ENTRIES \<or> position \<ge> MAX_ROUTING_ENTRIES then []
          else (if rt_count t - position > 0 then moves else []) @
            [StoreMask position msk, StoreNetwork position network, StoreOutput position output,
             StoreCount (rt_count t + 1)])"

text \<open>\<open>memmove\<close> of the entries from \<open>position\<close> to the last one.\<close>

definition moves_right :: "table_store list \<Rightarrow> u32 \<Rightarrow> u32 \<Rightarrow> rt_routing_table \<Rightarrow> bool" where
  "moves_right moves network msk t \<longleftrightarrow>
     (case scan_entries (used t) 0 network msk of
        SameEntry i \<Rightarrow> True
      | Position position \<Rightarrow> do_stores moves t =
          t\<lparr>rt_entries := memmove_right position (rt_count t - position) (rt_entries t)\<rparr>)"

definition copy_stores :: "nat \<Rightarrow> rt_routing_entry \<Rightarrow> table_store list" where
  "copy_stores i e = [StoreNetwork i (re_network e), StoreMask i (re_mask e), StoreOutput i (re_output e)]"

fun remove_loop_stores :: "rt_routing_entry list \<Rightarrow> u8 \<Rightarrow> nat \<Rightarrow> table_store list" where
  "remove_loop_stores [] output new_count = [StoreCount new_count]"
| "remove_loop_stores (e # shadow) output new_count =
     (if re_output e = output then remove_loop_stores shadow output new_count
      else copy_stores new_count e @ remove_loop_stores shadow output (Suc new_count))"

definition remove_stores :: "u8 \<Rightarrow> rt_routing_table \<Rightarrow> table_store list" where
  "remove_stores output t = remove_loop_stores (used t) output 0"

section \<open>The loads\<close>

text \<open>Where a lookup stands in its loop: at the test of \<open>i\<close>, at a field of an entry, or at the end.\<close>

datatype lookup = AtCount nat | AtMask nat | AtNetwork nat u32 | AtOutput nat | AtGateway | Answered u8

fun lookup_step :: "u32 \<Rightarrow> rt_routing_table \<Rightarrow> lookup \<Rightarrow> lookup" where
  "lookup_step ip t (AtCount i) = (if i < rt_count t then AtMask i else AtGateway)"
| "lookup_step ip t (AtMask i) = AtNetwork i (ip AND re_mask (rt_entries t ! i))"
| "lookup_step ip t (AtNetwork i x) =
     (if x = re_network (rt_entries t ! i) then AtOutput i else AtCount (Suc i))"
| "lookup_step ip t (AtOutput i) = Answered (re_output (rt_entries t ! i))"
| "lookup_step ip t AtGateway = Answered (default_gateway t)"
| "lookup_step ip t (Answered out) = Answered out"

text \<open>The two tasks: the table, the stores that one has left, and where the other is.\<close>

inductive race :: "u32 \<Rightarrow> rt_routing_table \<times> table_store list \<times> lookup \<Rightarrow>
  rt_routing_table \<times> table_store list \<times> lookup \<Rightarrow> bool" for ip where
  loads: "race ip (t, ws, l) (t, ws, lookup_step ip t l)"
| stores: "race ip (t, w # ws, l) (do_store w t, ws, l)"

text \<open>A lookup that begins before the stores and ends with them may give this answer.\<close>

definition may_answer :: "u32 \<Rightarrow> rt_routing_table \<Rightarrow> table_store list \<Rightarrow> u8 \<Rightarrow> bool" where
  "may_answer ip t ws out \<longleftrightarrow> (race ip)\<^sup>*\<^sup>* (t, ws, AtCount 0) (do_stores ws t, [], Answered out)"

text \<open>The route \<open>e\<close>, between those in front and behind, is the only one for the address.\<close>

definition only_route :: "rt_routing_table \<Rightarrow> u32 \<Rightarrow> rt_routing_entry list \<Rightarrow> rt_routing_entry \<Rightarrow> rt_routing_entry list \<Rightarrow> bool" where
  "only_route t ip xs e ys \<longleftrightarrow> used t = xs @ e # ys \<and> matches ip (entry_key e) \<and>
     (\<forall>x \<in> set (xs @ ys). \<not> matches ip (entry_key x))"

text \<open>A new route that comes in front of the one at \<open>position\<close>.\<close>

definition inserts_at :: "rt_routing_table \<Rightarrow> u32 \<Rightarrow> u32 \<Rightarrow> nat \<Rightarrow> bool" where
  "inserts_at t network msk position \<longleftrightarrow> scan_entries (used t) 0 network msk = Position position \<and>
     position < rt_count t \<and> rt_count t < MAX_ROUTING_ENTRIES \<and> (network, msk) \<noteq> (0, 0)"

section \<open>Either task alone\<close>

lemma do_stores_simps [simp]:
  "do_stores [] t = t" "do_stores (w # ws) t = do_stores ws (do_store w t)"
  "do_stores (ws @ vs) t = do_stores vs (do_stores ws t)"
  by (simp_all add: do_stores_def)

lemma stores_run: "(race ip)\<^sup>*\<^sup>* (t, ws @ vs, l) (do_stores ws t, vs, l)"
proof (induction ws arbitrary: t)
  case (Cons w ws)
  have "race ip (t, (w # ws) @ vs, l) (do_store w t, ws @ vs, l)" using stores [of ip t w "ws @ vs" l] by simp
  then show ?case using Cons [of "do_store w t"] by (simp add: converse_rtranclp_into_rtranclp)
qed simp

lemma loads_run: "(race ip)\<^sup>*\<^sup>* (t, ws, l) (t, ws, (lookup_step ip t ^^ k) l)"
  by (induction k) (auto intro: rtranclp.rtrancl_into_rtrancl loads)

lemma round_over:
  assumes "i < rt_count t" "\<not> matches ip (entry_key (rt_entries t ! i))"
  shows "(lookup_step ip t ^^ 3) (AtCount i) = AtCount (Suc i)"
  using assms by (simp add: eval_nat_numeral matches_def entry_key_def)

lemma round_found:
  assumes "i < rt_count t" "matches ip (entry_key (rt_entries t ! i))"
  shows "(lookup_step ip t ^^ 4) (AtCount i) = Answered (re_output (rt_entries t ! i))"
  using assms by (simp add: eval_nat_numeral matches_def entry_key_def)

lemma round_last: "rt_count t \<le> i \<Longrightarrow> (lookup_step ip t ^^ 2) (AtCount i) = Answered (default_gateway t)"
  by (simp add: eval_nat_numeral)

lemma passes:
  assumes "i \<le> rt_count t" "\<forall>j < i. \<not> matches ip (entry_key (rt_entries t ! j))"
  shows "(race ip)\<^sup>*\<^sup>* (t, ws, AtCount 0) (t, ws, AtCount i)"
  using assms
proof (induction i)
  case (Suc i)
  then have "(race ip)\<^sup>*\<^sup>* (t, ws, AtCount i) (t, ws, AtCount (Suc i))"
    using loads_run [of ip t ws "AtCount i" 3] round_over [of i t ip] by simp
  with Suc show ?case by (auto intro: rtranclp_trans)
qed simp

lemma lookup_runs:
  assumes "rt_count t \<le> length (rt_entries t)"
  shows "(race ip)\<^sup>*\<^sup>* (t, ws, AtCount i) (t, ws, Answered (route_loop (drop i (used t)) ip (default_gateway t)))"
proof (induction "rt_count t - i" arbitrary: i)
  case 0
  then have "drop i (used t) = []" "rt_count t \<le> i" by (simp_all add: used_def)
  then show ?case using loads_run [of ip t ws "AtCount i" 2] round_last [of t i ip] by simp
next
  case (Suc k)
  then have i: "i < rt_count t" by simp
  then have d: "drop i (used t) = rt_entries t ! i # drop (Suc i) (used t)"
    using assms(1) by (simp add: used_def Cons_nth_drop_Suc [symmetric])
  show ?case
  proof (cases "matches ip (entry_key (rt_entries t ! i))")
    case True
    then show ?thesis using loads_run [of ip t ws "AtCount i" 4] round_found [OF i]
      by (simp add: d matches_def entry_key_def)
  next
    case False
    then have "(race ip)\<^sup>*\<^sup>* (t, ws, AtCount i) (t, ws, AtCount (Suc i))"
      using loads_run [of ip t ws "AtCount i" 3] round_over [OF i] by simp
    moreover have "route_loop (drop i (used t)) ip (default_gateway t) =
        route_loop (drop (Suc i) (used t)) ip (default_gateway t)"
      using False by (simp add: d matches_def entry_key_def)
    ultimately show ?thesis using Suc.hyps(1) [of "Suc i"] Suc.hyps(2) by (auto intro: rtranclp_trans)
  qed
qed

text \<open>A lookup that nothing comes between is \<open>routing_table_route\<close>.\<close>

lemma lookup_alone:
  assumes "rt_count t \<le> length (rt_entries t)"
  shows "(race ip)\<^sup>*\<^sup>* (t, ws, AtCount 0) (t, ws, Answered (routing_table_route t ip))"
  using lookup_runs [OF assms, of ip ws 0] by (simp add: routing_table_route_def)

text \<open>The stores of an operation, one after the other, are the operation.\<close>

lemma write_entry_simps [simp]:
  "rt_count (write_entry i f t) = rt_count t" "default_gateway (write_entry i f t) = default_gateway t"
  by (simp_all add: write_entry_def)

lemma write_twice:
  "write_entry i f (write_entry i g t) = write_entry i (\<lambda>e. f (g e)) t"
  by (cases "i < length (rt_entries t)") (simp_all add: write_entry_def list_update_beyond)

lemma entry_of_fields: "x\<lparr>re_network := re_network e, re_mask := re_mask e, re_output := re_output e\<rparr> = (e :: rt_routing_entry)"
  by (cases x, cases e) simp

lemma copy_stores_effect: "do_stores (copy_stores i e) t = t\<lparr>rt_entries := (rt_entries t)[i := e]\<rparr>"
  by (simp add: copy_stores_def write_twice) (simp add: write_entry_def entry_of_fields)

lemma remove_loop_stores_effect:
  "do_stores (remove_loop_stores es out k) t =
     (let (es', c) = remove_loop es out (rt_entries t) k in t\<lparr>rt_entries := es', rt_count := c\<rparr>)"
  by (induction es arbitrary: k t) (simp_all add: copy_stores_effect case_prod_unfold Let_def)

lemma remove_stores_effect: "do_stores (remove_stores out t) t = routing_table_remove_by_output out t"
  by (simp add: remove_stores_def remove_loop_stores_effect routing_table_remove_by_output_def)

lemma add_stores_effect:
  assumes "moves_right moves n m t"
  shows "do_stores (add_stores moves n m out t) t = fst (routing_table_add n m out t)"
  using assms
  by (auto simp: add_stores_def routing_table_add_def moves_right_def write_twice Let_def split: add_scan.splits)
    (simp_all add: write_entry_def)

section \<open>Lookups that are disturbed\<close>

lemma route_single:
  assumes "matches ip (entry_key e)" "\<forall>e' \<in> set xs. \<not> matches ip (entry_key e')"
  shows "route_loop (xs @ e # ys) ip d = re_output e"
  using assms by (induction xs) (auto simp: matches_def entry_key_def)

text \<open>A kept route that a removal moves forward, past a lookup that has gone by its new place.\<close>

lemma removal_hides_route:
  assumes "table_wf t" "only_route t ip xs e ys" "re_output e \<noteq> out" "\<exists>x \<in> set xs. re_output x = out"
  shows "routing_table_route t ip = re_output e"
    "routing_table_route (routing_table_remove_by_output out t) ip = re_output e"
    "may_answer ip t (remove_stores out t) (default_gateway t)"
proof -
  let ?r = "routing_table_remove_by_output out t" and ?keep = "\<lambda>e. re_output e \<noteq> out"
  note len = table_wf_lengths [OF assms(1)] and rem = remove_used [OF assms(1), of out]
  have u: "used t = xs @ e # ys" "matches ip (entry_key e)" "\<forall>x \<in> set (xs @ ys). \<not> matches ip (entry_key x)"
    using assms(2) by (simp_all add: only_route_def)
  show "routing_table_route t ip = re_output e"
    unfolding routing_table_route_def u(1) by (rule route_single) (use u in auto)
  have r: "used ?r = filter ?keep xs @ e # filter ?keep ys" using rem(1) u(1) assms(3) by simp
  show "routing_table_route ?r ip = re_output e"
    unfolding routing_table_route_def r by (rule route_single) (use u in auto)
  let ?i = "length xs"
  have i: "?i \<le> rt_count t" using len u(1) by simp
  have "used t ! j = rt_entries t ! j" if "j < ?i" for j using that i len by (simp add: used_def)
  then have "\<forall>j < ?i. \<not> matches ip (entry_key (rt_entries t ! j))"
    using u(1,3) by (metis UnCI nth_append nth_mem set_append)
  then have "(race ip)\<^sup>*\<^sup>* (t, remove_stores out t, AtCount 0) (t, remove_stores out t @ [], AtCount ?i)"
    using passes [OF i] by simp
  also have "(race ip)\<^sup>*\<^sup>* \<dots> (?r, [], AtCount ?i)"
    using stores_run [of ip t "remove_stores out t" "[]"] by (simp only: remove_stores_effect)
  also have "(race ip)\<^sup>*\<^sup>* \<dots> (?r, [], Answered (default_gateway t))"
  proof -
    have "length (filter ?keep xs) < ?i" using assms(4) by (auto intro: length_filter_less)
    then obtain k where k: "?i = Suc (length (filter ?keep xs) + k)" using less_imp_Suc_add by blast
    have "drop ?i (used ?r) = drop k (filter ?keep ys)" unfolding r k by simp
    moreover have "\<forall>e' \<in> set (drop k (filter ?keep ys)). \<not> matches ip (entry_key e')"
      using u(3) by (auto dest: in_set_dropD)
    ultimately have "route_loop (drop ?i (used ?r)) ip (default_gateway ?r) = default_gateway t"
      using route_loop_none rem(4) by metis
    moreover have "rt_count ?r \<le> length (rt_entries ?r)"
      using rem(2,3) len length_filter_le [of ?keep "used t"] by linarith
    ultimately show ?thesis using lookup_runs [of ?r ip "[]" ?i] by simp
  qed
  finally show "may_answer ip t (remove_stores out t) (default_gateway t)" by (simp add: may_answer_def remove_stores_effect)
qed

text \<open>A lookup between two stores of an insertion in front of other routes.\<close>

lemma insertion_stores:
  assumes "inserts_at t n m p"
  shows "add_stores moves n m out t =
    moves @ [StoreMask p m, StoreNetwork p n, StoreOutput p out, StoreCount (rt_count t + 1)]"
  using assms by (auto simp: add_stores_def inserts_at_def)

lemma lookup_between:
  assumes "do_stores ws t = s" "rt_count s \<le> length (rt_entries s)"
  shows "may_answer ip t (ws @ vs) (routing_table_route s ip)"
proof -
  have "(race ip)\<^sup>*\<^sup>* (t, ws @ vs, AtCount 0) (s, vs @ [], AtCount 0)" using stores_run [of ip t ws vs] assms(1) by simp
  also have "(race ip)\<^sup>*\<^sup>* \<dots> (s, vs @ [], Answered (routing_table_route s ip))" by (rule lookup_alone [OF assms(2)])
  also have "(race ip)\<^sup>*\<^sup>* \<dots> (do_stores vs s, [], Answered (routing_table_route s ip))" by (rule stores_run)
  finally show ?thesis using assms(1) by (simp add: may_answer_def)
qed

text \<open>What the table shows while the entries are moved but the new one is not counted yet.\<close>

lemma uncounted_entries:
  assumes "table_wf t" "moves_right moves n m t" "inserts_at t n m p"
  shows "used (write_entry p f (do_stores moves t)) = take p (used t) @ f (used t ! p) # drop p (butlast (used t))"
    "rt_count (do_stores moves t) = rt_count t" "default_gateway (do_stores moves t) = default_gateway t"
    "rt_count t \<le> length (rt_entries (do_stores moves t))"
proof -
  note len = table_wf_lengths [OF assms(1)]
  have at: "scan_entries (used t) 0 n m = Position p" "p < rt_count t" using assms(3) by (simp_all add: inserts_at_def)
  let ?E = "rt_entries t" and ?k = "rt_count t - p" and ?R = "drop (Suc p + (rt_count t - p)) (rt_entries t)"
  have m: "do_stores moves t = t\<lparr>rt_entries := take (Suc p) ?E @ take ?k (drop p ?E) @ ?R\<rparr>"
    using assms(2) at(1) by (simp add: moves_right_def memmove_right_def)
  then show "rt_count (do_stores moves t) = rt_count t" "default_gateway (do_stores moves t) = default_gateway t" by simp_all
  show "rt_count t \<le> length (rt_entries (do_stores moves t))" using len at(2) by (auto simp: m min_def)
  have p: "p < length ?E" "?E ! p = used t ! p" using len at(2) by (simp_all add: used_def)
  have head: "take (Suc p) ?E = take p ?E @ [?E ! p]" using p(1) by (simp add: take_Suc_conv_app_nth)
  have upd: "(take p ?E @ [?E ! p] @ xs)[p := f ((take p ?E @ [?E ! p] @ xs) ! p)] = take p ?E @ f (?E ! p) # xs" for xs
    using p(1) by (simp add: list_update_append nth_append)
  have "used (write_entry p f (do_stores moves t)) = take (rt_count t) (take p ?E @ f (?E ! p) # take ?k (drop p ?E) @ ?R)"
    using upd by (simp add: m used_def write_entry_def head)
  also have "\<dots> = take p (used t) @ f (used t ! p) # take (?k - 1) (take ?k (drop p ?E))"
    using len at(2) p by (simp add: used_def min_def take_Cons')
  also have "take (?k - 1) (take ?k (drop p ?E)) = drop p (butlast (used t))"
    using len at(2) by (simp add: used_def butlast_take drop_take min_def)
  finally show "used (write_entry p f (do_stores moves t)) = take p (used t) @ f (used t ! p) # drop p (butlast (used t))" .
qed

lemma lookup_in_insertion:
  assumes "table_wf t" "moves_right moves n m t" "inserts_at t n m p"
    and "ws @ vs = [StoreMask p m, StoreNetwork p n, StoreOutput p out, StoreCount (rt_count t + 1)]"
    and "do_stores ws (do_stores moves t) = write_entry p f (do_stores moves t)"
  shows "may_answer ip t (add_stores moves n m out t)
    (route_loop (take p (used t) @ f (used t ! p) # drop p (butlast (used t))) ip (default_gateway t))"
proof -
  note U = uncounted_entries [OF assms(1-3)]
  let ?s = "write_entry p f (do_stores moves t)"
  have all: "(moves @ ws) @ vs = add_stores moves n m out t"
    unfolding insertion_stores [OF assms(3)] append_assoc assms(4) ..
  have "rt_count ?s \<le> length (rt_entries ?s)" using U(2,4) by (simp add: write_entry_def)
  from lookup_between [of "moves @ ws" t ?s, OF _ this, of ip vs] assms(5)
  have "may_answer ip t (add_stores moves n m out t) (routing_table_route ?s ip)" unfolding all by simp
  then show ?thesis
    unfolding routing_table_route_def U(1) write_entry_simps U(3) .
qed

lemma inserted_entries:
  assumes "table_wf t" "inserts_at t n m p"
  shows "used (fst (routing_table_add n m out t)) = take p (used t) @ mk_entry n m out # drop p (used t)"
proof -
  have at: "scan_entries (used t) 0 n m = Position p" "rt_count t < 16" "(n, m) \<noteq> (0, 0)"
    using assms(2) by (simp_all add: inserts_at_def MAX_ROUTING_ENTRIES_def)
  have "insert_route (mk_entry n m out) (used t) = take p (used t) @ mk_entry n m out # drop p (used t)"
    using scan_position [OF at(1), of out] by auto
  then show ?thesis using add_used [OF assms(1) at(3), of out] at(2) by (auto split: prod.splits if_splits)
qed

lemma insertion_hides_last:
  assumes "table_wf t" "moves_right moves n m t" "inserts_at t n m p" "only_route t ip es e []" "\<not> matches ip (n, m)"
  shows "routing_table_route t ip = re_output e"
    "routing_table_route (fst (routing_table_add n m out t)) ip = re_output e"
    "may_answer ip t (add_stores moves n m out t) (default_gateway t)"
proof -
  let ?f = "\<lambda>x. x\<lparr>re_mask := m, re_network := n, re_output := out\<rparr>"
  have u: "used t = es @ [e]" "matches ip (entry_key e)" "\<forall>x \<in> set es. \<not> matches ip (entry_key x)"
    using assms(4) by (simp_all add: only_route_def)
  have p: "p \<le> length es" using assms(3) table_wf_lengths [OF assms(1)] u(1) by (simp add: inserts_at_def)
  show "routing_table_route t ip = re_output e"
    unfolding routing_table_route_def u(1) by (rule route_single [OF u(2,3)])
  have "used (fst (routing_table_add n m out t)) = (take p es @ mk_entry n m out # drop p es) @ [e]"
    using inserted_entries [OF assms(1,3), of out] p u(1) by simp
  then show "routing_table_route (fst (routing_table_add n m out t)) ip = re_output e"
    unfolding routing_table_route_def
    by (simp only:) (rule route_single [OF u(2)], use u(3) assms(5) in \<open>auto dest: in_set_takeD in_set_dropD\<close>)
  have none: "\<forall>x \<in> set (take p (used t) @ ?f (used t ! p) # drop p (butlast (used t))). \<not> matches ip (entry_key x)"
    using u p assms(5) by (auto simp: entry_key_def dest: in_set_takeD in_set_dropD)
  have "do_stores [StoreMask p m, StoreNetwork p n, StoreOutput p out] (do_stores moves t) = write_entry p ?f (do_stores moves t)"
    by (simp add: write_twice)
  from lookup_in_insertion [OF assms(1-3) _ this, of "[StoreCount (rt_count t + 1)]" out ip] route_loop_none [OF none]
  show "may_answer ip t (add_stores moves n m out t) (default_gateway t)" by simp
qed

lemma insertion_takes_output:
  assumes "table_wf t" "moves_right moves n m t" "inserts_at t n m p" "matches ip (n, m)"
    and "\<forall>x \<in> set (take p (used t)). \<not> matches ip (entry_key x)"
  shows "routing_table_route (fst (routing_table_add n m out t)) ip = out"
    "may_answer ip t (add_stores moves n m out t) (re_output (used t ! p))"
proof -
  let ?f = "\<lambda>x. x\<lparr>re_mask := m, re_network := n\<rparr>"
  have "routing_table_route (fst (routing_table_add n m out t)) ip = re_output (mk_entry n m out)"
    unfolding routing_table_route_def inserted_entries [OF assms(1,3)] by (rule route_single) (use assms(4,5) in simp_all)
  then show "routing_table_route (fst (routing_table_add n m out t)) ip = out" by (simp add: mk_entry_def)
  have "do_stores [StoreMask p m, StoreNetwork p n] (do_stores moves t) = write_entry p ?f (do_stores moves t)"
    by (simp add: write_twice)
  from lookup_in_insertion [OF assms(1-3) _ this, of "[StoreOutput p out, StoreCount (rt_count t + 1)]" out ip]
  have "may_answer ip t (add_stores moves n m out t)
      (route_loop (take p (used t) @ ?f (used t ! p) # drop p (butlast (used t))) ip (default_gateway t))" by simp
  moreover have "route_loop (take p (used t) @ ?f (used t ! p) # drop p (butlast (used t))) ip (default_gateway t) =
      re_output (?f (used t ! p))"
    by (rule route_single) (use assms(4,5) in \<open>simp_all add: entry_key_def\<close>)
  ultimately show "may_answer ip t (add_stores moves n m out t) (re_output (used t ! p))" by simp
qed

section \<open>Property\<close>

text \<open>
  Property C25 (routing table, lookups without a lock): the stores of an insertion and of a removal have
  the effect of the operation, but a lookup among them may answer neither as before nor as after.
  A removal: a route that it keeps but moves forward, past a lookup that has gone by its new
  place, is missed, and its address goes to the default gateway. An insertion in front of other
  routes: while the last route is moved but not counted, an address that only this route matches
  goes to the default gateway, although the insertion has nothing to do with it; and an address of
  the new route goes to the output of the route whose place that takes, before the new output is stored.
\<close>

theorem lookup_between_writes:
  assumes "table_wf t"
  shows "do_stores (remove_stores out t) t = routing_table_remove_by_output out t \<and>
    (\<forall>moves. moves_right moves n m t \<longrightarrow> do_stores (add_stores moves n m out t) t = fst (routing_table_add n m out t)) \<and>
    (\<forall>xs e ys. only_route t ip xs e ys \<and> re_output e \<noteq> out \<and> (\<exists>x \<in> set xs. re_output x = out) \<longrightarrow>
       routing_table_route t ip = re_output e \<and> routing_table_route (routing_table_remove_by_output out t) ip = re_output e \<and>
       may_answer ip t (remove_stores out t) (default_gateway t)) \<and>
    (\<forall>moves p es e. moves_right moves n m t \<and> inserts_at t n m p \<and> only_route t ip es e [] \<and> \<not> matches ip (n, m) \<longrightarrow>
       routing_table_route t ip = re_output e \<and> routing_table_route (fst (routing_table_add n m out t)) ip = re_output e \<and>
       may_answer ip t (add_stores moves n m out t) (default_gateway t)) \<and>
    (\<forall>moves p. moves_right moves n m t \<and> inserts_at t n m p \<and> matches ip (n, m) \<and>
       (\<forall>x \<in> set (take p (used t)). \<not> matches ip (entry_key x)) \<longrightarrow>
       routing_table_route (fst (routing_table_add n m out t)) ip = out \<and>
       may_answer ip t (add_stores moves n m out t) (re_output (used t ! p)))"
  by (intro conjI allI impI; (elim conjE)?;
      (rule remove_stores_effect add_stores_effect removal_hides_route [OF assms] insertion_hides_last [OF assms]
        insertion_takes_output [OF assms]; assumption))

text \<open>The witness: a route of output 2 is removed in front of another, and one is inserted between the two.\<close>

theorem lookup_between_writes_witness:
  "may_answer 0x0A000001 two_routes (remove_stores 2 two_routes) 0 \<and>
   routing_table_route (routing_table_remove_by_output 2 two_routes) 0x0A000001 = 1 \<and>
   may_answer 0x0A000001 two_routes (add_stores (copy_stores 2 (mk_entry 0x0A000000 0xFF000000 1)) 0x0A400000 0xFFE00000 3 two_routes) 0 \<and>
   may_answer 0x0A400001 two_routes (add_stores (copy_stores 2 (mk_entry 0x0A000000 0xFF000000 1)) 0x0A400000 0xFFE00000 3 two_routes) 1 \<and>
   routing_table_route two_routes 0x0A000001 = 1"
proof -
  let ?a = "mk_entry 0x0A200000 0xFFE00000 2" and ?b = "mk_entry 0x0A000000 0xFF000000 1"
  have wf: "table_wf two_routes" by (simp only: two_routes_def table_run_wf)
  have t: "used two_routes = [?a] @ [?b]" "default_gateway two_routes = 0" "rt_count two_routes = 2"
    "scan_entries (used two_routes) 0 0x0A400000 0xFFE00000 = Position 1" by code_simp+
  have m: "\<not> matches 0x0A000001 (0x0A400000, 0xFFE00000)" "matches 0x0A000001 (0x0A000000, 0xFF000000)"
    "\<not> matches 0x0A000001 (0x0A200000, 0xFFE00000)" "matches 0x0A400001 (0x0A400000, 0xFFE00000)"
    "\<not> matches 0x0A400001 (0x0A200000, 0xFFE00000)" by code_simp+
  have "do_stores (copy_stores 2 ?b) two_routes =
      two_routes\<lparr>rt_entries := memmove_right 1 (2 - 1) (rt_entries two_routes)\<rparr>" by code_simp
  then have moves: "moves_right (copy_stores 2 ?b) 0x0A400000 0xFFE00000 two_routes" by (simp add: moves_right_def t)
  have at: "inserts_at two_routes 0x0A400000 0xFFE00000 1" using t(3,4) by (simp add: inserts_at_def MAX_ROUTING_ENTRIES_def)
  have only: "only_route two_routes 0x0A000001 [?a] ?b []" using t(1) m by (simp add: only_route_def)
  have o: "re_output ?a = 2" "re_output ?b = 1" "used two_routes ! 1 = ?b" "take 1 (used two_routes) = [?a]"
    by (simp_all add: t(1) mk_entry_def)
  note R = lookup_between_writes [OF wf, of 2 "0x0A400000" "0xFFE00000" "0x0A000001", THEN conjunct2, THEN conjunct2]
  note A = lookup_between_writes [OF wf, of 3 "0x0A400000" "0xFFE00000" "0x0A000001", THEN conjunct2, THEN conjunct2, THEN conjunct2]
  note B = lookup_between_writes [OF wf, of 3 "0x0A400000" "0xFFE00000" "0x0A400001", THEN conjunct2, THEN conjunct2, THEN conjunct2]
  have "re_output ?b \<noteq> 2 \<and> (\<exists>x \<in> set [?a]. re_output x = 2)" using o by simp
  note removed = R [THEN conjunct1, rule_format, OF conjI, OF only this, unfolded o(2) t(2)]
  note hidden = A [THEN conjunct1, rule_format, OF conjI, OF moves conjI, OF at conjI, OF only m(1), unfolded t(2)]
  have "\<forall>x \<in> set (take 1 (used two_routes)). \<not> matches 0x0A400001 (entry_key x)" using o(4) m(5) by simp
  note taken = B [THEN conjunct2, rule_format, OF conjI, OF moves conjI, OF at conjI, OF m(4) this, unfolded o(2,3)]
  from removed hidden taken show ?thesis by blast
qed

end
