(* ===== verification/Info_Manager.thy ===== *)
theory Info_Manager
  imports Routing_Facts
begin

text \<open>
  What a node tells about itself: the byte counters of \<open>integration/traffic\<close>, the state of every
  board that \<open>integration/info_manager\<close> keeps and shares over the ring, and the text that its
  client sends over UDP. A piece of that text that does not fit the array of 1400 bytes is
  undefined, as is a string that is not terminated inside its packet.
\<close>

section \<open>Traffic counters\<close>

record traffic =
  tx_bytes :: u64
  rx_bytes :: u64

datatype traffic_dir = ESP_NETIF_TX | ESP_NETIF_RX

definition tx_rx_event_handler :: "traffic_dir \<Rightarrow> u32 \<Rightarrow> traffic \<Rightarrow> traffic" where
  "tx_rx_event_handler dir len t =
     (case dir of ESP_NETIF_TX \<Rightarrow> t\<lparr>tx_bytes := tx_bytes t + ucast len\<rparr>
                | ESP_NETIF_RX \<Rightarrow> t\<lparr>rx_bytes := rx_bytes t + ucast len\<rparr>)"

definition node_traffic_get_tx_count :: "traffic \<Rightarrow> u64" where "node_traffic_get_tx_count t = tx_bytes t"
definition node_traffic_get_rx_count :: "traffic \<Rightarrow> u64" where "node_traffic_get_rx_count t = rx_bytes t"

definition node_traffic_reset_counters :: "traffic \<Rightarrow> traffic" where
  "node_traffic_reset_counters t = t\<lparr>tx_bytes := 0, rx_bytes := 0\<rparr>"

section \<open>The packet of a board\<close>

definition MAX_ORIENTATIONS :: nat where "MAX_ORIENTATIONS = 5"
definition LINK_SSID_LENGTH :: nat where "LINK_SSID_LENGTH = 32"
definition MAX_PAYLOAD_BUFFER :: nat where "MAX_PAYLOAD_BUFFER = 1400"
definition BROADCAST_INTERVAL_MS :: u32 where "BROADCAST_INTERVAL_MS = 300000"
definition ORIENTATION_SPREAD_MS :: u32 where "ORIENTATION_SPREAD_MS = 60000"
definition SIZEOF_IM_PACKET :: nat where "SIZEOF_IM_PACKET = 72"

record im_ring_packet =
  im_uuid :: "byte list"
  im_link :: "byte list"
  im_orientation :: u8
  im_channel :: u8
  im_subnet :: u32
  im_mask :: u32
  im_rx_bytes :: u64
  im_tx_bytes :: u64
  im_rssi :: i8

definition im_packet_bytes :: "im_ring_packet \<Rightarrow> byte list" where
  "im_packet_bytes p = im_uuid p @ im_link p @ [im_orientation p, im_channel p] @
     le32 (im_subnet p) @ le32 (im_mask p) @ le64 (im_rx_bytes p) @ le64 (im_tx_bytes p) @ [ucast (im_rssi p)]"

definition im_packet_of_bytes :: "byte list \<Rightarrow> im_ring_packet" where
  "im_packet_of_bytes bs = \<lparr>im_uuid = take 13 bs, im_link = take 32 (drop 13 bs),
     im_orientation = bs ! 45, im_channel = bs ! 46, im_subnet = un32 (drop 47 bs),
     im_mask = un32 (drop 51 bs), im_rx_bytes = un64 (drop 55 bs), im_tx_bytes = un64 (drop 63 bs),
     im_rssi = ucast (bs ! 71)\<rparr>"

definition im_packet_ok :: "im_ring_packet \<Rightarrow> bool" where
  "im_packet_ok p \<longleftrightarrow> length (im_uuid p) = UUID_LENGTH \<and> length (im_link p) = LINK_SSID_LENGTH"

lemmas im_consts = MAX_ORIENTATIONS_def LINK_SSID_LENGTH_def MAX_PAYLOAD_BUFFER_def
  SIZEOF_IM_PACKET_def UUID_LENGTH_def

lemma ucast_i8_u8 [simp]: "ucast (ucast (x :: i8) :: u8) = x"
  by (rule bit_word_eqI) (auto simp: bit_simps)

interpretation im_wire: wire_format im_packet_bytes im_packet_of_bytes SIZEOF_IM_PACKET im_packet_ok
proof
  fix p assume ok: "im_packet_ok p"
  show "length (im_packet_bytes p) = SIZEOF_IM_PACKET"
    using ok by (simp add: im_packet_bytes_def im_packet_ok_def im_consts)
  show "im_packet_of_bytes (im_packet_bytes p) = p"
    using ok by (simp add: im_packet_bytes_def im_packet_of_bytes_def im_packet_ok_def im_consts nth_append)
qed

section \<open>The manager\<close>

record im_manager =
  im_ring :: "im_ring_packet list"
  im_rs_set :: bool
  im_scheduler_task :: bool

record im_sys = rt_sys +
  im :: im_manager
  traf :: traffic

definition im_packet_zero :: im_ring_packet where
  "im_packet_zero = \<lparr>im_uuid = replicate UUID_LENGTH 0, im_link = replicate LINK_SSID_LENGTH 0,
     im_orientation = 0, im_channel = 0, im_subnet = 0, im_mask = 0, im_rx_bytes = 0,
     im_tx_bytes = 0, im_rssi = 0\<rparr>"

definition im_zero :: im_manager where
  "im_zero = \<lparr>im_ring = replicate MAX_ORIENTATIONS im_packet_zero, im_rs_set = False,
     im_scheduler_task = False\<rparr>"

definition im_init :: "im_manager \<Rightarrow> ring_share \<Rightarrow> im_manager \<times> ring_share" where
  "im_init m rs =
     (m\<lparr>im_rs_set := True, im_ring := replicate MAX_ORIENTATIONS im_packet_zero\<rparr>,
      rs_register_component RS_INFO_MANAGER (Some InfoManagerOnSibling) rs)"

definition im_on_sibling_message :: "byte list \<Rightarrow> im_manager \<Rightarrow> im_manager" where
  "im_on_sibling_message msg m =
     (if length msg < SIZEOF_IM_PACKET then m
      else let pkt = im_packet_of_bytes msg; idx = unat (im_orientation pkt)
           in if idx \<ge> MAX_ORIENTATIONS then m else m\<lparr>im_ring := (im_ring m)[idx := pkt]\<rparr>)"

text \<open>\<open>snprintf(array, n, "%s", src)\<close> into a zeroed array.\<close>

definition snprintf_s :: "nat \<Rightarrow> byte list \<Rightarrow> byte list" where
  "snprintf_s n src = take (n - 1) (c_str src) @ replicate (n - length (take (n - 1) (c_str src))) 0"

text \<open>\<open>answer\<close> is what the wifi driver says about the peer's signal, if it has one.\<close>

definition device_get_rssi :: "i8 option \<Rightarrow> device \<Rightarrow> i8" where
  "device_get_rssi answer v =
     (case dev_mode v of NAN \<Rightarrow> -127 | _ \<Rightarrow> (case answer of Some r \<Rightarrow> r | None \<Rightarrow> -127))"

definition im_packet_now :: "i8 option \<Rightarrow> 'a im_sys_scheme \<Rightarrow> im_ring_packet" where
  "im_packet_now answer d =
     \<lparr>im_uuid = snprintf_s UUID_LENGTH (node_mac (nd d)),
      im_link = snprintf_s LINK_SSID_LENGTH (device_get_link_name (dev d)),
      im_orientation = node_orientation (nd d), im_channel = device_get_channel (dev d),
      im_subnet = node_subnet (nd d), im_mask = node_mask (nd d),
      im_rx_bytes = node_traffic_get_rx_count (traf d), im_tx_bytes = node_traffic_get_tx_count (traf d),
      im_rssi = device_get_rssi answer (dev d)\<rparr>"

definition im_broadcast_info :: "i8 option \<Rightarrow> 'a im_sys_scheme \<Rightarrow> (bool \<times> 'a im_sys_scheme) option" where
  "im_broadcast_info answer d =
     (if \<not> im_rs_set (im d) then Some (False, d)
      else
        let pkt = im_packet_now answer d
        in do { ring \<leftarrow> aset (im_ring (im d)) (unat (im_orientation pkt)) pkt;
                let d1 = d\<lparr>im := (im d)\<lparr>im_ring := ring\<rparr>\<rparr>;
                Some (board_broadcast RS_INFO_MANAGER (im_packet_bytes pkt) d1) })"

definition im_scheduler_start :: "'a im_sys_scheme \<Rightarrow> 'a im_sys_scheme" where
  "im_scheduler_start d =
     (if im_scheduler_task (im d) then d
      else (driver ''create_task_im_scheduler'' [] d)\<lparr>im := (im d)\<lparr>im_scheduler_task := True\<rparr>\<rparr>)"

text \<open>The scheduler task: its first delay, and one round of its loop.\<close>

definition im_scheduler_first_delay :: "'a im_sys_scheme \<Rightarrow> 'a im_sys_scheme" where
  "im_scheduler_first_delay d = delay_ms (ucast (node_orientation (nd d)) * ORIENTATION_SPREAD_MS) d"

definition im_scheduler_round :: "i8 option \<Rightarrow> 'a im_sys_scheme \<Rightarrow> 'a im_sys_scheme option" where
  "im_scheduler_round answer d =
     do { (ok, d1) \<leftarrow> im_broadcast_info answer d; Some (delay_ms BROADCAST_INTERVAL_MS d1) }"

section \<open>The text of the client\<close>

text \<open>\<open>%u\<close>, \<open>%d\<close> and \<open>inet_ntoa\<close>.\<close>

fun dec_digits :: "nat \<Rightarrow> byte list" where
  "dec_digits n = (if n < 10 then [of_nat (48 + n)] else dec_digits (n div 10) @ [of_nat (48 + n mod 10)])"

declare dec_digits.simps [simp del]

definition dec_int :: "int \<Rightarrow> byte list" where
  "dec_int i = (if i < 0 then chars ''-'' @ dec_digits (nat (- i)) else dec_digits (nat i))"

definition dotted :: "u32 \<Rightarrow> byte list" where
  "dotted a = dec_digits (unat (ucast (drop_bit 24 a) :: u8)) @ chars ''.'' @
     dec_digits (unat (ucast (drop_bit 16 a) :: u8)) @ chars ''.'' @
     dec_digits (unat (ucast (drop_bit 8 a) :: u8)) @ chars ''.'' @ dec_digits (unat (ucast a :: u8))"

definition quoted :: "byte list \<Rightarrow> byte list" where
  "quoted bs = [34] @ bs @ [34]"

fun commas :: "byte list list \<Rightarrow> byte list" where
  "commas [] = []"
| "commas [x] = x"
| "commas (x # xs) = x @ chars '','' @ commas xs"

definition orientation_names :: "byte list list" where
  "orientation_names = map (\<lambda>c. chars [c]) ''NSEWC''"

text \<open>A string inside a packet: it ends at the first zero byte, if there is one in the packet.\<close>

definition packet_string :: "nat \<Rightarrow> im_ring_packet \<Rightarrow> byte list option" where
  "packet_string offset p =
     (let bs = drop offset (im_packet_bytes p) in if terminated bs then Some (c_str bs) else None)"

definition im_row :: "im_ring_packet \<Rightarrow> byte list option" where
  "im_row p =
     do { uuid \<leftarrow> packet_string 0 p;
          link \<leftarrow> packet_string UUID_LENGTH p;
          Some (chars ''['' @ commas
            [quoted (orientation_names ! (unat (im_orientation p) mod MAX_ORIENTATIONS)),
             quoted uuid, quoted link, quoted (dotted (im_subnet p)), quoted (dotted (im_mask p)),
             dec_int (int (unat (im_channel p))), dec_int (sint (im_rssi p)),
             dec_digits (unat (im_rx_bytes p)), dec_digits (unat (im_tx_bytes p))] @ chars '']'') }"

definition im_header :: "byte list" where
  "im_header = chars ''{'' @ quoted (chars ''fields'') @ chars '':['' @
     commas (map (quoted \<circ> chars) [''orientation'', ''uuid'', ''link'', ''subnet'', ''mask'',
       ''channel'', ''rssi'', ''rx_bytes'', ''tx_bytes'']) @
     chars ''],'' @ quoted (chars ''data'') @ chars '':[''"

definition node_get_device_uptime_minutes :: "u64 \<Rightarrow> reset_manager \<Rightarrow> int" where
  "node_get_device_uptime_minutes time_us rm =
     (let uptime_us = sint (time_us - rm_last_reset_time rm)
      in if uptime_us < 0 then - ((- uptime_us) div 60000000) else uptime_us div 60000000)"

text \<open>\<open>offset += snprintf(payload + offset, sizeof(payload) - offset, ...)\<close>.\<close>

definition append_text :: "byte list \<Rightarrow> byte list \<Rightarrow> byte list option" where
  "append_text payload s =
     (if length payload + length s < MAX_PAYLOAD_BUFFER then Some (payload @ s) else None)"

fun im_rows :: "im_ring_packet list \<Rightarrow> bool \<Rightarrow> byte list \<Rightarrow> byte list option" where
  "im_rows [] first payload = Some payload"
| "im_rows (p # ps) first payload =
     do { payload1 \<leftarrow> (if first then Some payload else append_text payload (chars '',''));
          row \<leftarrow> im_row p;
          payload2 \<leftarrow> append_text payload1 row;
          if length payload2 \<ge> MAX_PAYLOAD_BUFFER - 50 then Some payload2
          else im_rows ps False payload2 }"

definition im_client_payload :: "u64 \<Rightarrow> 'a im_sys_scheme \<Rightarrow> byte list option" where
  "im_client_payload time_us d =
     do { start \<leftarrow> append_text [] im_header;
          body \<leftarrow> im_rows (im_ring (im d)) True start;
          append_text body (chars ''],'' @ quoted (chars ''uptime_mins'') @ chars '':'' @
            dec_int (node_get_device_uptime_minutes time_us (rmgr d)) @ chars ''}'') }"

text \<open>
  The task that sends the text over UDP: up to its loop, which it reaches when it gets a socket, and
  one round of it. \<open>sent\<close> is what \<open>sendto\<close> answers.
\<close>

definition CLIENT_INITIAL_DELAY_MS :: u32 where "CLIENT_INITIAL_DELAY_MS = 300000"
definition CLIENT_POST_INTERVAL_MS :: u32 where "CLIENT_POST_INTERVAL_MS = 60000"
definition UDP_SERVER_IP :: u32 where "UDP_SERVER_IP = 0x0AFFFFFE"
definition UDP_SERVER_PORT :: u32 where "UDP_SERVER_PORT = 8000"

definition im_client_task_start :: "int \<Rightarrow> 'a im_sys_scheme \<Rightarrow> bool \<times> 'a im_sys_scheme" where
  "im_client_task_start sock d =
     (let d1 = driver ''udp_socket'' [] (delay_ms CLIENT_INITIAL_DELAY_MS d)
      in if sock < 0 then (False, driver ''delete_task_im_client'' [] d1) else (True, d1))"

definition im_client_round :: "u64 \<Rightarrow> int \<Rightarrow> 'a im_sys_scheme \<Rightarrow> 'a im_sys_scheme option" where
  "im_client_round time_us sent d =
     do { payload \<leftarrow> im_client_payload time_us d;
          let d1 = driver ''sendto'' [UDP_SERVER_IP, UDP_SERVER_PORT] d;
          Some (delay_ms CLIENT_POST_INTERVAL_MS (d1\<lparr>lk := emit (SockSend (c_str payload) sent) (lk d1)\<rparr>)) }"

section \<open>Lemmas\<close>

text \<open>A client that got no socket is gone, but its handle stays, and it is never started again.\<close>

lemma im_client_not_restarted:
  assumes "im_client_task (wst d)" "sock < 0"
  shows "\<not> fst (im_client_task_start sock d)"
    "im_http_client_start (snd (im_client_task_start sock d)) = snd (im_client_task_start sock d)"
  using assms by (simp_all add: im_client_task_start_def im_http_client_start_def delay_ms_def Let_def)

lemma dec_digits_length: "n < 10 ^ Suc k \<Longrightarrow> length (dec_digits n) \<le> Suc k"
proof (induction k arbitrary: n)
  case 0
  then show ?case by (simp add: dec_digits.simps)
next
  case (Suc k)
  show ?case
  proof (cases "n < 10")
    case False
    have "n div 10 < 10 ^ Suc k" using Suc.prems by simp
    from Suc.IH [OF this] False show ?thesis by (subst dec_digits.simps) simp
  qed (simp add: dec_digits.simps)
qed

lemma dec_u8_length: "length (dec_digits (unat (x :: u8))) \<le> 3"
  using dec_digits_length [of "unat x" 2] unat_u8_less [of x] by simp

lemma dec_u64_length: "length (dec_digits (unat (x :: u64))) \<le> 20"
proof -
  have "unat x < 2 ^ 64" using unsigned_less [of x] by simp
  then show ?thesis using dec_digits_length [of "unat x" 19] by simp
qed

lemma dec_i8_length: "length (dec_int (sint (x :: i8))) \<le> 4"
proof -
  have b: "- 128 \<le> sint x" "sint x < 128" using sint_ge [of x] sint_lt [of x] by simp_all
  then have "nat (- sint x) < 1000 \<and> nat (sint x) < 1000" by linarith
  then show ?thesis
    using dec_digits_length [of "nat (- sint x)" 2] dec_digits_length [of "nat (sint x)" 2]
    by (simp add: dec_int_def chars_def)
qed

lemma dec_channel_length: "length (dec_int (int (unat (x :: u8)))) \<le> 3"
  using dec_u8_length [of x] by (simp add: dec_int_def)

lemma dotted_length: "length (dotted a) \<le> 15"
  using dec_u8_length [of "ucast (drop_bit 24 a)"] dec_u8_length [of "ucast (drop_bit 16 a)"]
    dec_u8_length [of "ucast (drop_bit 8 a)"] dec_u8_length [of "ucast a"]
  by (simp add: dotted_def chars_def)

lemma snprintf_ok: "0 < n \<Longrightarrow> length (snprintf_s n src) = n \<and> terminated (snprintf_s n src)"
  by (auto simp: snprintf_s_def terminated_def)

text \<open>A packet whose two strings are terminated gives a row of at most 141 characters.\<close>

definition im_packet_terminated :: "im_ring_packet \<Rightarrow> bool" where
  "im_packet_terminated p \<longleftrightarrow> im_packet_ok p \<and> terminated (im_uuid p) \<and> terminated (im_link p)"

lemma c_str_terminated:
  assumes "terminated xs"
  shows "c_str (xs @ ys) = c_str xs" "length (c_str xs) < length xs"
proof -
  have z: "0 \<in> set xs" using assms by (simp add: terminated_def)
  then show "c_str (xs @ ys) = c_str xs" by (simp add: c_str_def)
  show "length (c_str xs) < length xs" using z unfolding c_str_def by (induction xs) auto
qed

lemma packet_strings:
  assumes "im_packet_terminated p"
  shows "packet_string 0 p = Some (c_str (im_uuid p))" "packet_string UUID_LENGTH p = Some (c_str (im_link p))"
    "length (c_str (im_uuid p)) \<le> 12" "length (c_str (im_link p)) \<le> 31"
proof -
  have t: "terminated (im_uuid p)" "terminated (im_link p)" "length (im_uuid p) = 13" "length (im_link p) = 32"
    using assms by (simp_all add: im_packet_terminated_def im_packet_ok_def im_consts)
  have z: "terminated (im_uuid p @ x)" "terminated (im_link p @ x)" for x
    using t(1,2) by (simp_all add: terminated_def)
  show "packet_string 0 p = Some (c_str (im_uuid p))" "packet_string UUID_LENGTH p = Some (c_str (im_link p))"
    using t z c_str_terminated(1) [OF t(1)] c_str_terminated(1) [OF t(2)]
    by (simp_all add: packet_string_def im_packet_bytes_def Let_def im_consts)
  show "length (c_str (im_uuid p)) \<le> 12" "length (c_str (im_link p)) \<le> 31"
    using c_str_terminated(2) [OF t(1)] c_str_terminated(2) [OF t(2)] t(3,4) by linarith+
qed

lemma orientation_name_length: "length (orientation_names ! (n mod MAX_ORIENTATIONS)) = 1"
proof -
  have "n mod 5 < 5" by simp
  then consider "n mod 5 = 0" | "n mod 5 = 1" | "n mod 5 = 2" | "n mod 5 = 3" | "n mod 5 = 4" by linarith
  then show ?thesis by cases (simp_all add: orientation_names_def chars_def MAX_ORIENTATIONS_def)
qed

lemma im_row_length:
  assumes "im_packet_terminated p"
  shows "\<exists>row. im_row p = Some row \<and> length row \<le> 141"
proof -
  have q: "length (quoted x) = length x + 2" for x by (simp add: quoted_def)
  note P = packet_strings [OF assms]
  show ?thesis
    using P(3,4) dotted_length [of "im_subnet p"] dotted_length [of "im_mask p"]
      dec_channel_length [of "im_channel p"] dec_i8_length [of "im_rssi p"]
      dec_u64_length [of "im_rx_bytes p"] dec_u64_length [of "im_tx_bytes p"]
    by (simp add: im_row_def P(1,2) q orientation_name_length chars_def)
qed

text \<open>The rows of a list of such packets, joined with commas.\<close>

definition comma_tail :: "byte list list \<Rightarrow> byte list" where
  "comma_tail rows = concat (map (\<lambda>r. chars '','' @ r) rows)"

lemma commas_tail: "commas (r # rows) = r @ comma_tail rows"
  by (induction rows arbitrary: r) (simp_all add: comma_tail_def)

lemma im_rows_tail:
  assumes "\<forall>p \<in> set ps. im_packet_terminated p" "length payload + 142 * length ps < 1350"
  shows "\<exists>rows. map im_row ps = map Some rows \<and> im_rows ps False payload = Some (payload @ comma_tail rows) \<and>
    length (comma_tail rows) \<le> 142 * length ps"
  using assms
proof (induction ps arbitrary: payload)
  case Nil
  then show ?case by (simp add: comma_tail_def)
next
  case (Cons p ps)
  obtain row where r: "im_row p = Some row" "length row \<le> 141" using im_row_length [of p] Cons.prems(1) by auto
  let ?p2 = "payload @ chars '','' @ row"
  have comma: "length (chars '','') = 1" by (simp add: chars_def)
  obtain rows where rows: "map im_row ps = map Some rows" "im_rows ps False ?p2 = Some (?p2 @ comma_tail rows)"
    "length (comma_tail rows) \<le> 142 * length ps"
    using Cons.IH [of ?p2] Cons.prems r(2) comma by auto
  have "im_rows (p # ps) False payload = im_rows ps False ?p2"
    using r Cons.prems(2) comma by (simp add: append_text_def MAX_PAYLOAD_BUFFER_def)
  with rows r comma show ?case
    by (intro exI [of _ "row # rows"]) (simp add: comma_tail_def)
qed

lemma im_header_length: "length im_header = 103"
  by (simp add: im_header_def quoted_def chars_def)

lemma uptime_length: "length (dec_int (node_get_device_uptime_minutes t rm)) \<le> 20"
proof -
  define u where "u = sint (t - rm_last_reset_time rm)"
  have b: "- (2 ^ 63) \<le> u" "u < 2 ^ 63"
    using sint_ge [of "t - rm_last_reset_time rm"] sint_lt [of "t - rm_last_reset_time rm"] by (simp_all add: u_def)
  define m where "m = node_get_device_uptime_minutes t rm"
  have "\<bar>m\<bar> \<le> 2 ^ 63"
    using b by (auto simp: m_def node_get_device_uptime_minutes_def Let_def u_def [symmetric])
  then have "nat (- m) < 10 ^ 19 \<and> nat m < 10 ^ 19" by auto
  then show ?thesis
    using dec_digits_length [of "nat (- m)" 18] dec_digits_length [of "nat m" 18]
    by (simp add: m_def [symmetric] dec_int_def chars_def)
qed

section \<open>Properties\<close>

text \<open>
  When the strings of the five packets are terminated, the
  text the client sends has all five rows, at most 849 characters, and is never cut off: the
  branch that stops at the end of the buffer is not taken.
\<close>

lemma im_payload_complete:
  assumes "length (im_ring (im d)) = 5" "\<forall>p \<in> set (im_ring (im d)). im_packet_terminated p"
  shows "\<exists>rows text. map im_row (im_ring (im d)) = map Some rows \<and> im_client_payload t d = Some text \<and>
    text = im_header @ commas rows @ chars ''],'' @ quoted (chars ''uptime_mins'') @ chars '':'' @
      dec_int (node_get_device_uptime_minutes t (rmgr d)) @ chars ''}'' \<and> length text \<le> 849"
proof -
  obtain p ps where ring: "im_ring (im d) = p # ps" "length ps = 4"
    using assms(1) by (cases "im_ring (im d)") auto
  obtain row where r: "im_row p = Some row" "length row \<le> 141"
    using im_row_length [of p] assms(2) ring(1) by auto
  obtain rows where rows: "map im_row ps = map Some rows"
    "im_rows ps False (im_header @ row) = Some ((im_header @ row) @ comma_tail rows)"
    "length (comma_tail rows) \<le> 142 * length ps"
    using im_rows_tail [of ps "im_header @ row"] assms(2) ring r(2) im_header_length by auto
  let ?rest = "chars ''],'' @ quoted (chars ''uptime_mins'') @ chars '':'' @
    dec_int (node_get_device_uptime_minutes t (rmgr d)) @ chars ''}''"
  have e: "length ?rest \<le> 37"
    using uptime_length [of t "rmgr d"] by (simp add: chars_def quoted_def)
  let ?text = "im_header @ row @ comma_tail rows @ ?rest"
  have len: "length ?text \<le> 849"
    using e rows(3) r(2) ring(2) im_header_length by simp
  have "im_client_payload t d = Some ?text"
    using rows r ring e len im_header_length
    by (simp add: im_client_payload_def append_text_def MAX_PAYLOAD_BUFFER_def)
  with rows(1) r(1) ring(1) len show ?thesis
    by (intro exI [of _ "row # rows"] exI [of _ ?text]) (simp add: commas_tail)
qed

definition im_sys_start :: "environment \<Rightarrow> im_sys" where
  "im_sys_start e = \<lparr>lk = link_init e s_config_init, sy = sync_zero, cmgr = cm_zero, pmgr = pm_zero,
     dev = device_start, wst = statics_start, nd = node_start_state, rmgr = rm_zero,
     remote_server = False, rsh = ring_share_zero, node_table = routing_table_init 0,
     ss = shared_state_zero, rt = routing_zero, wl_callbacks = DoNothingCallbacks,
     im = im_zero, traf = \<lparr>tx_bytes = 0, rx_bytes = 0\<rparr>\<rparr>"

lemma zero_packet_terminated: "im_packet_terminated im_packet_zero"
  by (simp add: im_packet_zero_def im_packet_terminated_def im_packet_ok_def im_consts terminated_def)

lemma packet_now_ok: "im_packet_terminated (im_packet_now answer d)"
  using snprintf_ok [of UUID_LENGTH] snprintf_ok [of LINK_SSID_LENGTH]
  by (simp add: im_packet_now_def im_packet_terminated_def im_packet_ok_def im_consts)

text \<open>
  The frames by which a board tells its state make every board
  that receives one hold, in the place of that board's orientation, the very packet the sender
  keeps for itself, and leave the other places alone; its strings are terminated. A packet for a
  place beyond the five is dropped.
\<close>

lemma im_info_shared:
  assumes "im_broadcast_info answer d = Some (ok, d')" "im_rs_set (im d)"
    and "q \<in> set (spi_attempts (new_effects (lk d) (lk d')))" "length (im_ring m) = 5"
  shows "\<exists>msg. frame_message q = component_byte RS_INFO_MANAGER # msg \<and>
    (let i = unat (node_orientation (nd d)); m' = im_on_sibling_message msg m
     in i < 5 \<longrightarrow> im_ring m' ! i = im_ring (im d') ! i \<and> im_packet_terminated (im_ring m' ! i) \<and>
          (\<forall>j. j \<noteq> i \<longrightarrow> im_ring m' ! j = im_ring m ! j)) \<and>
    (unat (im_orientation (im_packet_of_bytes msg)) \<ge> 5 \<longrightarrow> im_on_sibling_message msg m = m)"
proof -
  let ?p = "im_packet_now answer d"
  obtain ring where ring: "aset (im_ring (im d)) (unat (im_orientation ?p)) ?p = Some ring"
    and b: "board_broadcast RS_INFO_MANAGER (im_packet_bytes ?p) (d\<lparr>im := (im d)\<lparr>im_ring := ring\<rparr>\<rparr>) = (ok, d')"
    using assms(1,2) by (auto simp: im_broadcast_info_def Let_def split: Option.bind_splits)
  then have rs: "rs_broadcast RS_INFO_MANAGER (im_packet_bytes ?p) (lk d) = (ok, lk d')"
    and im': "im_ring (im d') = ring"
    by (auto simp: board_broadcast_def Let_def split: prod.splits)
  have frame: "frame_message q = component_byte RS_INFO_MANAGER # im_packet_bytes ?p"
    by (rule rs_frame_bytes [OF rs assms(3)])
  have ok: "im_packet_ok ?p" using packet_now_ok by (auto simp: im_packet_terminated_def)
  have ori: "im_orientation ?p = node_orientation (nd d)" by (simp add: im_packet_now_def)
  have recv: "im_on_sibling_message (im_packet_bytes ?p) m =
      (if unat (node_orientation (nd d)) \<ge> 5 then m
       else m\<lparr>im_ring := (im_ring m)[unat (node_orientation (nd d)) := ?p]\<rparr>)"
    using im_wire.length_enc [OF ok] im_wire.dec_enc [OF ok] ori
    by (simp add: im_on_sibling_message_def MAX_ORIENTATIONS_def Let_def)
  have mine: "ring = (im_ring (im d))[unat (node_orientation (nd d)) := ?p] \<and>
      unat (node_orientation (nd d)) < length (im_ring (im d))"
    using ring ori by (auto simp: aset_def split: if_splits)
  show ?thesis
    using frame recv mine im' packet_now_ok [of answer d] assms(4) im_wire.dec_enc [OF ok] ori
    by (auto simp: Let_def)
qed

end
