(* ===== verification/Rtos_Queue.thy ===== *)
theory Rtos_Queue
  imports I4A_Prelude "HOL-Library.Multiset"
begin

text \<open>
  The bounded queues of FreeRTOS that the boards' tasks hand buffers and messages to each other
  with: \<open>xQueueSend\<close> fails, or blocks, exactly when the queue is full, \<open>xQueueReceive\<close> blocks when
  it is empty, and both keep the order. The contract is a locale; the list with a capacity is the
  provider that the model of the receive path and that of the callbacks use.
\<close>

definition q_send :: "nat \<Rightarrow> 'a \<Rightarrow> 'a list \<Rightarrow> 'a list option" where
  "q_send capacity x q = (if length q < capacity then Some (q @ [x]) else None)"

fun q_receive :: "'a list \<Rightarrow> ('a \<times> 'a list) option" where
  "q_receive [] = None"
| "q_receive (x # q) = Some (x, q)"

fun_cases q_receive_SomeE: "q_receive q = Some r"

locale bounded_fifo =
  fixes send :: "'a \<Rightarrow> 'q \<Rightarrow> 'q option"
    and receive :: "'q \<Rightarrow> ('a \<times> 'q) option"
    and contents :: "'q \<Rightarrow> 'a list"
    and capacity :: nat
  assumes send_Some: "send x q = Some q' \<Longrightarrow> contents q' = contents q @ [x]"
    and send_None: "send x q = None \<longleftrightarrow> capacity \<le> length (contents q)"
    and receive_Some: "receive q = Some (x, q') \<Longrightarrow> contents q = x # contents q'"
    and receive_None: "receive q = None \<longleftrightarrow> contents q = []"
begin

lemma sent_fits: "send x q = Some q' \<Longrightarrow> length (contents q') \<le> capacity"
  using send_Some send_None by (metis Suc_leI length_append_singleton not_le option.distinct(1))

lemma room_sends: "length (contents q) < capacity \<Longrightarrow> \<exists>q'. send x q = Some q' \<and> contents q' = contents q @ [x]"
  using send_None send_Some by (metis not_le option.exhaust)

lemma mset_send: "send x q = Some q' \<Longrightarrow> mset (contents q') = add_mset x (mset (contents q))"
  by (simp add: send_Some)

lemma mset_receive: "receive q = Some (x, q') \<Longrightarrow> mset (contents q) = add_mset x (mset (contents q'))"
  by (simp add: receive_Some)

lemma first_out:
  assumes "contents q = []" "send x q = Some q'"
  obtains q'' where "receive q' = Some (x, q'')" "contents q'' = []"
proof -
  have c: "contents q' = [x]" using send_Some [OF assms(2)] assms(1) by simp
  then obtain y q'' where r: "receive q' = Some (y, q'')"
    using receive_None [of q'] by (cases "receive q'") auto
  with receive_Some [OF r] c that show thesis by simp
qed

text \<open>An element waits for exactly those that were in the queue before it.\<close>

lemma overtaken_by_none:
  assumes "send x q = Some q'" "receive q' = Some (y, q'')" "contents q \<noteq> []"
  shows "y = hd (contents q) \<and> contents q'' = tl (contents q) @ [x]"
  using send_Some [OF assms(1)] receive_Some [OF assms(2)] assms(3) by (cases "contents q") auto

end

interpretation rtos_queue: bounded_fifo "q_send n" q_receive "\<lambda>q. q" n for n
proof
  show "q_send n x q = Some q' \<Longrightarrow> q' = q @ [x]" for x :: 'a and q q'
    by (simp add: q_send_def split: if_splits)
  show "q_send n x q = None \<longleftrightarrow> n \<le> length q" for x :: 'a and q
    by (simp add: q_send_def not_less)
  show "q_receive q = Some (x, q') \<Longrightarrow> q = x # q'" for x :: 'a and q q'
    by (elim q_receive_SomeE) simp
  show "q_receive q = None \<longleftrightarrow> q = []" for q :: "'a list"
    by (cases q) simp_all
qed

lemma q_send_room [simp]: "length q < n \<Longrightarrow> q_send n x q = Some (q @ [x])"
  by (simp add: q_send_def)

lemma q_receive_eq: "q_receive q = Some (x, q') \<longleftrightarrow> q = x # q'"
  by (cases q) auto

end
