(* ===== verification/Callbacks.thy ===== *)
theory Callbacks
  imports Info_Manager Rtos_Queue
begin

text \<open>
  The layer between the transports and the components (\<open>integration/callbacks\<close>): three queues with
  a task each, one for connections with the peer, one for its messages, one for the messages of
  the siblings. The task of the siblings calls \<open>ring_share\<close>, which calls the component that the
  message is for; here every component's handler meets its message.

  The senders wait without a limit while a queue is full: where an operation returns an option of
  an option, the outer \<open>None\<close> is undefined behaviour and the inner one a task that waits.
\<close>

section \<open>State\<close>

definition MAX_MESSAGE_SIZE :: nat where "MAX_MESSAGE_SIZE = 512"
definition SIBLING_QUEUE_LENGTH :: nat where "SIBLING_QUEUE_LENGTH = 10"
definition PEER_QUEUE_LENGTH :: nat where "PEER_QUEUE_LENGTH = 5"
definition PEER_DELAY_SECONDS :: u32 where "PEER_DELAY_SECONDS = 2"

lemmas cb_consts = MAX_MESSAGE_SIZE_def SIBLING_QUEUE_LENGTH_def PEER_QUEUE_LENGTH_def
  PEER_DELAY_SECONDS_def

datatype peer_type = PEER_CLIENT | PEER_SERVER

primrec peer_type_num :: "peer_type \<Rightarrow> u32" where
  "peer_type_num PEER_CLIENT = 0"
| "peer_type_num PEER_SERVER = 1"

datatype peer_event_type = PEER_EVENT_CONNECTED | PEER_EVENT_LOST

record peer_event =
  pe_type :: peer_event_type
  pe_net :: u32
  pe_mask :: u32
  pe_peer_type :: peer_type

text \<open>The function that \<open>siblings.callback\<close> points to.\<close>

datatype siblings_callback = DoNothingMessage | RingShareOnSibling

record cb_sys = im_sys +
  peer_event_queue :: "peer_event list"
  peer_message_queue :: "byte list list"
  sibling_message_queue :: "byte list list"
  sb_callback :: siblings_callback

section \<open>Messages\<close>

text \<open>
  A \<open>message_t\<close> is an array of 512 bytes with its length behind it, 514 bytes in all. The copy
  checks no length: what is longer than the array runs into the length, which is written last,
  and what is longer than the structure, or than the bytes it is read from, is undefined. The
  result is what the callback gets, the first \<open>len\<close> bytes of the structure.
\<close>

definition store_message :: "byte list \<Rightarrow> u16 \<Rightarrow> byte list option" where
  "store_message buf len =
     (let n = unat len
      in if n > length buf \<or> n > MAX_MESSAGE_SIZE + 2 then None
         else Some (take n (take MAX_MESSAGE_SIZE (take n buf) @ le16 len)))"

definition node_on_sibling_message :: "byte list \<Rightarrow> u16 \<Rightarrow> 'a cb_sys_scheme \<Rightarrow> 'a cb_sys_scheme option option" where
  "node_on_sibling_message msg len d =
     do { m \<leftarrow> store_message msg len;
          Some (do { q \<leftarrow> q_send SIBLING_QUEUE_LENGTH m (sibling_message_queue d);
                     Some (d\<lparr>sibling_message_queue := q\<rparr>) }) }"

definition node_on_peer_message :: "byte list \<Rightarrow> u16 \<Rightarrow> 'a cb_sys_scheme \<Rightarrow> 'a cb_sys_scheme option option" where
  "node_on_peer_message msg len d =
     do { m \<leftarrow> store_message msg len;
          Some (do { q \<leftarrow> q_send PEER_QUEUE_LENGTH m (peer_message_queue d);
                     Some (d\<lparr>peer_message_queue := q\<rparr>) }) }"

definition send_peer_event :: "peer_event \<Rightarrow> 'a cb_sys_scheme \<Rightarrow> 'a cb_sys_scheme option" where
  "send_peer_event e d =
     do { q \<leftarrow> q_send PEER_QUEUE_LENGTH e (peer_event_queue d); Some (d\<lparr>peer_event_queue := q\<rparr>) }"

definition node_on_peer_connected :: "u32 \<Rightarrow> u32 \<Rightarrow> peer_type \<Rightarrow> 'a cb_sys_scheme \<Rightarrow> 'a cb_sys_scheme option" where
  "node_on_peer_connected net msk ty = send_peer_event
     \<lparr>pe_type = PEER_EVENT_CONNECTED, pe_net = net, pe_mask = msk, pe_peer_type = ty\<rparr>"

definition node_on_peer_lost :: "u32 \<Rightarrow> u32 \<Rightarrow> peer_type \<Rightarrow> 'a cb_sys_scheme \<Rightarrow> 'a cb_sys_scheme option" where
  "node_on_peer_lost net msk ty = send_peer_event
     \<lparr>pe_type = PEER_EVENT_LOST, pe_net = net, pe_mask = msk, pe_peer_type = ty\<rparr>"

definition node_init_event_queues :: "bool \<Rightarrow> 'a cb_sys_scheme \<Rightarrow> esp_err \<times> 'a cb_sys_scheme" where
  "node_init_event_queues queues_ok d =
     (if queues_ok then ESP_OK else ESP_FAIL,
      d\<lparr>peer_event_queue := [], peer_message_queue := [], sibling_message_queue := []\<rparr>)"

definition node_start_event_tasks :: "bool \<Rightarrow> bool \<Rightarrow> bool \<Rightarrow> 'a cb_sys_scheme \<Rightarrow> esp_err \<times> 'a cb_sys_scheme" where
  "node_start_event_tasks ok1 ok2 ok3 d =
     (if \<not> ok1 then (ESP_FAIL, d)
      else let d1 = driver ''create_task_peer_event'' [] d
      in if \<not> ok2 then (ESP_FAIL, d1)
      else let d2 = driver ''create_task_peer_msg'' [] d1
      in if \<not> ok3 then (ESP_FAIL, d2)
      else (ESP_OK, driver ''create_task_sib_msg'' [] d2))"

definition sb_register_callback :: "siblings_callback \<Rightarrow> 'a cb_sys_scheme \<Rightarrow> 'a cb_sys_scheme" where
  "sb_register_callback cb d = d\<lparr>sb_callback := cb\<rparr>"

definition wl_register_peer_callbacks :: "wireless_callbacks \<Rightarrow> 'a cb_sys_scheme \<Rightarrow> 'a cb_sys_scheme" where
  "wl_register_peer_callbacks cbs d = d\<lparr>wl_callbacks := cbs\<rparr>"

definition node_register_siblings_callbacks :: "siblings_callback \<Rightarrow> 'a cb_sys_scheme \<Rightarrow> 'a cb_sys_scheme" where
  "node_register_siblings_callbacks cb d = d\<lparr>sb_callback := cb\<rparr>"

definition node_register_wireless_callbacks :: "wireless_callbacks \<Rightarrow> 'a cb_sys_scheme \<Rightarrow> 'a cb_sys_scheme" where
  "node_register_wireless_callbacks cbs d = d\<lparr>wl_callbacks := cbs\<rparr>"

section \<open>The components behind the ring\<close>

definition run_cs :: "cs_callback \<Rightarrow> 'a rt_sys_scheme \<Rightarrow> 'a rt_sys_scheme option" where
  "run_cs cb d = (case cb of RoutingOnCriticalSection \<Rightarrow> on_critical_section d)"

text \<open>What a call through the function pointer of a component does.\<close>

definition component_callback :: "rs_callback \<Rightarrow> byte list \<Rightarrow> 'a im_sys_scheme \<Rightarrow> 'a im_sys_scheme option" where
  "component_callback cb msg d =
     (case cb of
        SyncOnSibling \<Rightarrow> sync_on_sibling_message run_cs msg d
      | RoutingOnSibling \<Rightarrow> rt_on_sibling_message msg d
      | SharedStateOnSibling \<Rightarrow> ss_on_sibling_message msg d
      | ChannelManagerOnSibling \<Rightarrow> node_on_channel_message msg d
      | ResetManagerOnSibling \<Rightarrow>
          let (rm, l) = rm_on_sibling_message msg (rmgr d) (lk d) in Some (d\<lparr>rmgr := rm, lk := l\<rparr>)
      | InfoManagerOnSibling \<Rightarrow> Some (d\<lparr>im := im_on_sibling_message msg (im d)\<rparr>)
      | PriorityManagerOnSibling \<Rightarrow> Some (d\<lparr>pmgr := pm_on_sibling_message msg (pmgr d)\<rparr>))"

definition board_on_sibling_message :: "byte list \<Rightarrow> 'a im_sys_scheme \<Rightarrow> 'a im_sys_scheme option" where
  "board_on_sibling_message msg d =
     (let (call, l) = rs_on_sibling_message (rsh d) msg (lk d); d1 = d\<lparr>lk := l\<rparr>
      in case call of None \<Rightarrow> Some d1 | Some (cb, bytes) \<Rightarrow> component_callback cb bytes d1)"

section \<open>The tasks\<close>

text \<open>One round of the loop of each task; \<open>Some None\<close> while its queue is empty.\<close>

definition sibling_message_task :: "'a cb_sys_scheme \<Rightarrow> 'a cb_sys_scheme option option" where
  "sibling_message_task d =
     (case q_receive (sibling_message_queue d) of
        None \<Rightarrow> Some None
      | Some (m, q) \<Rightarrow>
          let d1 = d\<lparr>sibling_message_queue := q\<rparr>
          in case sb_callback d1 of
               DoNothingMessage \<Rightarrow> Some (Some d1)
             | RingShareOnSibling \<Rightarrow> map_option Some (board_on_sibling_message m d1))"

definition peer_message_task :: "'a cb_sys_scheme \<Rightarrow> 'a cb_sys_scheme option option" where
  "peer_message_task d =
     (case q_receive (peer_message_queue d) of
        None \<Rightarrow> Some None
      | Some (m, q) \<Rightarrow>
          let d1 = d\<lparr>peer_message_queue := q\<rparr>
          in case wl_callbacks d1 of
               DoNothingCallbacks \<Rightarrow> Some (Some d1)
             | RoutingCallbacks \<Rightarrow> map_option Some (rt_on_peer_message m d1))"

definition peer_event_task :: "'a cb_sys_scheme \<Rightarrow> 'a cb_sys_scheme option option" where
  "peer_event_task d =
     (case q_receive (peer_event_queue d) of
        None \<Rightarrow> Some None
      | Some (e, q) \<Rightarrow>
          let d1 = delay_ms (peer_type_num (pe_peer_type e) * (PEER_DELAY_SECONDS * 1000))
                     (d\<lparr>peer_event_queue := q\<rparr>)
          in case wl_callbacks d1 of
               DoNothingCallbacks \<Rightarrow> Some (Some d1)
             | RoutingCallbacks \<Rightarrow>
                 map_option Some
                   (case pe_type e of
                      PEER_EVENT_CONNECTED \<Rightarrow> rt_on_peer_connected (pe_net e) (pe_mask e) d1
                    | PEER_EVENT_LOST \<Rightarrow> rt_on_peer_lost (pe_net e) (pe_mask e) d1))"

section \<open>From a frame to the queue\<close>

fun give_messages :: "(byte list \<times> u16) list \<Rightarrow> 'a cb_sys_scheme \<Rightarrow> 'a cb_sys_scheme option option" where
  "give_messages [] d = Some (Some d)"
| "give_messages ((buf, len) # ms) d =
     (case node_on_sibling_message buf len d of
        None \<Rightarrow> None
      | Some None \<Rightarrow> Some None
      | Some (Some d1) \<Rightarrow> give_messages ms d1)"

text \<open>The internal task's handler, with the calls of \<open>node_on_sibling_message\<close> carried out.\<close>

definition board_internal_handler :: "ring_link_payload \<Rightarrow> 'a cb_sys_scheme \<Rightarrow> 'a cb_sys_scheme option option" where
  "board_internal_handler p d =
     (let l = snd (ring_link_internal_handler p (lk d))
      in give_messages (sibling_messages (new_effects (lk d) l)) (d\<lparr>lk := l\<rparr>))"

lemma sibling_messages_append: "sibling_messages (es @ fs) = sibling_messages es @ sibling_messages fs"
  by (induction es rule: sibling_messages.induct) simp_all

lemma forward_gives_nothing:
  "\<exists>es. trace (snd (ring_link_lowlevel_forward_payload p l)) = trace l @ es \<and> sibling_messages es = []"
  by (simp add: ring_link_lowlevel_forward_payload_def ring_link_lowlevel_transmit_payload_def
      spi_transmit_def Let_def)

lemma foreign_broadcast_given:
  assumes "ring_link_payload_is_broadcast p" "\<not> ring_link_payload_is_from_device p l"
  shows "sibling_messages (new_effects l (snd (ring_link_internal_handler p l))) = [(pl_buffer p, pl_len p)]"
proof -
  let ?l1 = "snd (ring_link_internal_process p l)"
  obtain es where es: "trace (snd (ring_link_lowlevel_forward_payload p ?l1)) = trace ?l1 @ es"
      "sibling_messages es = []"
    using forward_gives_nothing by blast
  have "trace ?l1 = trace l @ [OnSibling (pl_buffer p) (pl_len p)]"
    by (simp add: ring_link_internal_process_def)
  with es assms show ?thesis
    by (simp add: ring_link_internal_handler_def broadcast_handler_def new_effects_def sibling_messages_append)
qed

lemma store_message_short:
  assumes "unat len \<le> MAX_MESSAGE_SIZE" "unat len \<le> length buf"
  shows "store_message buf len = Some (take (unat len) buf)"
  using assms by (simp add: store_message_def Let_def min_def)

lemma store_message_513:
  assumes "take 513 buf = xs @ [x]" "length xs = 512"
  shows "store_message buf 513 = Some (xs @ [1])"
proof -
  have l: "513 \<le> length buf" using arg_cong [OF assms(1), of length] assms(2) by (simp add: min_def split: if_splits)
  have "take 512 buf = xs"
    using arg_cong [OF assms(1), of "take 512"] assms(2) by (simp add: min_def)
  moreover have "le16 513 = [1, 2]" by (simp add: le16_def)
  ultimately show ?thesis
    using l assms(2) by (simp add: store_message_def Let_def cb_consts min_def)
qed

section \<open>Properties\<close>

text \<open>The bytes that the queue gets for a message of a component.\<close>

definition queued_message :: "component_id \<Rightarrow> byte list \<Rightarrow> byte list" where
  "queued_message c msg = component_byte c # (if length msg \<le> 511 then msg else butlast msg @ [1])"

lemma frame_stored:
  assumes "rs_broadcast c msg l = (ok, l')" "p \<in> set (spi_attempts (new_effects l l'))"
  shows "store_message (pl_buffer p) (pl_len p) = Some (queued_message c msg)"
proof -
  let ?m = "component_byte c # msg"
  have p: "carries l ?m p" using rs_broadcast_attempts(4) [OF assms(1)] assms(2) by blast
  have short: "length msg \<le> 512"
    using rs_broadcast_attempts(5) [OF assms(1)] assms(2)
    by (cases "length msg \<le> 512") (auto simp: rs_consts)
  have buf: "pl_buffer p = ?m @ replicate (ring_link_netif_mtu (env l) - length ?m) 0"
    and len: "pl_len p = of_nat (length ?m)"
    using p by (simp_all add: carries_def fill_buffer_def)
  have n: "unat (pl_len p) = length ?m" unfolding len using short by (subst unat_of_nat) simp
  show ?thesis
  proof (cases "length msg \<le> 511")
    case True
    then show ?thesis
      using store_message_short [of "pl_len p" "pl_buffer p"] n
      by (simp add: buf queued_message_def cb_consts)
  next
    case False
    then have l: "length msg = 512" using short by simp
    then have "msg \<noteq> []" by auto
    then have m: "?m = (component_byte c # butlast msg) @ [last msg]" by simp
    then have "take 513 (pl_buffer p) = (component_byte c # butlast msg) @ [last msg]"
      using l by (simp add: buf)
    from store_message_513 [OF this] l len False show ?thesis
      by (simp add: queued_message_def)
  qed
qed

text \<open>
  Property C12 (callbacks): what one component of a board broadcasts to its siblings reaches the
  same component of another board. A frame of the broadcast makes the internal task of the other
  board put the message at the back of its queue, when there is room; and when the message is at
  the front, the task of the siblings calls the handler that is registered for the component with
  it. The message arrives as it was sent, but for one of 512 bytes, the longest that may be
  broadcast: the array of the queue is one byte too short and its last byte is overwritten by 1.
\<close>

theorem sibling_message_reaches_component:
  fixes d e :: "'a cb_sys_scheme"
  assumes "rs_broadcast c msg l = (ok, l')" "p \<in> set (spi_attempts (new_effects l l'))"
    and "config_get_id (s_config (lk d)) \<noteq> config_get_id (s_config l)"
    and "length (sibling_message_queue d) < 10"
    and "sibling_message_queue e = queued_message c msg # q" "sb_callback e = RingShareOnSibling"
    and "length (rs_components (rsh e)) = 10"
  shows "(\<exists>d'. board_internal_handler p d = Some (Some d') \<and>
      sibling_message_queue d' = sibling_message_queue d @ [queued_message c msg]) \<and>
    sibling_message_task e =
      (case rs_components (rsh e) ! component_num c of
         None \<Rightarrow> Some (Some (e\<lparr>sibling_message_queue := q\<rparr>))
       | Some cb \<Rightarrow> map_option Some (component_callback cb (if length msg \<le> 511 then msg else butlast msg @ [1])
                      (e\<lparr>sibling_message_queue := q\<rparr>)))"
proof -
  have p: "carries l (component_byte c # msg) p"
    using rs_broadcast_attempts(4) [OF assms(1)] assms(2) by blast
  have foreign: "ring_link_payload_is_broadcast p" "\<not> ring_link_payload_is_from_device p (lk d)"
    using p assms(3) by (simp_all add: carries_def ring_link_payload_is_from_device_def)
  have "\<exists>d'. board_internal_handler p d = Some (Some d') \<and>
      sibling_message_queue d' = sibling_message_queue d @ [queued_message c msg]"
    using assms(4) by (simp add: board_internal_handler_def foreign_broadcast_given [OF foreign] Let_def
        node_on_sibling_message_def frame_stored [OF assms(1,2)] cb_consts)
  moreover have "component_num c < 10" using component_num_less [of c] by (simp add: rs_consts)
  ultimately show ?thesis
    using assms(5,6,7)
    by (auto simp: sibling_message_task_def board_on_sibling_message_def queued_message_def
        rs_on_sibling_message_def rs_consts Let_def split: option.splits)
qed

definition cb_sys_start :: "environment \<Rightarrow> cb_sys" where
  "cb_sys_start e = im_sys.extend (im_sys_start e) \<lparr>peer_event_queue = [], peer_message_queue = [],
     sibling_message_queue = [], sb_callback = DoNothingMessage\<rparr>"

definition listening_board :: "byte list list \<Rightarrow> cb_sys" where
  "listening_board q = (cb_sys_start quiet_env)\<lparr>sibling_message_queue := q, sb_callback := RingShareOnSibling,
     rsh := rs_register_component RS_PRIORITY_MANAGER (Some PriorityManagerOnSibling) ring_share_zero\<rparr>"

theorem sibling_message_reaches_component_witness:
  "sibling_message_task (listening_board [queued_message RS_PRIORITY_MANAGER [2, 200]]) =
   Some (Some ((listening_board [])\<lparr>pmgr := pm_zero\<lparr>devices_rssi := [-127, -127, 200, -127]\<rparr>\<rparr>))"
proof -
  let ?l = "quiet_board 0" and ?e = "listening_board [queued_message RS_PRIORITY_MANAGER [2, 200]]"
  have "reliable (env ?l)" "Suc (length ([2, 200] :: byte list)) \<le> ring_link_netif_mtu (env ?l)"
    by (simp_all add: reliable_def quiet_env_def ring_link_netif_mtu_def)
  then obtain l' where r: "rs_broadcast RS_PRIORITY_MANAGER [2, 200] ?l = (True, l')"
    using reliable_broadcast [of ?l "[2, 200]" RS_PRIORITY_MANAGER] by auto
  obtain p where p: "p \<in> set (spi_attempts (new_effects ?l l'))"
    using rs_broadcast_attempts(3) [OF r] by (cases "spi_attempts (new_effects ?l l')") auto
  note start_simps = listening_board_def cb_sys_start_def im_sys_start_def im_sys.extend_def
  have "config_get_id (s_config (lk ?e)) \<noteq> config_get_id (s_config ?l)"
    by (simp add: start_simps s_config_init_def config_get_id_def config_enums quiet_board_def link_init_def)
  moreover have "rs_components (rsh ?e) ! component_num RS_PRIORITY_MANAGER = Some PriorityManagerOnSibling"
    "length (rs_components (rsh ?e)) = 10"
    by (simp_all add: start_simps rs_register_component_def ring_share_zero_def rs_consts)
  moreover have "pm_on_sibling_message [2, 200] pm_zero = pm_zero\<lparr>devices_rssi := [-127, -127, 200, -127]\<rparr>"
    by code_simp
  ultimately show ?thesis
    using sibling_message_reaches_component [OF r p, of ?e ?e "[]"]
    by (simp add: start_simps component_callback_def)
qed

end
