(* ===== verification/Sockets.thy ===== *)
theory Sockets
  imports Callbacks
begin

text \<open>
  The tasks of the TCP link between two nodes (\<open>wireless/server/server.c\<close> on the access point,
  \<open>wireless/client/client.c\<close> on the station). What the network answers is an argument: the address
  of the interface, the sockets, and the results of \<open>recv\<close> in their order, as far as they have
  come. A task's calls into \<open>callbacks.c\<close> are the list \<open>peer_call\<close>: each of them waits for room in a
  queue that other tasks empty, so they are carried out one at a time by \<open>do_peer_call\<close>.
  Addresses are numbers in host order.
\<close>

section \<open>State\<close>

record peer_sockets =
  cl_peer_connected :: bool
  cl_peer_net :: u32
  cl_peer_mask :: u32
  sv_peer_net :: u32
  sv_peer_mask :: u32

record sk_sys = cb_sys +
  sk :: peer_sockets

definition sockets_zero :: peer_sockets where
  "sockets_zero = \<lparr>cl_peer_connected = False, cl_peer_net = 0, cl_peer_mask = 0, sv_peer_net = 0,
     sv_peer_mask = 0\<rparr>"

definition SOCKET_BUFFER_SIZE :: nat where "SOCKET_BUFFER_SIZE = 512"
definition CLIENT_RETRY_DELAY_MS :: u32 where "CLIENT_RETRY_DELAY_MS = 5000"

text \<open>\<open>recv\<close> returns a negative number, zero, or that many bytes of at most the buffer's size.\<close>

datatype recv_result = RecvError | RecvClosed | RecvData "byte list"

definition recv_ok :: "recv_result \<Rightarrow> bool" where
  "recv_ok r = (case r of RecvData bs \<Rightarrow> bs \<noteq> [] \<and> length bs \<le> SOCKET_BUFFER_SIZE | _ \<Rightarrow> True)"

datatype peer_call = CallConnected u32 u32 peer_type | CallMessage "byte list"
  | CallLost u32 u32 peer_type

definition do_peer_call :: "peer_call \<Rightarrow> 'a cb_sys_scheme \<Rightarrow> 'a cb_sys_scheme option option" where
  "do_peer_call c d =
     (case c of
        CallConnected net msk ty \<Rightarrow> Some (node_on_peer_connected net msk ty d)
      | CallMessage bs \<Rightarrow> node_on_peer_message bs (of_nat (length bs)) d
      | CallLost net msk ty \<Rightarrow> Some (node_on_peer_lost net msk ty d))"

section \<open>The loops that read\<close>

text \<open>The calls of \<open>while (1)\<close> for the results so far, and whether the loop has come to its end.\<close>

fun server_reads :: "recv_result list \<Rightarrow> peer_call list \<times> bool" where
  "server_reads [] = ([], False)"
| "server_reads (RecvData bs # rs) = (let (cs, over) = server_reads rs in (CallMessage bs # cs, over))"
| "server_reads (RecvError # rs) = ([], True)"
| "server_reads (RecvClosed # rs) = ([], True)"

fun client_reads :: "u32 \<Rightarrow> u32 \<Rightarrow> bool \<Rightarrow> recv_result list \<Rightarrow> peer_call list \<times> bool \<times> bool" where
  "client_reads net msk connected [] = ([], connected, False)"
| "client_reads net msk connected (RecvData bs # rs) =
     (let (cs, connected', over) = client_reads net msk True rs
      in (CallMessage bs # (if connected then [] else [CallConnected net msk PEER_CLIENT]) @ cs,
          connected', over))"
| "client_reads net msk connected (RecvError # rs) = ([], connected, True)"
| "client_reads net msk connected (RecvClosed # rs) = ([], connected, True)"

definition server_socket_read_loop :: "u32 \<Rightarrow> u32 \<Rightarrow> recv_result list \<Rightarrow> peer_call list \<times> bool" where
  "server_socket_read_loop net msk rs =
     (let (cs, over) = server_reads rs
      in (CallConnected net msk PEER_SERVER # cs @
            (if over then [CallLost net msk PEER_SERVER] else []), over))"

definition client_socket_read_loop :: "u32 \<Rightarrow> u32 \<Rightarrow> bool \<Rightarrow> recv_result list \<Rightarrow> peer_call list \<times> bool \<times> bool" where
  "client_socket_read_loop net msk connected rs =
     (let (cs, connected', over) = client_reads net msk connected rs
      in if over \<and> connected' then (cs @ [CallLost net msk PEER_CLIENT], False, over)
         else (cs, connected', over))"

section \<open>The tasks\<close>

text \<open>
  The server up to its loop: \<open>True\<close> when the loop is reached. \<open>fd\<close> is the socket, the flags tell
  whether \<open>bind\<close> and \<open>listen\<close> succeed.
\<close>

definition server_network :: "(u32 \<times> u32) option \<Rightarrow> 'a sk_sys_scheme \<Rightarrow> 'a sk_sys_scheme option" where
  "server_network info d =
     (case info of None \<Rightarrow> None
      | Some (ip, msk) \<Rightarrow> Some (d\<lparr>sk := (sk d)\<lparr>sv_peer_net := ip AND msk, sv_peer_mask := msk\<rparr>\<rparr>))"

definition server_clean_up :: "'a sk_sys_scheme \<Rightarrow> 'a sk_sys_scheme" where
  "server_clean_up d =
     driver ''delete_task_tcp_server'' []
       (if sv_listen_sock (wst d) \<ge> 0 then driver ''close_listen_socket'' [] d else d)"

definition tcp_server_task_start ::
  "(u32 \<times> u32) option \<Rightarrow> int \<Rightarrow> bool \<Rightarrow> bool \<Rightarrow> 'a sk_sys_scheme \<Rightarrow> bool \<times> 'a sk_sys_scheme" where
  "tcp_server_task_start info fd bind_ok listen_ok d =
     (case server_network info d of
        None \<Rightarrow> (False, driver ''delete_task_tcp_server'' [] d)
      | Some d1 \<Rightarrow>
          let d2 = upd_wst (\<lambda>w. w\<lparr>sv_listen_sock := fd\<rparr>) d1
          in if fd < 0 then (False, driver ''delete_task_tcp_server'' [] d2)
             else let d3 = driver ''bind_tcp_server'' [] d2
             in if \<not> bind_ok then (False, server_clean_up d3)
             else let d4 = driver ''listen_tcp_server'' [] d3
             in if \<not> listen_ok then (False, server_clean_up d4) else (True, d4))"

text \<open>One round of the server's loop, while \<open>server_is_up\<close>, and its end.\<close>

definition tcp_server_round :: "int \<Rightarrow> recv_result list \<Rightarrow> 'a sk_sys_scheme \<Rightarrow> peer_call list \<times> 'a sk_sys_scheme" where
  "tcp_server_round sock rs d =
     (if \<not> sv_server_is_up (wst d) then ([], server_clean_up d)
      else if sock < 0 then ([], d)
      else let (cs, over) = server_socket_read_loop (sv_peer_net (sk d)) (sv_peer_mask (sk d)) rs
           in (cs, if over then driver ''close_peer_socket'' [] (upd_wst (\<lambda>w. w\<lparr>sv_client_sock := -1\<rparr>) d)
                   else upd_wst (\<lambda>w. w\<lparr>sv_client_sock := sock\<rparr>) d))"

text \<open>
  One round of the client's loop: the address and the gateway of the interface, the socket and
  whether \<open>connect\<close> succeeds.
\<close>

definition client_network :: "(u32 \<times> u32) option \<Rightarrow> 'a sk_sys_scheme \<Rightarrow> 'a sk_sys_scheme option" where
  "client_network info d =
     (case info of None \<Rightarrow> None
      | Some (ip, msk) \<Rightarrow> Some (d\<lparr>sk := (sk d)\<lparr>cl_peer_net := ip AND msk, cl_peer_mask := msk\<rparr>\<rparr>))"

definition tcp_client_round ::
  "(u32 \<times> u32) option \<Rightarrow> u32 option \<Rightarrow> int \<Rightarrow> bool \<Rightarrow> recv_result list \<Rightarrow> 'a sk_sys_scheme \<Rightarrow>
   peer_call list \<times> 'a sk_sys_scheme" where
  "tcp_client_round info gateway sock connect_ok rs d =
     (if \<not> cl_sta_is_up (wst d) then ([], driver ''delete_task_tcp_client'' [] d)
      else case client_network info d of
        None \<Rightarrow> ([], delay_ms CLIENT_RETRY_DELAY_MS d)
      | Some d1 \<Rightarrow>
          (case gateway of
             None \<Rightarrow> ([], delay_ms CLIENT_RETRY_DELAY_MS d1)
           | Some gw \<Rightarrow>
               if sock < 0 then ([], delay_ms CLIENT_RETRY_DELAY_MS d1)
               else let d2 = driver ''connect_tcp_client'' [gw] d1
               in if \<not> connect_ok
                  then ([], delay_ms CLIENT_RETRY_DELAY_MS (driver ''close_peer_socket'' [] d2))
                  else let (cs, connected, over) = client_socket_read_loop (cl_peer_net (sk d2))
                             (cl_peer_mask (sk d2)) (cl_peer_connected (sk d2)) rs;
                           d3 = d2\<lparr>sk := (sk d2)\<lparr>cl_peer_connected := connected\<rparr>\<rparr>
                       in (cs, if over
                               then delay_ms CLIENT_RETRY_DELAY_MS (driver ''close_peer_socket'' []
                                      (upd_wst (\<lambda>w. w\<lparr>cl_server_sock := -1\<rparr>) d3))
                               else upd_wst (\<lambda>w. w\<lparr>cl_server_sock := sock\<rparr>) d3)))"

section \<open>Lemmas\<close>

fun received :: "recv_result list \<Rightarrow> byte list list" where
  "received [] = []"
| "received (RecvData bs # rs) = bs # received rs"
| "received (_ # rs) = []"

definition is_data :: "recv_result \<Rightarrow> bool" where
  "is_data r = (case r of RecvData _ \<Rightarrow> True | _ \<Rightarrow> False)"

lemma server_reads_calls: "server_reads rs = (map CallMessage (received rs), list_ex (\<lambda>r. \<not> is_data r) rs)"
  by (induction rs rule: server_reads.induct) (simp_all add: is_data_def)

lemma client_reads_connected:
  "client_reads net msk True rs = (map CallMessage (received rs), True, list_ex (\<lambda>r. \<not> is_data r) rs)"
  by (induction rs rule: received.induct) (simp_all add: is_data_def)

lemma client_reads_first:
  "client_reads net msk False rs =
     (case received rs of
        [] \<Rightarrow> ([], False, rs \<noteq> [])
      | b # bs \<Rightarrow> (CallMessage b # CallConnected net msk PEER_CLIENT # map CallMessage bs, True,
          list_ex (\<lambda>r. \<not> is_data r) rs))"
  by (cases rs rule: received.cases) (simp_all add: client_reads_connected is_data_def)

section \<open>Properties\<close>

text \<open>
  The server reports the connection, then the messages it read in
  their order, then, once the connection is over, its loss. The client reports nothing when it
  reads nothing; else the first message comes \<^emph>\<open>before\<close> the report of the connection, the others
  follow in order, and the loss is reported once when the connection is over. So a message
  comes before the connection, which the interface \<open>wireless.h\<close> excludes.
\<close>

lemma peer_call_order:
  "server_socket_read_loop net msk rs =
     (CallConnected net msk PEER_SERVER # map CallMessage (received rs) @
        (if list_ex (\<lambda>r. \<not> is_data r) rs then [CallLost net msk PEER_SERVER] else []),
      list_ex (\<lambda>r. \<not> is_data r) rs) \<and>
   fst (client_socket_read_loop net msk False rs) =
     (case received rs of
        [] \<Rightarrow> []
      | m # ms \<Rightarrow> [CallMessage m, CallConnected net msk PEER_CLIENT] @ map CallMessage ms @
          (if list_ex (\<lambda>r. \<not> is_data r) rs then [CallLost net msk PEER_CLIENT] else []))"
  by (simp add: server_socket_read_loop_def client_socket_read_loop_def server_reads_calls
      client_reads_first split: list.splits)

text \<open>
  Property C38 (peer sockets): events of the routing protocol have to be read one at a time. The
  server hands what one \<open>recv\<close> returns to the callbacks as one message. If that is one event it is put
  at the end of the queue of the routing component. If it is two or three events, which TCP may
  deliver together, the task of the messages refuses all of them: the routing component and the lock
  stay as they are and the board panics.
\<close>

theorem events_read_together_are_lost:
  assumes "\<forall>ev \<in> set evs. peer_event_ok ev" "evs \<noteq> []" "length evs \<le> 3"
    and "\<forall>r \<in> set rs. is_data r"
    and "calls = fst (server_socket_read_loop net msk (rs @ [RecvData (concat (map peer_event_bytes evs))]))"
    and "peer_message_queue d = []" "wl_callbacks d = RoutingCallbacks"
    and "length (external_queue (rt d)) < 16"
    and "do_peer_call (last calls) d = Some (Some d1)" "peer_message_task d1 = Some (Some d2)"
  shows "length calls = length rs + 2 \<and>
    external_queue (rt d2) = external_queue (rt d) @ (if length evs = 1 then evs else []) \<and>
    internal_queue (rt d2) = internal_queue (rt d) \<and> rt_role (rt d2) = rt_role (rt d) \<and>
    (length evs \<noteq> 1 \<longrightarrow> rt d2 = rt d \<and> sy d2 = sy d \<and>
       trace (lk d2) = trace (lk d) @ [Panic ''Invalid peer message received''])"
proof -
  let ?m = "concat (map peer_event_bytes evs)"
  have len: "length ?m = 132 * length evs"
    using assms(1) by (induction evs) (auto simp: peer_wire.length_enc SIZEOF_RT_EVENT_def)
  then have short: "length ?m \<le> 512" using assms(3) by simp
  then have u: "unat (of_nat (length ?m) :: u16) = length ?m" by (subst unat_of_nat) simp
  have reads: "received (rs @ [RecvData ?m]) = received rs @ [?m]" "length (received rs) = length rs"
    "\<not> list_ex (\<lambda>r. \<not> is_data r) (rs @ [RecvData ?m])"
    using assms(4) by (induction rs rule: received.induct) (auto simp: is_data_def)
  then have calls: "calls = CallConnected net msk PEER_SERVER # map CallMessage (received rs) @ [CallMessage ?m]"
    unfolding assms(5) peer_call_order [THEN conjunct1] by simp
  have d1: "d1 = d\<lparr>peer_message_queue := [?m]\<rparr>"
    using assms(9) store_message_short [of "of_nat (length ?m)" ?m] u short assms(6)
    by (simp add: calls do_peer_call_def node_on_peer_message_def cb_consts)
  have t: "rt_on_peer_message ?m (d\<lparr>peer_message_queue := []\<rparr>) = Some d2"
    using assms(10) assms(7) by (simp add: d1 peer_message_task_def)
  have n: "length calls = length rs + 2" by (simp add: calls reads(2))
  show ?thesis
  proof (cases "length evs = 1")
    case True
    then obtain ev where ev: "evs = [ev]" by (cases evs) auto
    with assms(1) have "peer_event_of_bytes ?m = ev" by (simp add: peer_wire.dec_enc)
    with t len True have q: "queue_peer_message ev (d\<lparr>peer_message_queue := []\<rparr>) = Some d2"
      by (simp add: rt_on_peer_message_def SIZEOF_RT_EVENT_def)
    then have "rt d2 = (rt d)\<lparr>external_queue := external_queue (rt d) @ [ev]\<rparr>"
      using assms(8) by (auto simp: queue_peer_message_def rt_consts upd_rt_def dest: request_keeps(1))
    with ev n show ?thesis by simp
  next
    case False
    with t len assms(2) have "d2 = board_panic ''Invalid peer message received'' (d\<lparr>peer_message_queue := []\<rparr>)"
      by (auto simp: rt_on_peer_message_def SIZEOF_RT_EVENT_def)
    with False n show ?thesis by (simp add: board_panic_def os_panic_def)
  qed
qed

theorem events_read_together_are_lost_witness:
  "\<exists>d1 d2. do_peer_call (last (fst (server_socket_read_loop 0x0A200000 0xFFFFFFFC
         [RecvData (concat (map peer_event_bytes [PeerUpdateDtr 1, PeerUpdateDtr 2]))])))
       ((cb_sys_start quiet_env)\<lparr>wl_callbacks := RoutingCallbacks\<rparr>) = Some (Some d1) \<and>
     peer_message_task d1 = Some (Some d2) \<and> external_queue (rt d2) = [] \<and>
     trace (lk d2) = [Panic ''Invalid peer message received'']"
proof -
  let ?d = "(cb_sys_start quiet_env)\<lparr>wl_callbacks := RoutingCallbacks\<rparr>"
  let ?evs = "[PeerUpdateDtr 1, PeerUpdateDtr 2]"
  let ?m = "concat (map peer_event_bytes ?evs)"
  have len: "length ?m = 264" by (simp add: peer_wire.length_enc SIZEOF_RT_EVENT_def)
  have q: "peer_message_queue ?d = []" "wl_callbacks ?d = RoutingCallbacks" "external_queue (rt ?d) = []"
    by (simp_all add: cb_sys_start_def im_sys_start_def im_sys.extend_def routing_zero_def)
  let ?call = "last (fst (server_socket_read_loop 0x0A200000 0xFFFFFFFC [RecvData ?m]))"
  have call: "?call = CallMessage ?m" by (simp add: server_socket_read_loop_def)
  have 1: "do_peer_call ?call ?d = Some (Some (?d\<lparr>peer_message_queue := [?m]\<rparr>))"
    unfolding call using store_message_short [of 264 ?m] q(1) len
    by (simp add: do_peer_call_def node_on_peer_message_def cb_consts)
  have 2: "peer_message_task (?d\<lparr>peer_message_queue := [?m]\<rparr>) =
      Some (Some (board_panic ''Invalid peer message received'' (?d\<lparr>peer_message_queue := []\<rparr>)))"
    using len q(2) by (simp add: peer_message_task_def rt_on_peer_message_def SIZEOF_RT_EVENT_def)
  have "\<forall>ev \<in> set ?evs. peer_event_ok ev" "?evs \<noteq> []" "length ?evs \<le> 3" "length (external_queue (rt ?d)) < 16"
    using q(3) by simp_all
  note lost = events_read_together_are_lost [OF this(1-3) _ HOL.refl q(1,2) this(4) _ 2,
    where rs = "[]" and net = "0x0A200000" and msk = "0xFFFFFFFC"]
  have "external_queue (rt (board_panic ''Invalid peer message received'' (?d\<lparr>peer_message_queue := []\<rparr>))) = [] \<and>
      trace (lk (board_panic ''Invalid peer message received'' (?d\<lparr>peer_message_queue := []\<rparr>))) =
        trace (lk ?d) @ [Panic ''Invalid peer message received'']"
    using lost 1 q(3) by simp
  moreover have "trace (lk ?d) = []" by (simp add: cb_sys_start_def im_sys_start_def im_sys.extend_def link_init_def)
  ultimately show ?thesis using 1 2 by simp
qed

end
