(* ===== verification/Ring_Netif.thy ===== *)
theory Ring_Netif
  imports Ring_Broadcast
begin

text \<open>
  The two IP interfaces of a board on the ring (\<open>internal/ring_link_netif\<close>): the \<open>tx\<close> interface,
  through which lwIP sends a packet to the next board, and the \<open>rx\<close> interface, which gives the
  packets of the board before to lwIP. A packet travels one hop in a payload for \<open>CONFIG_ID_ANY\<close>.

  A \<open>pbuf\<close> is the chain of its segments. What lwIP and esp_netif answer is an argument:
  whether a handle exists, whether memory is found, and the result of a call; \<open>esp_netif_transmit\<close>
  calls the transmit function that the driver registered. An abort by \<open>ESP_ERROR_CHECK\<close> and a
  read outside an array are \<open>None\<close>.
\<close>

section \<open>Interfaces\<close>

datatype err_t = ERR_OK | ERR_MEM | ERR_IF

datatype netif_flag = NETIF_FLAG_BROADCAST | NETIF_FLAG_LINK_UP

record lwip_netif =
  nf_name :: string
  nf_mtu :: nat
  nf_hwaddr_len :: nat
  nf_flags :: "netif_flag list"

datatype transmit_fn = NoTransmit | RxDriverTransmit | TxDriverTransmit

record ring_netif =
  nf_transmit :: transmit_fn
  nf_ip_info :: "ip_info_t option"
  nf_mac :: "byte list option"
  nf_started :: bool

record netifs =
  ring_link_rx_netif :: "ring_netif option"
  ring_link_tx_netif :: "ring_netif option"
  tx_is_default :: bool

definition netifs_zero :: netifs where
  "netifs_zero = \<lparr>ring_link_rx_netif = None, ring_link_tx_netif = None, tx_is_default = False\<rparr>"

definition fresh_netif :: ring_netif where
  "fresh_netif = \<lparr>nf_transmit = NoTransmit, nf_ip_info = None, nf_mac = None, nf_started = False\<rparr>"

text \<open>\<open>ESP_ERR_ESP_NETIF_INVALID_PARAMS\<close>, the answer of esp_netif to a null handle.\<close>

definition invalid_params :: esp_err where "invalid_params = ESP_ERR_OTHER 0x5001"

definition ring_link_netif_new :: "bool \<Rightarrow> ring_netif option" where
  "ring_link_netif_new new_ok = (if new_ok then Some fresh_netif else None)"

definition ring_link_netif_esp_netif_attach ::
  "bool \<Rightarrow> (ring_netif \<Rightarrow> ring_netif) \<Rightarrow> ring_netif option \<Rightarrow> esp_err \<times> ring_netif option" where
  "ring_link_netif_esp_netif_attach calloc_ok post_attach_callback netif =
     (if \<not> calloc_ok then (ESP_FAIL, netif)
      else case netif of
             None \<Rightarrow> (invalid_params, None)
           | Some nf \<Rightarrow> (ESP_OK, Some (post_attach_callback nf)))"

definition ring_link_rx_driver_post_attach :: "ring_netif \<Rightarrow> ring_netif" where
  "ring_link_rx_driver_post_attach nf = nf\<lparr>nf_transmit := RxDriverTransmit\<rparr>"

definition ring_link_tx_driver_post_attach :: "ring_netif \<Rightarrow> ring_netif" where
  "ring_link_tx_driver_post_attach nf = nf\<lparr>nf_transmit := TxDriverTransmit\<rparr>"

definition ring_link_rx_netstack_lwip_init_fn :: "environment \<Rightarrow> err_t \<times> lwip_netif" where
  "ring_link_rx_netstack_lwip_init_fn e =
     (ERR_OK, \<lparr>nf_name = ''rx'', nf_mtu = ring_link_netif_mtu e, nf_hwaddr_len = 6,
        nf_flags = [NETIF_FLAG_BROADCAST, NETIF_FLAG_LINK_UP]\<rparr>)"

definition ring_link_tx_netstack_init_fn :: "environment \<Rightarrow> err_t \<times> lwip_netif" where
  "ring_link_tx_netstack_init_fn e =
     (ERR_OK, \<lparr>nf_name = ''sp'', nf_mtu = ring_link_netif_mtu e, nf_hwaddr_len = 6,
        nf_flags = [NETIF_FLAG_BROADCAST, NETIF_FLAG_LINK_UP]\<rparr>)"

section \<open>Start\<close>

text \<open>The event handler and the post of the start event are taken to succeed.\<close>

definition ring_link_rx_netif_init :: "bool \<Rightarrow> bool \<Rightarrow> netifs \<Rightarrow> link \<Rightarrow> (netifs \<times> link) option" where
  "ring_link_rx_netif_init new_ok calloc_ok ns l =
     (let (rc, nf) = ring_link_netif_esp_netif_attach calloc_ok ring_link_rx_driver_post_attach
                       (ring_link_netif_new new_ok)
      in if rc \<noteq> ESP_OK then None
         else Some (ns\<lparr>ring_link_rx_netif := nf\<rparr>, emit (Driver ''post_rx_start'' []) l))"

text \<open>Without its MAC address the interface stays half set up and the error goes to the caller.\<close>

definition ring_link_tx_netif_init ::
  "bool \<Rightarrow> bool \<Rightarrow> esp_err \<Rightarrow> netifs \<Rightarrow> link \<Rightarrow> (esp_err \<times> netifs \<times> link) option" where
  "ring_link_tx_netif_init new_ok calloc_ok mac_rc ns l =
     (let (rc, nf) = ring_link_netif_esp_netif_attach calloc_ok ring_link_tx_driver_post_attach
                       (ring_link_netif_new new_ok)
      in if rc \<noteq> ESP_OK then None
         else if mac_rc \<noteq> ESP_OK then Some (mac_rc, ns\<lparr>ring_link_tx_netif := nf\<rparr>, l)
         else Some (ESP_OK,
                ns\<lparr>ring_link_tx_netif := map_option (\<lambda>n. n\<lparr>nf_mac := Some (env_mac (env l))\<rparr>) nf\<rparr>,
                emit (Driver ''post_tx_start'' []) l))"

definition ring_link_netif_init ::
  "bool \<Rightarrow> bool \<Rightarrow> esp_err \<Rightarrow> bool \<Rightarrow> bool \<Rightarrow> netifs \<Rightarrow> link \<Rightarrow> (esp_err \<times> netifs \<times> link) option" where
  "ring_link_netif_init new_ok calloc_ok mac_rc queue_ok task_ok ns l =
     do { (ns1, l1) \<leftarrow> ring_link_rx_netif_init new_ok calloc_ok ns l;
          (rc, ns2, l2) \<leftarrow> ring_link_tx_netif_init new_ok calloc_ok mac_rc ns1 l1;
          if rc \<noteq> ESP_OK then None
          else if \<not> queue_ok then Some (ESP_FAIL, ns2, l2)
          else Some (if task_ok then ESP_OK else ESP_FAIL, ns2,
                 emit (Driver ''create_task_ring_link_netif'' []) l2) }"

definition start_netif :: "ip_info_t \<Rightarrow> ring_netif \<Rightarrow> ring_netif" where
  "start_netif info nf = nf\<lparr>nf_ip_info := Some info, nf_started := True\<rparr>"

definition ring_link_rx_default_action_start ::
  "(int \<Rightarrow> int \<Rightarrow> int \<Rightarrow> int \<Rightarrow> u32) \<Rightarrow> netifs \<Rightarrow> link \<Rightarrow> netifs option" where
  "ring_link_rx_default_action_start ip4 ns l =
     do { nf \<leftarrow> ring_link_rx_netif ns;
          Some (ns\<lparr>ring_link_rx_netif := Some (start_netif (config_get_rx_ip_info ip4 (s_config l))
                 (nf\<lparr>nf_mac := Some [0x00, 0x11, 0x22, 0x33, 0x44, 0x55]\<rparr>))\<rparr>) }"

definition ring_link_tx_default_action_start ::
  "(int \<Rightarrow> int \<Rightarrow> int \<Rightarrow> int \<Rightarrow> u32) \<Rightarrow> netifs \<Rightarrow> link \<Rightarrow> netifs option" where
  "ring_link_tx_default_action_start ip4 ns l =
     do { nf \<leftarrow> ring_link_tx_netif ns;
          Some (ns\<lparr>ring_link_tx_netif := Some (start_netif (config_get_tx_ip_info ip4 (s_config l)) nf),
                   tx_is_default := True\<rparr>) }"

definition get_ring_link_rx_netif :: "netifs \<Rightarrow> ring_netif option" where
  "get_ring_link_rx_netif ns = ring_link_rx_netif ns"

definition get_ring_link_tx_netif :: "netifs \<Rightarrow> ring_netif option" where
  "get_ring_link_tx_netif ns = ring_link_tx_netif ns"

definition get_spi_tx_ip_interface_address :: "netifs \<Rightarrow> u32 option" where
  "get_spi_tx_ip_interface_address ns =
     do { nf \<leftarrow> ring_link_tx_netif ns; info \<leftarrow> nf_ip_info nf; Some (ii_ip info) }"

section \<open>Sending\<close>

type_synonym pbuf = "byte list list"

definition netif_payload :: "u8 \<Rightarrow> byte list \<Rightarrow> link \<Rightarrow> ring_link_payload" where
  "netif_payload counter bytes l =
     \<lparr>pl_id = counter, pl_type = RING_LINK_PAYLOAD_TYPE_ESP_NETIF, pl_len = of_nat (length bytes),
      pl_ttl = RING_LINK_PAYLOAD_TTL, pl_src = config_get_id (s_config l), pl_dst = CONFIG_ID_ANY,
      pl_buffer = fill_buffer (env l) bytes, pl_pad = env_padding (env l), pl_crc32 = 0\<rparr>"

text \<open>\<open>esp_netif_ring_link_driver_transmit\<close> of the two files; \<open>None\<close> is a null buffer.\<close>

definition rx_driver_transmit :: "byte list option \<Rightarrow> link \<Rightarrow> esp_err \<times> link" where
  "rx_driver_transmit buffer l =
     (case buffer of
        None \<Rightarrow> (ESP_OK, l)
      | Some bytes \<Rightarrow>
          let p = netif_payload (s_id_counter_rx l) bytes l;
              l1 = l\<lparr>s_id_counter_rx := s_id_counter_rx l + 1\<rparr>
          in if length bytes > ring_link_netif_mtu (env l) then (ESP_ERR_INVALID_SIZE, l1)
             else ring_link_lowlevel_transmit_payload p l1)"

definition tx_driver_transmit :: "byte list option \<Rightarrow> link \<Rightarrow> esp_err \<times> link" where
  "tx_driver_transmit buffer l =
     (case buffer of
        None \<Rightarrow> (ESP_OK, l)
      | Some bytes \<Rightarrow>
          let p = netif_payload (s_id_counter_tx l) bytes l;
              l1 = l\<lparr>s_id_counter_tx := s_id_counter_tx l + 1\<rparr>
          in if length bytes > ring_link_netif_mtu (env l) then (ESP_ERR_INVALID_SIZE, l1)
             else ring_link_lowlevel_transmit_payload p l1)"

definition err_of_esp :: "esp_err \<Rightarrow> err_t" where
  "err_of_esp ret = (if ret = ESP_OK then ERR_OK else if ret = ESP_ERR_NO_MEM then ERR_MEM else ERR_IF)"

text \<open>A chain of several segments is copied into one.\<close>

definition linkoutput ::
  "(byte list option \<Rightarrow> link \<Rightarrow> esp_err \<times> link) \<Rightarrow> bool \<Rightarrow> bool \<Rightarrow> pbuf \<Rightarrow> link \<Rightarrow> err_t \<times> link" where
  "linkoutput transmit handle_ok alloc_ok segments l =
     (if \<not> handle_ok then (ERR_IF, l)
      else if length segments = 1
      then let (ret, l1) = transmit (Some (hd segments)) l in (err_of_esp ret, l1)
      else if \<not> alloc_ok then (ERR_MEM, l)
      else let (ret, l1) = transmit (Some (concat segments)) l in (err_of_esp ret, l1))"

definition rx_linkoutput_function :: "bool \<Rightarrow> bool \<Rightarrow> pbuf \<Rightarrow> link \<Rightarrow> err_t \<times> link" where
  "rx_linkoutput_function = linkoutput rx_driver_transmit"

definition tx_linkoutput_function :: "bool \<Rightarrow> bool \<Rightarrow> pbuf \<Rightarrow> link \<Rightarrow> err_t \<times> link" where
  "tx_linkoutput_function = linkoutput tx_driver_transmit"

text \<open>\<open>IPH_V\<close> and \<open>lwip_ntohs(IPH_LEN(...))\<close> of the header at the start of the bytes.\<close>

definition ip_version :: "byte list \<Rightarrow> nat option" where
  "ip_version bytes = (case bytes of [] \<Rightarrow> None | b # _ \<Rightarrow> Some (unat (drop_bit 4 b)))"

definition ip_total_len :: "byte list \<Rightarrow> nat" where
  "ip_total_len bytes = 256 * unat (bytes ! 2) + unat (bytes ! 3)"

text \<open>The result of the link output is not looked at.\<close>

definition rx_output_function :: "bool \<Rightarrow> bool \<Rightarrow> pbuf \<Rightarrow> link \<Rightarrow> (esp_err \<times> link) option" where
  "rx_output_function handle_ok alloc_ok segments l =
     do { v \<leftarrow> ip_version (hd segments);
          Some (ESP_OK, if v = 4 \<or> v = 6 then snd (rx_linkoutput_function handle_ok alloc_ok segments l)
                        else l) }"

definition tx_output_function :: "bool \<Rightarrow> bool \<Rightarrow> pbuf \<Rightarrow> link \<Rightarrow> (esp_err \<times> link) option" where
  "tx_output_function handle_ok alloc_ok segments l =
     do { v \<leftarrow> ip_version (hd segments);
          Some (ESP_OK, if v = 4 \<or> v = 6 then snd (tx_linkoutput_function handle_ok alloc_ok segments l)
                        else l) }"

section \<open>Receiving\<close>

definition IP_HLEN :: nat where "IP_HLEN = 20"

text \<open>
  \<open>pbuf_ok\<close> tells whether \<open>pbuf_alloc\<close> finds memory, \<open>rc\<close> is the answer of \<open>esp_netif_receive\<close>. The
  length in the payload is what the sender wrote: a copy beyond the buffer is undefined.
\<close>

definition ring_link_rx_netif_receive ::
  "bool \<Rightarrow> esp_err \<Rightarrow> ring_link_payload \<Rightarrow> link \<Rightarrow> (esp_err \<times> link) option" where
  "ring_link_rx_netif_receive pbuf_ok rc p l =
     (if unat (pl_len p) < IP_HLEN then Some (ESP_OK, l)
      else do {
        v \<leftarrow> ip_version (pl_buffer p);
        if \<not> (v = 4 \<or> v = 6) then Some (ESP_OK, l)
        else
          let iphdr_len = ip_total_len (pl_buffer p)
          in if iphdr_len > unat (pl_len p) then Some (ESP_OK, l)
             else if \<not> pbuf_ok then Some (ESP_FAIL, l)
             else if iphdr_len > length (pl_buffer p) then None
             else let l1 = emit (NetifInput (take iphdr_len (pl_buffer p))) l
                  in Some (rc, if rc \<noteq> ESP_OK then emit (Driver ''pbuf_free'' []) l1 else l1) })"

definition ring_link_netif_handler ::
  "bool \<Rightarrow> esp_err \<Rightarrow> ring_link_payload \<Rightarrow> link \<Rightarrow> (esp_err \<times> link) option" where
  "ring_link_netif_handler pbuf_ok rc p l =
     (if ring_link_payload_is_for_device p l then ring_link_rx_netif_receive pbuf_ok rc p l
      else Some (ESP_OK, l))"

text \<open>The input functions that esp_netif calls; \<open>input_ok\<close> is the answer of \<open>netif->input\<close>.\<close>

definition ring_link_rx_netstack_lwip_input_fn ::
  "bool \<Rightarrow> bool \<Rightarrow> bool \<Rightarrow> bool \<Rightarrow> link \<Rightarrow> esp_err \<times> link" where
  "ring_link_rx_netstack_lwip_input_fn buffer_given netif_is_up l2_buff input_ok l =
     (if \<not> buffer_given \<or> \<not> netif_is_up
      then (ESP_FAIL, if l2_buff then emit (Driver ''esp_netif_free_rx_buffer'' []) l else l)
      else let l1 = emit (Driver ''netif_input'' []) l
           in (if input_ok then ESP_OK else ESP_FAIL, l1))"

definition ring_link_tx_netstack_input_fn :: "link \<Rightarrow> esp_err \<times> link" where
  "ring_link_tx_netstack_input_fn l = (ESP_OK, l)"

section \<open>Properties\<close>

lemma transmit_frame:
  assumes "bus_free l"
  shows "ring_link_lowlevel_transmit_payload p l =
    (ESP_OK, emit (SpiFrame ESP_OK (p\<lparr>pl_crc32 := ring_link_compute_crc32 l p\<rparr>)) (tick (tick l)))"
  using assms by (simp add: ring_link_lowlevel_transmit_payload_def spi_transmit_def bus_free_def Let_def)

lemma tx_output_one_frame:
  assumes "bus_free l" "tx_output_function True True segments l = Some (r, l')" "segments \<noteq> []"
    and "ip_version (hd segments) \<in> {Some 4, Some 6}"
    and "length (concat segments) \<le> ring_link_netif_mtu (env l)"
    and "l1 = l\<lparr>s_id_counter_tx := s_id_counter_tx l + 1\<rparr>"
    and "p = netif_payload (s_id_counter_tx l) (concat segments) l"
  shows "l' = emit (SpiFrame ESP_OK (p\<lparr>pl_crc32 := ring_link_compute_crc32 l p\<rparr>)) (tick (tick l1))"
proof -
  have c: "concat segments = hd segments" if "length segments = 1"
    using that by (cases segments) auto
  have b: "bus_free l1" "ring_link_compute_crc32 l1 p = ring_link_compute_crc32 l p"
    using assms(1) by (simp_all add: assms(6) bus_free_def ring_link_compute_crc32_def)
  have "tx_driver_transmit (Some (concat segments)) l =
      (ESP_OK, emit (SpiFrame ESP_OK (p\<lparr>pl_crc32 := ring_link_compute_crc32 l p\<rparr>)) (tick (tick l1)))"
    using assms(5) transmit_frame [OF b(1), of p] b(2)
    by (simp add: tx_driver_transmit_def assms(6,7) Let_def)
  then show ?thesis
    using assms(2,4) c
    by (auto simp: tx_output_function_def tx_linkoutput_function_def linkoutput_def split: if_splits)
qed

text \<open>
  Property C13 (ring interfaces). A packet of IP version 4 or 6 that lwIP gives to the \<open>tx\<close>
  interface of a board leaves it as one frame. The next board, whose checksum routine is the same,
  finds the checksum right, queues the frame for its network interfaces and gives lwIP the
  first \<open>n\<close> bytes of the packet, where \<open>n\<close> is what the bytes 2 and 3 say, or nothing when the
  packet is shorter than that or than 20 bytes; it does nothing else and forwards nothing. So a
  packet of version 4 arrives whole, while one of version 6, which has its flow label in
  those bytes, is cut or dropped.
\<close>

theorem netif_packet_delivered:
  assumes "bus_free a" "env_crc32 (env b) = env_crc32 (env a)" "env_spi_buffer_size (env a) \<le> 1600"
    and "segments \<noteq> []" "ip_version (hd segments) \<in> {Some 4, Some 6}"
    and "packet = concat segments" "length packet \<le> ring_link_netif_mtu (env a)"
    and "tx_output_function True True segments a = Some (r, a')"
  shows "\<exists>p. sent_frames (new_effects a a') = [p] \<and> payload_queue b p = Some NetifQueue \<and>
    ring_link_netif_handler True ESP_OK p b =
      Some (ESP_OK, if length packet < 20 \<or> length packet < ip_total_len packet then b
                    else emit (NetifInput (take (ip_total_len packet) packet)) b)"
proof -
  define q where "q = netif_payload (s_id_counter_tx a) packet a"
  define p where "p = q\<lparr>pl_crc32 := ring_link_compute_crc32 a q\<rparr>"
  have sent: "sent_frames (new_effects a a') = [p]"
    using tx_output_one_frame [OF assms(1,8,4,5) _ refl refl] assms(6,7)
    by (simp add: new_effects_def p_def q_def)
  have queue: "payload_queue b p = Some NetifQueue"
    using assms(2) by (simp add: payload_queue_def p_def q_def ring_link_compute_crc32_def
        payload_crc_bytes_def netif_payload_def ring_link_payload_is_internal_def
        ring_link_payload_is_esp_netif_def payload_consts)
  have me: "ring_link_payload_is_for_device p b"
    by (simp add: ring_link_payload_is_for_device_def p_def q_def netif_payload_def)
  have buf: "pl_buffer p = packet @ replicate (ring_link_netif_mtu (env a) - length packet) 0"
    by (simp add: p_def q_def netif_payload_def fill_buffer_def)
  have "length packet < 2 ^ 16"
    using assms(3,7) by (simp add: ring_link_netif_mtu_def)
  then have len: "unat (pl_len p) = length packet"
    by (simp add: p_def q_def netif_payload_def unat_of_nat)
  have v: "ip_version (pl_buffer p) \<in> {Some 4, Some 6}"
    using assms(4,5,6) unfolding buf by (cases segments) (auto simp: ip_version_def split: list.splits)
  have tot: "ip_total_len (pl_buffer p) = ip_total_len packet" if "\<not> length packet < 20"
    using that by (simp add: ip_total_len_def buf nth_append)
  have "ring_link_rx_netif_receive True ESP_OK p b =
      Some (ESP_OK, if length packet < 20 \<or> length packet < ip_total_len packet then b
                    else emit (NetifInput (take (ip_total_len packet) packet)) b)"
    using v tot by (auto simp: ring_link_rx_netif_receive_def len IP_HLEN_def Let_def buf)
  then show ?thesis
    using sent queue me by (auto simp: ring_link_netif_handler_def)
qed

definition example_packet :: "byte list" where
  "example_packet = 0x45 # 0 # 0 # 21 # replicate 17 7"

theorem netif_packet_delivered_witness:
  "\<exists>p. sent_frames (new_effects (quiet_board 0)
       (snd (the (tx_output_function True True [take 20 example_packet, [7]] (quiet_board 0))))) = [p] \<and>
     payload_queue (quiet_board 1) p = Some NetifQueue \<and>
     ring_link_netif_handler True ESP_OK p (quiet_board 1) =
       Some (ESP_OK, emit (NetifInput example_packet) (quiet_board 1))"
proof -
  let ?segs = "[take 20 example_packet, [7 :: byte]]"
  have e: "concat ?segs = example_packet" "length example_packet = 21" "ip_total_len example_packet = 21"
    "ip_version (hd ?segs) = Some 4"
    by code_simp+
  obtain r a' where run: "tx_output_function True True ?segs (quiet_board 0) = Some (r, a')"
    using e(4) by (simp add: tx_output_function_def)
  show ?thesis
    using netif_packet_delivered [OF _ _ _ _ _ _ _ run, of "quiet_board 1" example_packet] e run
    by (simp add: quiet_env_def ring_link_netif_mtu_def)
qed

end
