(* ===== verification/Hardware.thy ===== *)
theory Hardware
  imports Ring_Link
begin

text \<open>
  What the program asks of the chip: the pins of the configuration (\<open>config.c\<close>), the two SPI buses
  of the ring (\<open>spi.c\<close>, \<open>spi.h\<close>) and the cores, stacks and priorities of the tasks
  (\<open>task_config.h\<close>). A call of a driver is a value; its answer is an argument, and an answer that
  makes \<open>ESP_ERROR_CHECK\<close> abort gives \<open>None\<close>.
\<close>

section \<open>The configuration pins\<close>

definition CONFIG_PIN_0 :: nat where "CONFIG_PIN_0 = 22"
definition CONFIG_PIN_1 :: nat where "CONFIG_PIN_1 = 21"
definition CONFIG_PIN_2 :: nat where "CONFIG_PIN_2 = 16"

definition CONFIG_PIN_MASK :: u64 where
  "CONFIG_PIN_MASK = push_bit CONFIG_PIN_0 1 OR push_bit CONFIG_PIN_1 1 OR push_bit CONFIG_PIN_2 1"

lemmas config_pins = CONFIG_PIN_0_def CONFIG_PIN_1_def CONFIG_PIN_2_def

record gpio_config_t =
  pin_bit_mask :: u64
  gpio_is_input :: bool
  pull_up_en :: bool
  pull_down_en :: bool
  gpio_interrupt :: bool

datatype gpio_call = GpioConfig gpio_config_t | GpioGetLevel nat | GpioResetPin nat

definition enable_config_pins :: "esp_err \<Rightarrow> gpio_call list option" where
  "enable_config_pins rc =
     (if rc = ESP_OK
      then Some [GpioConfig \<lparr>pin_bit_mask = CONFIG_PIN_MASK, gpio_is_input = True, pull_up_en = True,
                   pull_down_en = False, gpio_interrupt = False\<rparr>]
      else None)"

definition reset_config_pins :: "gpio_call list" where
  "reset_config_pins = [GpioResetPin CONFIG_PIN_0, GpioResetPin CONFIG_PIN_1, GpioResetPin CONFIG_PIN_2]"

text \<open>The calls of one reading of the bits, which \<open>read_config_bits\<close> of \<open>Config\<close> computes; the levels are read once more for the log.\<close>

definition config_pin_calls :: "esp_err \<Rightarrow> gpio_call list option" where
  "config_pin_calls rc =
     do { calls \<leftarrow> enable_config_pins rc;
          let levels = map GpioGetLevel [CONFIG_PIN_0, CONFIG_PIN_1, CONFIG_PIN_2];
          Some (calls @ levels @ levels @ reset_config_pins) }"

section \<open>The SPI buses\<close>

definition SPI_QUEUE_SIZE :: nat where "SPI_QUEUE_SIZE = 40"
definition SPI_SENDER_GPIO_MOSI :: int where "SPI_SENDER_GPIO_MOSI = 23"
definition SPI_SENDER_GPIO_SCLK :: int where "SPI_SENDER_GPIO_SCLK = 18"
definition SPI_SENDER_GPIO_CS :: int where "SPI_SENDER_GPIO_CS = 5"
definition SPI_RECEIVER_GPIO_MOSI :: int where "SPI_RECEIVER_GPIO_MOSI = 13"
definition SPI_RECEIVER_GPIO_SCLK :: int where "SPI_RECEIVER_GPIO_SCLK = 14"
definition SPI_RECEIVER_GPIO_CS :: int where "SPI_RECEIVER_GPIO_CS = 15"

lemmas spi_pins = SPI_SENDER_GPIO_MOSI_def SPI_SENDER_GPIO_SCLK_def SPI_SENDER_GPIO_CS_def
  SPI_RECEIVER_GPIO_MOSI_def SPI_RECEIVER_GPIO_SCLK_def SPI_RECEIVER_GPIO_CS_def

datatype spi_host = HSPI_HOST | VSPI_HOST

definition SPI_SENDER_HOST :: spi_host where "SPI_SENDER_HOST = VSPI_HOST"
definition SPI_RECEIVER_HOST :: spi_host where "SPI_RECEIVER_HOST = HSPI_HOST"

record spi_bus_config =
  mosi_io_num :: int
  miso_io_num :: int
  sclk_io_num :: int
  quadwp_io_num :: int
  quadhd_io_num :: int

record spi_slave_config =
  sl_mode :: nat
  sl_spics_io_num :: int
  sl_queue_size :: nat
  sl_flags :: nat
  has_post_trans_cb :: bool  \<comment> \<open>\<open>spi_post_trans_cb\<close>\<close>

record spi_device_config =
  command_bits :: nat
  address_bits :: nat
  dummy_bits :: nat
  clock_speed_hz :: nat
  duty_cycle_pos :: nat
  dv_mode :: nat
  dv_spics_io_num :: int
  cs_ena_pretrans :: nat
  cs_ena_posttrans :: nat
  dv_queue_size :: nat

datatype spi_call =
  SpiSlaveInitialize spi_host spi_bus_config spi_slave_config
| SpiBusInitialize spi_host spi_bus_config
| SpiBusAddDevice spi_host spi_device_config

text \<open>\<open>spi_slave_initialize\<close> gets a DMA channel of its own choice, and so does the sender.\<close>

definition spi_rx_init :: "(spi_call \<Rightarrow> esp_err) \<Rightarrow> esp_err option" where
  "spi_rx_init answer =
     (let buscfg = \<lparr>mosi_io_num = SPI_RECEIVER_GPIO_MOSI, miso_io_num = - 1,
            sclk_io_num = SPI_RECEIVER_GPIO_SCLK, quadwp_io_num = - 1, quadhd_io_num = - 1\<rparr>;
          slvcfg = \<lparr>sl_mode = 0, sl_spics_io_num = SPI_RECEIVER_GPIO_CS, sl_queue_size = SPI_QUEUE_SIZE,
            sl_flags = 0, has_post_trans_cb = True\<rparr>
      in if answer (SpiSlaveInitialize SPI_RECEIVER_HOST buscfg slvcfg) \<noteq> ESP_OK then None else Some ESP_OK)"

text \<open>\<open>SPI_FREQ\<close> is the frequency that the build is configured for.\<close>

definition spi_tx_init :: "nat \<Rightarrow> (spi_call \<Rightarrow> esp_err) \<Rightarrow> esp_err option" where
  "spi_tx_init SPI_FREQ answer =
     (let buscfg = \<lparr>mosi_io_num = SPI_SENDER_GPIO_MOSI, miso_io_num = - 1,
            sclk_io_num = SPI_SENDER_GPIO_SCLK, quadwp_io_num = - 1, quadhd_io_num = - 1\<rparr>;
          devcfg = \<lparr>command_bits = 0, address_bits = 0, dummy_bits = 0, clock_speed_hz = SPI_FREQ,
            duty_cycle_pos = 128, dv_mode = 0, dv_spics_io_num = SPI_SENDER_GPIO_CS, cs_ena_pretrans = 3,
            cs_ena_posttrans = 10, dv_queue_size = SPI_QUEUE_SIZE\<rparr>
      in if answer (SpiBusInitialize SPI_SENDER_HOST buscfg) \<noteq> ESP_OK then None
         else if answer (SpiBusAddDevice SPI_SENDER_HOST devcfg) \<noteq> ESP_OK then None else Some ESP_OK)"

text \<open>No pin has two uses, the two directions of the ring have their own buses, and the mask names the pins.\<close>

lemma pins_distinct:
  "distinct (map int [CONFIG_PIN_0, CONFIG_PIN_1, CONFIG_PIN_2] @
     [SPI_SENDER_GPIO_MOSI, SPI_SENDER_GPIO_SCLK, SPI_SENDER_GPIO_CS,
      SPI_RECEIVER_GPIO_MOSI, SPI_RECEIVER_GPIO_SCLK, SPI_RECEIVER_GPIO_CS])"
  "SPI_SENDER_HOST \<noteq> SPI_RECEIVER_HOST"
  by (simp_all add: config_pins spi_pins SPI_SENDER_HOST_def SPI_RECEIVER_HOST_def)

lemma config_mask_names_pins: "n < 64 \<Longrightarrow> bit CONFIG_PIN_MASK n \<longleftrightarrow> n \<in> {CONFIG_PIN_0, CONFIG_PIN_1, CONFIG_PIN_2}"
  by (auto simp: CONFIG_PIN_MASK_def bit_simps)

section \<open>The tasks\<close>

datatype task_name = TASK_SPI | TASK_RING_LINK | TASK_RING_LINK_NETIF | TASK_RING_LINK_INTERNAL
  | TASK_HTTP_CLIENT | TASK_IM_SCHEDULER | TASK_REMOTE_CONTROL | TASK_CALLBACK | TASK_CLIENT | TASK_SERVER
  | TASK_DEVICE | TASK_ROUTING

text \<open>Priorities above that of the idle task, 0 in FreeRTOS.\<close>

definition LOW_PRIORITY :: nat where "LOW_PRIORITY = 2"
definition MID_PRIORITY :: nat where "MID_PRIORITY = 4"
definition HIGH_PRIORITY :: nat where "HIGH_PRIORITY = 10"

record task_params =
  task_core :: nat
  task_stack :: nat
  task_priority :: nat

primrec task_config :: "task_name \<Rightarrow> task_params" where
  "task_config TASK_SPI = \<lparr>task_core = 1, task_stack = 4096, task_priority = HIGH_PRIORITY\<rparr>"
| "task_config TASK_RING_LINK = \<lparr>task_core = 1, task_stack = 4096, task_priority = MID_PRIORITY\<rparr>"
| "task_config TASK_RING_LINK_NETIF = \<lparr>task_core = 1, task_stack = 4096, task_priority = MID_PRIORITY\<rparr>"
| "task_config TASK_RING_LINK_INTERNAL = \<lparr>task_core = 1, task_stack = 4096, task_priority = LOW_PRIORITY\<rparr>"
| "task_config TASK_HTTP_CLIENT = \<lparr>task_core = 1, task_stack = 8192, task_priority = LOW_PRIORITY\<rparr>"
| "task_config TASK_IM_SCHEDULER = \<lparr>task_core = 1, task_stack = 4096, task_priority = LOW_PRIORITY\<rparr>"
| "task_config TASK_REMOTE_CONTROL = \<lparr>task_core = 1, task_stack = 4096, task_priority = LOW_PRIORITY\<rparr>"
| "task_config TASK_CALLBACK = \<lparr>task_core = 0, task_stack = 4096, task_priority = LOW_PRIORITY\<rparr>"
| "task_config TASK_CLIENT = \<lparr>task_core = 0, task_stack = 4096, task_priority = LOW_PRIORITY\<rparr>"
| "task_config TASK_SERVER = \<lparr>task_core = 0, task_stack = 4096, task_priority = LOW_PRIORITY\<rparr>"
| "task_config TASK_DEVICE = \<lparr>task_core = 0, task_stack = 4096, task_priority = LOW_PRIORITY\<rparr>"
| "task_config TASK_ROUTING = \<lparr>task_core = 0, task_stack = 4096, task_priority = LOW_PRIORITY\<rparr>"

text \<open>
  The scheduler of a core runs a ready task of the highest priority. A received frame goes from
  \<open>TASK_SPI\<close> to \<open>TASK_RING_LINK\<close> and on to one of two tasks: all are on one core, and no task on the
  way has a higher priority than the one before it, so a buffer that is read makes way for the next.
\<close>

lemma receive_path_priorities:
  "task_core (task_config t) = 1 \<and> task_priority (task_config t) \<le> task_priority (task_config TASK_RING_LINK) \<and>
   task_priority (task_config TASK_RING_LINK) < task_priority (task_config TASK_SPI)"
  if "t \<in> {TASK_RING_LINK, TASK_RING_LINK_NETIF, TASK_RING_LINK_INTERNAL}"
  using that by (auto simp: LOW_PRIORITY_def MID_PRIORITY_def HIGH_PRIORITY_def)

end
