(* ===== verification/Spi_Pool.thy ===== *)
theory Spi_Pool
  imports Ring_Netif Rtos_Queue Hardware
begin

text \<open>
  The way of a received payload through a board: the pool of 8 buffers of \<open>spi.c\<close>, the queues of
  pointers between the polling task, the interrupt, the task of \<open>ring_link.c\<close> and the tasks of
  \<open>ring_link_internal.c\<close> and \<open>ring_link_netif.c\<close>. A pointer to a buffer is its number; a task keeps the
  pointer it works on in its variable \<open>payload\<close>. The tasks run one at a time in any order, each
  step from one call that blocks to the next, so the system is a step relation. A step that works
  on a buffer stands for the end of that work and may come at any time after the buffer was taken:
  how long the internal task waits in \<open>node_on_sibling_message\<close> for room in the queue of
  the siblings is left open here, and is the subject of \<open>Sibling_Queue\<close>.

  The driver calls \<open>spi_post_trans_cb\<close> at the end of a transaction, and not for one that
  \<open>spi_slave_transmit\<close> reports as failed. A buffer that is being freed is not read again, so
  what the forwarding writes into it is left out.
\<close>

section \<open>State\<close>

definition NUM_BUFFERS :: nat where "NUM_BUFFERS = 8"
definition RING_LINK_INTERNAL_QUEUE_SIZE :: nat where "RING_LINK_INTERNAL_QUEUE_SIZE = 10"
definition RING_LINK_NETIF_QUEUE_SIZE :: nat where "RING_LINK_NETIF_QUEUE_SIZE = 40"

lemmas pool_consts = NUM_BUFFERS_def RING_LINK_INTERNAL_QUEUE_SIZE_def RING_LINK_NETIF_QUEUE_SIZE_def

record rx_pool =
  buffer_pool :: "ring_link_payload list"
  free_buf_queue :: "nat list"
  spi_rx_queue :: "nat list"
  ring_link_internal_queue :: "nat list"
  ring_link_netif_queue :: "nat list"
  polling_payload :: "nat option"
  ring_link_payload_var :: "nat option"
  internal_payload :: "nat option"
  netif_payload_var :: "nat option"

definition zero_payload :: "environment \<Rightarrow> ring_link_payload" where
  "zero_payload e = \<lparr>pl_id = 0, pl_type = 0, pl_len = 0, pl_ttl = 0, pl_src = 0, pl_dst = 0,
     pl_buffer = replicate (ring_link_netif_mtu e) 0, pl_pad = env_padding e, pl_crc32 = 0\<rparr>"

section \<open>Operations\<close>

text \<open>A send whose result is not looked at.\<close>

definition try_send :: "nat \<Rightarrow> 'a \<Rightarrow> 'a list \<Rightarrow> 'a list" where
  "try_send n x q = (case q_send n x q of None \<Rightarrow> q | Some q' \<Rightarrow> q')"

definition pool_start :: "environment \<Rightarrow> rx_pool" where
  "pool_start e = \<lparr>buffer_pool = replicate NUM_BUFFERS (zero_payload e),
     free_buf_queue = fold (try_send NUM_BUFFERS) [0..<NUM_BUFFERS] [], spi_rx_queue = [],
     ring_link_internal_queue = [], ring_link_netif_queue = [], polling_payload = None,
     ring_link_payload_var = None, internal_payload = None, netif_payload_var = None\<rparr>"

text \<open>
  Starting the layers. The answers are those of FreeRTOS and of the drivers; an abort by
  \<open>ESP_ERROR_CHECK\<close> is \<open>None\<close>. The mutex of the sending side is not checked.
\<close>

record ring_answers =
  spi_freq :: nat  \<comment> \<open>\<open>SPI_FREQ\<close>, chosen at build time\<close>
  spi_answer :: "spi_call \<Rightarrow> esp_err"
  spi_queues_ok :: bool
  bcast_mutex_ok :: bool
  internal_queue_ok :: bool
  internal_task_ok :: bool
  netif_new_ok :: bool
  netif_calloc_ok :: bool
  netif_mac_rc :: esp_err
  netif_queue_ok :: bool
  netif_task_ok :: bool
  ring_task_ok :: bool

definition spi_init :: "ring_answers \<Rightarrow> environment \<Rightarrow> (esp_err \<times> rx_pool) option" where
  "spi_init a e =
     do { _ \<leftarrow> spi_rx_init (spi_answer a);
          _ \<leftarrow> spi_tx_init (spi_freq a) (spi_answer a);
          Some (if spi_queues_ok a then ESP_OK else ESP_FAIL, pool_start e) }"

definition ring_link_lowlevel_init :: "ring_answers \<Rightarrow> environment \<Rightarrow> (esp_err \<times> rx_pool) option" where
  "ring_link_lowlevel_init a e =
     do { (rc, s) \<leftarrow> spi_init a e; if rc \<noteq> ESP_OK then None else Some (ESP_OK, s) }"

definition broadcast_init :: "ring_answers \<Rightarrow> esp_err" where
  "broadcast_init a = (if bcast_mutex_ok a then ESP_OK else ESP_FAIL)"

definition ring_link_internal_init :: "ring_answers \<Rightarrow> esp_err option" where
  "ring_link_internal_init a =
     (if broadcast_init a \<noteq> ESP_OK then None
      else Some (if \<not> internal_queue_ok a then ESP_FAIL
                 else if \<not> internal_task_ok a then ESP_FAIL else ESP_OK))"

definition ring_link_init ::
  "ring_answers \<Rightarrow> netifs \<Rightarrow> link \<Rightarrow> (esp_err \<times> rx_pool \<times> netifs \<times> link) option" where
  "ring_link_init a ns l =
     do { (rc1, s) \<leftarrow> ring_link_lowlevel_init a (env l);
          if rc1 \<noteq> ESP_OK then None
          else do { rc2 \<leftarrow> ring_link_internal_init a;
                    if rc2 \<noteq> ESP_OK then None
                    else do { (rc3, ns1, l1) \<leftarrow> ring_link_netif_init (netif_new_ok a) (netif_calloc_ok a)
                                (netif_mac_rc a) (netif_queue_ok a) (netif_task_ok a) ns l;
                              if rc3 \<noteq> ESP_OK then None
                              else Some (if ring_task_ok a then ESP_OK else ESP_FAIL, s, ns1, l1) } } }"

definition spi_free_rx_buffer :: "nat \<Rightarrow> rx_pool \<Rightarrow> rx_pool" where
  "spi_free_rx_buffer b s = s\<lparr>free_buf_queue := try_send NUM_BUFFERS b (free_buf_queue s)\<rparr>"

definition ring_link_lowlevel_free_rx_buffer :: "nat \<Rightarrow> rx_pool \<Rightarrow> rx_pool" where
  "ring_link_lowlevel_free_rx_buffer b s = spi_free_rx_buffer b s"

definition spi_post_trans_cb :: "nat \<Rightarrow> rx_pool \<Rightarrow> rx_pool" where
  "spi_post_trans_cb b s =
     (case q_send NUM_BUFFERS b (spi_rx_queue s) of
        Some q \<Rightarrow> s\<lparr>spi_rx_queue := q\<rparr>
      | None \<Rightarrow> spi_free_rx_buffer b s)"

text \<open>The polling task: it takes a free buffer, and the transaction fills it or fails.\<close>

definition spi_polling_take :: "rx_pool \<Rightarrow> rx_pool option" where
  "spi_polling_take s =
     (if polling_payload s \<noteq> None then None
      else do { (b, q) \<leftarrow> q_receive (free_buf_queue s);
                Some (s\<lparr>free_buf_queue := q, polling_payload := Some b\<rparr>) })"

definition spi_polling_received :: "ring_link_payload \<Rightarrow> rx_pool \<Rightarrow> rx_pool option" where
  "spi_polling_received p s =
     do { b \<leftarrow> polling_payload s;
          pool \<leftarrow> aset (buffer_pool s) b p;
          Some (spi_post_trans_cb b (s\<lparr>buffer_pool := pool, polling_payload := None\<rparr>)) }"

definition spi_polling_failed :: "rx_pool \<Rightarrow> rx_pool option" where
  "spi_polling_failed s =
     do { b \<leftarrow> polling_payload s; Some (spi_free_rx_buffer b (s\<lparr>polling_payload := None\<rparr>)) }"

definition process_payload :: "nat \<Rightarrow> link \<Rightarrow> rx_pool \<Rightarrow> esp_err \<times> rx_pool" where
  "process_payload b l s =
     (case payload_queue l (buffer_pool s ! b) of
        None \<Rightarrow> (ESP_FAIL, ring_link_lowlevel_free_rx_buffer b s)
      | Some InternalQueue \<Rightarrow>
          (case q_send RING_LINK_INTERNAL_QUEUE_SIZE b (ring_link_internal_queue s) of
             Some q \<Rightarrow> (ESP_OK, s\<lparr>ring_link_internal_queue := q\<rparr>)
           | None \<Rightarrow> (ESP_FAIL, ring_link_lowlevel_free_rx_buffer b s))
      | Some NetifQueue \<Rightarrow>
          (case q_send RING_LINK_NETIF_QUEUE_SIZE b (ring_link_netif_queue s) of
             Some q \<Rightarrow> (ESP_OK, s\<lparr>ring_link_netif_queue := q\<rparr>)
           | None \<Rightarrow> (ESP_FAIL, ring_link_lowlevel_free_rx_buffer b s)))"

text \<open>The three tasks: each takes a pointer from its queue, works on it, and waits again.\<close>

definition ring_link_process_take :: "rx_pool \<Rightarrow> rx_pool option" where
  "ring_link_process_take s =
     (if ring_link_payload_var s \<noteq> None then None
      else do { (b, q) \<leftarrow> q_receive (spi_rx_queue s);
                Some (s\<lparr>spi_rx_queue := q, ring_link_payload_var := Some b\<rparr>) })"

definition ring_link_process_work :: "link \<Rightarrow> rx_pool \<Rightarrow> rx_pool option" where
  "ring_link_process_work l s =
     do { b \<leftarrow> ring_link_payload_var s;
          Some (snd (process_payload b l (s\<lparr>ring_link_payload_var := None\<rparr>))) }"

definition internal_process_take :: "rx_pool \<Rightarrow> rx_pool option" where
  "internal_process_take s =
     (if internal_payload s \<noteq> None then None
      else do { (b, q) \<leftarrow> q_receive (ring_link_internal_queue s);
                Some (s\<lparr>ring_link_internal_queue := q, internal_payload := Some b\<rparr>) })"

definition internal_process_work :: "link \<Rightarrow> rx_pool \<Rightarrow> (rx_pool \<times> link) option" where
  "internal_process_work l s =
     do { b \<leftarrow> internal_payload s;
          let (rc, l1) = ring_link_internal_handler (buffer_pool s ! b) l;
          Some (ring_link_lowlevel_free_rx_buffer b (s\<lparr>internal_payload := None\<rparr>), l1) }"

definition netif_process_take :: "rx_pool \<Rightarrow> rx_pool option" where
  "netif_process_take s =
     (if netif_payload_var s \<noteq> None then None
      else do { (b, q) \<leftarrow> q_receive (ring_link_netif_queue s);
                Some (s\<lparr>ring_link_netif_queue := q, netif_payload_var := Some b\<rparr>) })"

definition netif_process_work :: "bool \<Rightarrow> esp_err \<Rightarrow> link \<Rightarrow> rx_pool \<Rightarrow> (rx_pool \<times> link) option" where
  "netif_process_work pbuf_ok rc l s =
     do { b \<leftarrow> netif_payload_var s;
          (r, l1) \<leftarrow> ring_link_netif_handler pbuf_ok rc (buffer_pool s ! b) l;
          Some (ring_link_lowlevel_free_rx_buffer b (s\<lparr>netif_payload_var := None\<rparr>), l1) }"

section \<open>The system\<close>

text \<open>Sending steps of the board change its link in between, as \<open>link_moves\<close>.\<close>

inductive pool_step :: "rx_pool \<times> link \<Rightarrow> rx_pool \<times> link \<Rightarrow> bool" where
  polling_take: "spi_polling_take s = Some s' \<Longrightarrow> pool_step (s, l) (s', l)"
| polling_received: "spi_polling_received p s = Some s' \<Longrightarrow> pool_step (s, l) (s', l)"
| polling_failed: "spi_polling_failed s = Some s' \<Longrightarrow> pool_step (s, l) (s', l)"
| process_take: "ring_link_process_take s = Some s' \<Longrightarrow> pool_step (s, l) (s', l)"
| process_work: "ring_link_process_work l s = Some s' \<Longrightarrow> pool_step (s, l) (s', l)"
| internal_take: "internal_process_take s = Some s' \<Longrightarrow> pool_step (s, l) (s', l)"
| internal_work: "internal_process_work l s = Some (s', l') \<Longrightarrow> pool_step (s, l) (s', l')"
| netif_take: "netif_process_take s = Some s' \<Longrightarrow> pool_step (s, l) (s', l)"
| netif_work: "netif_process_work ok rc l s = Some (s', l') \<Longrightarrow> pool_step (s, l) (s', l')"
| link_moves: "env l' = env l \<Longrightarrow> s_config l' = s_config l \<Longrightarrow> pool_step (s, l) (s, l')"

inductive pool_reachable :: "environment \<Rightarrow> rx_pool \<times> link \<Rightarrow> bool" for e where
  start: "env l = e \<Longrightarrow> pool_reachable e (pool_start e, l)"
| step: "pool_reachable e x \<Longrightarrow> pool_step x y \<Longrightarrow> pool_reachable e y"

lemmas pool_ops = spi_polling_take_def spi_polling_received_def spi_polling_failed_def
  ring_link_process_take_def ring_link_process_work_def internal_process_take_def
  internal_process_work_def netif_process_take_def netif_process_work_def process_payload_def
  spi_post_trans_cb_def ring_link_lowlevel_free_rx_buffer_def spi_free_rx_buffer_def

section \<open>Every buffer is in one place\<close>

definition var_list :: "'a option \<Rightarrow> 'a list" where
  "var_list x = (case x of None \<Rightarrow> [] | Some b \<Rightarrow> [b])"

definition holders_of_buffers :: "rx_pool \<Rightarrow> nat list" where
  "holders_of_buffers s = free_buf_queue s @ spi_rx_queue s @ ring_link_internal_queue s @
     ring_link_netif_queue s @ var_list (polling_payload s) @ var_list (ring_link_payload_var s) @
     var_list (internal_payload s) @ var_list (netif_payload_var s)"

definition pool_inv :: "rx_pool \<Rightarrow> bool" where
  "pool_inv s \<longleftrightarrow> length (buffer_pool s) = NUM_BUFFERS \<and>
     mset (holders_of_buffers s) = mset [0..<NUM_BUFFERS]"

lemma var_list_simps [simp]: "var_list None = []" "var_list (Some b) = [b]"
  by (simp_all add: var_list_def)

lemma try_send_room [simp]: "length q < n \<Longrightarrow> try_send n x q = q @ [x]"
  by (simp add: try_send_def)

lemma pool_inv_count: "pool_inv s \<Longrightarrow> length (holders_of_buffers s) = 8"
  by (metis diff_zero length_upt pool_inv_def size_mset NUM_BUFFERS_def)

lemma pool_inv_distinct: "pool_inv s \<Longrightarrow> distinct (holders_of_buffers s) \<and> set (holders_of_buffers s) = {..<8}"
  unfolding pool_inv_def NUM_BUFFERS_def
  by (metis atLeast_upt distinct_upt mset_eq_imp_distinct_iff mset_eq_setD)

lemma pool_inv_init: "pool_inv (pool_start e)"
  by (simp add: pool_inv_def pool_start_def holders_of_buffers_def pool_consts upt_rec eval_nat_numeral)

text \<open>While a task holds a buffer, no queue is full.\<close>

lemma pool_room:
  assumes "pool_inv s" "var_list (polling_payload s) @ var_list (ring_link_payload_var s) @
     var_list (internal_payload s) @ var_list (netif_payload_var s) \<noteq> []"
  shows "length (free_buf_queue s) < 8" "length (spi_rx_queue s) < 8"
    "length (ring_link_internal_queue s) < 10" "length (ring_link_netif_queue s) < 40"
proof -
  have "length (free_buf_queue s) + length (spi_rx_queue s) + length (ring_link_internal_queue s) +
      length (ring_link_netif_queue s) + length (var_list (polling_payload s) @ var_list (ring_link_payload_var s) @
     var_list (internal_payload s) @ var_list (netif_payload_var s)) = 8"
    using pool_inv_count [OF assms(1)] by (simp add: holders_of_buffers_def)
  moreover have "length (var_list (polling_payload s) @ var_list (ring_link_payload_var s) @
     var_list (internal_payload s) @ var_list (netif_payload_var s)) > 0"
    using assms(2) by blast
  ultimately show "length (free_buf_queue s) < 8" "length (spi_rx_queue s) < 8"
    "length (ring_link_internal_queue s) < 10" "length (ring_link_netif_queue s) < 40"
    by linarith+
qed

lemma holder_index:
  assumes "pool_inv s" "b \<in> set (holders_of_buffers s)"
  shows "b < length (buffer_pool s)"
  using pool_inv_distinct [OF assms(1)] assms by (auto simp: pool_inv_def NUM_BUFFERS_def)

text \<open>What the steps do on a pool that keeps the invariant: no send fails.\<close>

lemma polling_received_ok:
  assumes "pool_inv s" "polling_payload s = Some b"
  shows "spi_polling_received p s = Some (s\<lparr>buffer_pool := (buffer_pool s)[b := p],
    polling_payload := None, spi_rx_queue := spi_rx_queue s @ [b]\<rparr>)"
  using pool_room [OF assms(1)] holder_index [OF assms(1), of b] assms(2)
  by (simp add: pool_ops pool_consts holders_of_buffers_def)

lemma polling_failed_ok:
  assumes "pool_inv s" "polling_payload s = Some b"
  shows "spi_polling_failed s =
    Some (s\<lparr>polling_payload := None, free_buf_queue := free_buf_queue s @ [b]\<rparr>)"
  using pool_room [OF assms(1)] assms(2) by (simp add: pool_ops pool_consts)

lemma process_work_ok:
  assumes "pool_inv s" "ring_link_payload_var s = Some b"
  shows "ring_link_process_work l s = Some (
    case payload_queue l (buffer_pool s ! b) of
      None \<Rightarrow> s\<lparr>ring_link_payload_var := None, free_buf_queue := free_buf_queue s @ [b]\<rparr>
    | Some InternalQueue \<Rightarrow> s\<lparr>ring_link_payload_var := None,
        ring_link_internal_queue := ring_link_internal_queue s @ [b]\<rparr>
    | Some NetifQueue \<Rightarrow> s\<lparr>ring_link_payload_var := None,
        ring_link_netif_queue := ring_link_netif_queue s @ [b]\<rparr>)"
  using pool_room [OF assms(1)] assms(2)
  by (auto simp: pool_ops pool_consts split: option.splits rx_queue.splits)

lemma internal_work_ok:
  assumes "pool_inv s" "internal_payload s = Some b"
  shows "internal_process_work l s = Some (
    s\<lparr>internal_payload := None, free_buf_queue := free_buf_queue s @ [b]\<rparr>,
    snd (ring_link_internal_handler (buffer_pool s ! b) l))"
  using pool_room [OF assms(1)] assms(2) by (simp add: pool_ops pool_consts split: prod.splits)

lemma netif_work_ok:
  assumes "pool_inv s" "netif_payload_var s = Some b"
  shows "netif_process_work ok rc l s = map_option (\<lambda>(r, l1).
    (s\<lparr>netif_payload_var := None, free_buf_queue := free_buf_queue s @ [b]\<rparr>, l1))
    (ring_link_netif_handler ok rc (buffer_pool s ! b) l)"
  using pool_room [OF assms(1)] assms(2)
  by (cases "ring_link_netif_handler ok rc (buffer_pool s ! b) l") (auto simp: pool_ops pool_consts)

lemma netif_work_SomeD:
  assumes "pool_inv s" "netif_payload_var s = Some b" "netif_process_work ok rc l s = Some (s', l')"
  shows "s' = s\<lparr>netif_payload_var := None, free_buf_queue := free_buf_queue s @ [b]\<rparr> \<and>
    (\<exists>r. ring_link_netif_handler ok rc (buffer_pool s ! b) l = Some (r, l'))"
  using netif_work_ok [OF assms(1,2), of ok rc l] assms(3)
  by (cases "ring_link_netif_handler ok rc (buffer_pool s ! b) l") auto

lemma take_steps:
  "spi_polling_take s = Some s' \<longleftrightarrow> polling_payload s = None \<and> (\<exists>b q. free_buf_queue s = b # q \<and>
     s' = s\<lparr>free_buf_queue := q, polling_payload := Some b\<rparr>)"
  "ring_link_process_take s = Some s' \<longleftrightarrow> ring_link_payload_var s = None \<and> (\<exists>b q. spi_rx_queue s = b # q \<and>
     s' = s\<lparr>spi_rx_queue := q, ring_link_payload_var := Some b\<rparr>)"
  "internal_process_take s = Some s' \<longleftrightarrow> internal_payload s = None \<and>
     (\<exists>b q. ring_link_internal_queue s = b # q \<and>
       s' = s\<lparr>ring_link_internal_queue := q, internal_payload := Some b\<rparr>)"
  "netif_process_take s = Some s' \<longleftrightarrow> netif_payload_var s = None \<and>
     (\<exists>b q. ring_link_netif_queue s = b # q \<and>
       s' = s\<lparr>ring_link_netif_queue := q, netif_payload_var := Some b\<rparr>)"
  by (cases "free_buf_queue s"; cases "spi_rx_queue s"; cases "ring_link_internal_queue s";
      cases "ring_link_netif_queue s"; auto simp: pool_ops)+

lemma work_steps_need:
  "spi_polling_received p s = Some s' \<Longrightarrow> \<exists>b. polling_payload s = Some b"
  "spi_polling_failed s = Some s' \<Longrightarrow> \<exists>b. polling_payload s = Some b"
  "ring_link_process_work l s = Some s' \<Longrightarrow> \<exists>b. ring_link_payload_var s = Some b"
  "internal_process_work l s = Some x \<Longrightarrow> \<exists>b. internal_payload s = Some b"
  "netif_process_work ok rc l s = Some x \<Longrightarrow> \<exists>b. netif_payload_var s = Some b"
  by (auto simp: pool_ops split: bind_splits)

section \<open>Queues of payloads\<close>

text \<open>
  What the pool promises, without pointers: payloads that wait in three queues without bound, and
  the one that each task holds. A payload that came in is classified and handled in its turn,
  with its contents as they were received.
\<close>

record rx_spec =
  sp_rx :: "ring_link_payload list"
  sp_internal :: "ring_link_payload list"
  sp_netif :: "ring_link_payload list"
  sp_classifying :: "ring_link_payload option"
  sp_handling :: "ring_link_payload option"
  sp_netif_handling :: "ring_link_payload option"

inductive spec_rx_step :: "rx_spec \<times> link \<Rightarrow> rx_spec \<times> link \<Rightarrow> bool" where
  unseen: "spec_rx_step (t, l) (t, l)"
| arrives: "spec_rx_step (t, l) (t\<lparr>sp_rx := sp_rx t @ [p]\<rparr>, l)"
| take_rx: "sp_rx t = p # ps \<Longrightarrow> sp_classifying t = None \<Longrightarrow>
    spec_rx_step (t, l) (t\<lparr>sp_rx := ps, sp_classifying := Some p\<rparr>, l)"
| discard: "sp_classifying t = Some p \<Longrightarrow> payload_queue l p = None \<Longrightarrow>
    spec_rx_step (t, l) (t\<lparr>sp_classifying := None\<rparr>, l)"
| to_internal: "sp_classifying t = Some p \<Longrightarrow> payload_queue l p = Some InternalQueue \<Longrightarrow>
    spec_rx_step (t, l) (t\<lparr>sp_classifying := None, sp_internal := sp_internal t @ [p]\<rparr>, l)"
| to_netif: "sp_classifying t = Some p \<Longrightarrow> payload_queue l p = Some NetifQueue \<Longrightarrow>
    spec_rx_step (t, l) (t\<lparr>sp_classifying := None, sp_netif := sp_netif t @ [p]\<rparr>, l)"
| take_internal: "sp_internal t = p # ps \<Longrightarrow> sp_handling t = None \<Longrightarrow>
    spec_rx_step (t, l) (t\<lparr>sp_internal := ps, sp_handling := Some p\<rparr>, l)"
| handle: "sp_handling t = Some p \<Longrightarrow>
    spec_rx_step (t, l) (t\<lparr>sp_handling := None\<rparr>, snd (ring_link_internal_handler p l))"
| take_netif: "sp_netif t = p # ps \<Longrightarrow> sp_netif_handling t = None \<Longrightarrow>
    spec_rx_step (t, l) (t\<lparr>sp_netif := ps, sp_netif_handling := Some p\<rparr>, l)"
| handle_netif: "sp_netif_handling t = Some p \<Longrightarrow>
    ring_link_netif_handler ok rc p l = Some (r, l') \<Longrightarrow>
    spec_rx_step (t, l) (t\<lparr>sp_netif_handling := None\<rparr>, l')"
| board_moves: "env l' = env l \<Longrightarrow> s_config l' = s_config l \<Longrightarrow> spec_rx_step (t, l) (t, l')"

definition rx_abs :: "rx_pool \<Rightarrow> rx_spec" where
  "rx_abs s = \<lparr>sp_rx = map ((!) (buffer_pool s)) (spi_rx_queue s),
     sp_internal = map ((!) (buffer_pool s)) (ring_link_internal_queue s),
     sp_netif = map ((!) (buffer_pool s)) (ring_link_netif_queue s),
     sp_classifying = map_option ((!) (buffer_pool s)) (ring_link_payload_var s),
     sp_handling = map_option ((!) (buffer_pool s)) (internal_payload s),
     sp_netif_handling = map_option ((!) (buffer_pool s)) (netif_payload_var s)\<rparr>"

text \<open>The buffer that the driver writes is not one that another task or queue holds.\<close>

lemma write_polling_buffer:
  assumes "pool_inv s" "polling_payload s = Some b"
  shows "rx_abs (s\<lparr>buffer_pool := (buffer_pool s)[b := p], polling_payload := None,
      spi_rx_queue := spi_rx_queue s @ [b]\<rparr>) = (rx_abs s)\<lparr>sp_rx := sp_rx (rx_abs s) @ [p]\<rparr>"
proof -
  have d: "distinct (holders_of_buffers s)"
    using pool_inv_distinct [OF assms(1)] by blast
  have "b \<in> set (holders_of_buffers s)" by (simp add: holders_of_buffers_def assms(2))
  then have b: "b < length (buffer_pool s)" by (rule holder_index [OF assms(1)])
  have n: "b \<notin> set (spi_rx_queue s)" "b \<notin> set (ring_link_internal_queue s)"
    "b \<notin> set (ring_link_netif_queue s)" "ring_link_payload_var s \<noteq> Some b"
    "internal_payload s \<noteq> Some b" "netif_payload_var s \<noteq> Some b"
    using d by (auto simp: holders_of_buffers_def assms(2))
  have q: "map ((!) ((buffer_pool s)[b := p])) q = map ((!) (buffer_pool s)) q" if "b \<notin> set q" for q
    using that by (induction q) auto
  have v: "map_option ((!) ((buffer_pool s)[b := p])) v = map_option ((!) (buffer_pool s)) v" if "v \<noteq> Some b" for v
    using that by (cases v) auto
  show ?thesis
    using b by (simp add: rx_abs_def q [OF n(1)] q [OF n(2)] q [OF n(3)] v [OF n(4)] v [OF n(5)] v [OF n(6)])
qed

text \<open>A task that takes a buffer off its queue takes the first payload of the queue of payloads.\<close>

lemma take_simulates:
  "ring_link_process_take s = Some s' \<Longrightarrow> spec_rx_step (rx_abs s, l) (rx_abs s', l)"
  "internal_process_take s = Some s' \<Longrightarrow> spec_rx_step (rx_abs s, l) (rx_abs s', l)"
  "netif_process_take s = Some s' \<Longrightarrow> spec_rx_step (rx_abs s, l) (rx_abs s', l)"
proof -
  assume "ring_link_process_take s = Some s'"
  then obtain b q where "spi_rx_queue s = b # q" "ring_link_payload_var s = None"
      "s' = s\<lparr>spi_rx_queue := q, ring_link_payload_var := Some b\<rparr>" by (auto simp: take_steps)
  then show "spec_rx_step (rx_abs s, l) (rx_abs s', l)"
    using take_rx [of "rx_abs s" "buffer_pool s ! b" "map ((!) (buffer_pool s)) q" l] by (simp add: rx_abs_def)
next
  assume "internal_process_take s = Some s'"
  then obtain b q where "ring_link_internal_queue s = b # q" "internal_payload s = None"
      "s' = s\<lparr>ring_link_internal_queue := q, internal_payload := Some b\<rparr>" by (auto simp: take_steps)
  then show "spec_rx_step (rx_abs s, l) (rx_abs s', l)"
    using take_internal [of "rx_abs s" "buffer_pool s ! b" "map ((!) (buffer_pool s)) q" l] by (simp add: rx_abs_def)
next
  assume "netif_process_take s = Some s'"
  then obtain b q where "ring_link_netif_queue s = b # q" "netif_payload_var s = None"
      "s' = s\<lparr>ring_link_netif_queue := q, netif_payload_var := Some b\<rparr>" by (auto simp: take_steps)
  then show "spec_rx_step (rx_abs s, l) (rx_abs s', l)"
    using take_netif [of "rx_abs s" "buffer_pool s ! b" "map ((!) (buffer_pool s)) q" l] by (simp add: rx_abs_def)
qed

lemma process_work_simulates:
  assumes inv: "pool_inv s" and work: "ring_link_process_work l s = Some s'"
  shows "spec_rx_step (rx_abs s, l) (rx_abs s', l)"
proof -
  obtain b where b: "ring_link_payload_var s = Some b" using work_steps_need(3) [OF work] by blast
  let ?p = "buffer_pool s ! b"
  have c: "sp_classifying (rx_abs s) = Some ?p" by (simp add: rx_abs_def b)
  note s' = work [unfolded process_work_ok [OF inv b], THEN option.inject [THEN iffD1], symmetric]
  consider "payload_queue l ?p = None" | "payload_queue l ?p = Some InternalQueue"
    | "payload_queue l ?p = Some NetifQueue"
    by (cases "payload_queue l ?p") (auto intro: rx_queue.exhaust)
  then show ?thesis
  proof cases
    case 1
    then have "rx_abs s' = (rx_abs s)\<lparr>sp_classifying := None\<rparr>" by (simp add: s' rx_abs_def)
    with discard [OF c 1] show ?thesis by simp
  next
    case 2
    then have "rx_abs s' = (rx_abs s)\<lparr>sp_classifying := None, sp_internal := sp_internal (rx_abs s) @ [?p]\<rparr>"
      by (simp add: s' rx_abs_def)
    with to_internal [OF c 2] show ?thesis by simp
  next
    case 3
    then have "rx_abs s' = (rx_abs s)\<lparr>sp_classifying := None, sp_netif := sp_netif (rx_abs s) @ [?p]\<rparr>"
      by (simp add: s' rx_abs_def)
    with to_netif [OF c 3] show ?thesis by simp
  qed
qed

lemma handler_work_simulates:
  assumes inv: "pool_inv s"
  shows "internal_process_work l s = Some (s', l') \<Longrightarrow> spec_rx_step (rx_abs s, l) (rx_abs s', l')"
    and "netif_process_work ok rc l s = Some (s', l') \<Longrightarrow> spec_rx_step (rx_abs s, l) (rx_abs s', l')"
proof -
  assume work: "internal_process_work l s = Some (s', l')"
  then obtain b where b: "internal_payload s = Some b" using work_steps_need(4) by blast
  have h: "sp_handling (rx_abs s) = Some (buffer_pool s ! b)" by (simp add: rx_abs_def b)
  have "rx_abs s' = (rx_abs s)\<lparr>sp_handling := None\<rparr>" "l' = snd (ring_link_internal_handler (buffer_pool s ! b) l)"
    using work internal_work_ok [of s b l] inv b by (auto simp: rx_abs_def)
  with handle [OF h, of l] show "spec_rx_step (rx_abs s, l) (rx_abs s', l')" by simp
next
  assume work: "netif_process_work ok rc l s = Some (s', l')"
  then obtain b where b: "netif_payload_var s = Some b" using work_steps_need(5) by blast
  have h: "sp_netif_handling (rx_abs s) = Some (buffer_pool s ! b)" by (simp add: rx_abs_def b)
  obtain r where r: "ring_link_netif_handler ok rc (buffer_pool s ! b) l = Some (r, l')"
      and "rx_abs s' = (rx_abs s)\<lparr>sp_netif_handling := None\<rparr>"
    using work netif_work_SomeD [of s b ok rc l s' l'] inv b by (auto simp: rx_abs_def)
  with handle_netif [OF h r] show "spec_rx_step (rx_abs s, l) (rx_abs s', l')" by simp
qed

lemma pool_step_simulates:
  assumes "pool_step x y" "pool_inv (fst x)"
  shows "spec_rx_step (rx_abs (fst x), snd x) (rx_abs (fst y), snd y)"
  using assms
proof (cases rule: pool_step.cases)
  case (polling_take s s' l)
  then have "rx_abs s' = rx_abs s" by (auto simp: take_steps rx_abs_def)
  with polling_take show ?thesis by (simp add: unseen)
next
  case (polling_received p s s' l)
  then obtain b where b: "polling_payload s = Some b" using work_steps_need(1) by blast
  with polling_received assms(2) show ?thesis
    using write_polling_buffer [of s b p] by (auto simp: polling_received_ok intro: arrives)
next
  case (polling_failed s s' l)
  then obtain b where b: "polling_payload s = Some b" using work_steps_need(2) by blast
  with polling_failed assms(2) have "rx_abs s' = rx_abs s"
    by (auto simp: polling_failed_ok rx_abs_def)
  with polling_failed show ?thesis by (simp add: unseen)
next
  case (link_moves l' l s)
  then show ?thesis by (simp add: board_moves)
qed (use assms(2) in \<open>simp_all add: take_simulates process_work_simulates handler_work_simulates\<close>)

section \<open>The invariant is kept\<close>

lemma pool_step_inv:
  assumes "pool_step x y" "pool_inv (fst x)"
  shows "pool_inv (fst y)"
  using assms
proof (cases rule: pool_step.cases)
  case (polling_take s s' l)
  then show ?thesis using assms(2) by (auto simp: take_steps pool_inv_def holders_of_buffers_def)
next
  case (polling_received p s s' l)
  then obtain b where "polling_payload s = Some b" using work_steps_need(1) by blast
  with polling_received assms(2) show ?thesis
    by (auto simp: polling_received_ok) (auto simp: pool_inv_def holders_of_buffers_def)
next
  case (polling_failed s s' l)
  then obtain b where "polling_payload s = Some b" using work_steps_need(2) by blast
  with polling_failed assms(2) show ?thesis
    by (auto simp: polling_failed_ok) (auto simp: pool_inv_def holders_of_buffers_def)
next
  case (process_take s s' l)
  then show ?thesis using assms(2) by (auto simp: take_steps pool_inv_def holders_of_buffers_def)
next
  case (process_work l s s')
  then obtain b where "ring_link_payload_var s = Some b" using work_steps_need(3) by blast
  with process_work assms(2) show ?thesis
    by (auto simp: process_work_ok split: option.splits rx_queue.splits)
       (auto simp: pool_inv_def holders_of_buffers_def)
next
  case (internal_take s s' l)
  then show ?thesis using assms(2) by (auto simp: take_steps pool_inv_def holders_of_buffers_def)
next
  case (internal_work l s s' l')
  then obtain b where "internal_payload s = Some b" using work_steps_need(4) by blast
  with internal_work assms(2) show ?thesis
    by (auto simp: internal_work_ok) (auto simp: pool_inv_def holders_of_buffers_def)
next
  case (netif_take s s' l)
  then show ?thesis using assms(2) by (auto simp: take_steps pool_inv_def holders_of_buffers_def)
next
  case (netif_work ok rc l s s' l')
  then obtain b where b: "netif_payload_var s = Some b" using work_steps_need(5) by blast
  then have "s' = s\<lparr>netif_payload_var := None, free_buf_queue := free_buf_queue s @ [b]\<rparr>"
    using netif_work netif_work_SomeD [of s b ok rc l s' l'] assms(2) by simp
  with b netif_work(1,2) assms(2) show ?thesis by (auto simp: pool_inv_def holders_of_buffers_def)
next
  case (link_moves l' l s)
  then show ?thesis using assms(2) by simp
qed

lemma pool_reachable_inv: "pool_reachable e x \<Longrightarrow> pool_inv (fst x)"
  by (induction rule: pool_reachable.induct) (simp_all add: pool_inv_init pool_step_inv)

section \<open>Work left in the pool\<close>

definition pool_work :: "rx_pool \<Rightarrow> nat" where
  "pool_work s = 4 * length (spi_rx_queue s) + 3 * length (var_list (ring_link_payload_var s)) +
     2 * (length (ring_link_internal_queue s) + length (ring_link_netif_queue s)) +
     length (var_list (internal_payload s)) + length (var_list (netif_payload_var s))"

definition readable_payload :: "ring_link_payload \<Rightarrow> bool" where
  "readable_payload p \<longleftrightarrow> pl_buffer p \<noteq> [] \<and> unat (pl_len p) \<le> length (pl_buffer p)"

lemma readable_handled: "readable_payload p \<Longrightarrow> \<exists>r l'. ring_link_netif_handler ok rc p l = Some (r, l')"
  by (cases "pl_buffer p")
     (auto simp: readable_payload_def ring_link_netif_handler_def ring_link_rx_netif_receive_def
       ip_version_def Let_def)

section \<open>Properties\<close>

text \<open>
  Property C3 (SPI receive pool). Whatever the order of the tasks, the interrupt and the driver,
  each of the 8 buffers is at every time in exactly one place: one of the four queues or the
  variable of one task; no task writes or frees a buffer that another one holds.
\<close>

theorem pool_ownership:
  assumes "pool_reachable e (s, l)"
  shows "distinct (holders_of_buffers s) \<and> set (holders_of_buffers s) = {..<NUM_BUFFERS}"
  using pool_inv_distinct [of s] pool_reachable_inv [OF assms] by (simp add: NUM_BUFFERS_def)

definition busy_pool :: rx_pool where
  "busy_pool = the (spi_polling_take (the (spi_polling_received (zero_payload quiet_env)
     (the (spi_polling_take (pool_start quiet_env))))))"

lemma busy_pool_reachable: "pool_reachable quiet_env (busy_pool, quiet_board 0)"
proof -
  let ?a = "pool_start quiet_env" and ?l = "quiet_board 0"
  let ?b = "the (spi_polling_take ?a)"
  let ?c = "the (spi_polling_received (zero_payload quiet_env) ?b)"
  have s: "spi_polling_take ?a = Some ?b"
      "spi_polling_received (zero_payload quiet_env) ?b = Some ?c" "spi_polling_take ?c = Some busy_pool"
    unfolding busy_pool_def by code_simp+
  have "pool_reachable quiet_env (?a, ?l)" by (rule start) simp
  then have "pool_reachable quiet_env (?b, ?l)" by (rule step) (rule polling_take [OF s(1)])
  then have "pool_reachable quiet_env (?c, ?l)" by (rule step) (rule polling_received [OF s(2)])
  then show ?thesis by (rule step) (rule polling_take [OF s(3)])
qed

theorem pool_ownership_witness:
  "distinct (holders_of_buffers busy_pool) \<and> spi_rx_queue busy_pool = [0] \<and> polling_payload busy_pool = Some 1"
proof -
  have "spi_rx_queue busy_pool = [0] \<and> polling_payload busy_pool = Some 1" by code_simp
  with pool_ownership [OF busy_pool_reachable] show ?thesis by blast
qed

text \<open>
  Property C10 (SPI receive pool). The pool implements queues of payloads without bound: every
  step of the tasks, the interrupt or the driver is, on the payloads that the pointers stand for,
  a step of the specification. So every payload that came in is classified and handled once, in
  the order of arrival and with its contents as they were received; none is lost because a queue
  is full, and the code for a full queue is never used.
\<close>

theorem pool_refines_queues:
  assumes "pool_reachable e (s, l)" "pool_step (s, l) (s', l')"
  shows "spec_rx_step (rx_abs s, l) (rx_abs s', l')"
  using pool_step_simulates [OF assms(2)] pool_reachable_inv [OF assms(1)] by simp

theorem pool_refines_queues_witness:
  "spec_rx_step (rx_abs busy_pool, quiet_board 0)
     (rx_abs (the (ring_link_process_take busy_pool)), quiet_board 0)"
proof -
  have "ring_link_process_take busy_pool = Some (the (ring_link_process_take busy_pool))"
    by code_simp
  from pool_refines_queues [OF busy_pool_reachable process_take [OF this]] show ?thesis .
qed

end
