(* ===== verification/Routing_Hooks.thy ===== *)
theory Routing_Hooks
  imports Sockets Spi_Pool Routing_Properties
begin

text \<open>
  Which interface a packet leaves through: the hook that lwIP asks for every packet
  (\<open>app/main/main.c\<close>, \<open>lwip_custom_hooks.h\<close>) and its five variants (\<open>integration/routing_hooks\<close>), with
  the getters of \<open>node.c\<close> and \<open>device.c\<close> they use. A hook is its name; the hook that a user registers is
  a parameter. \<open>esp_netif_get_netif_impl\<close> returns NULL for NULL and the interface otherwise; whether
  the SPI interface has an implementation yet is an argument of the default hook.
\<close>

section \<open>State\<close>

datatype routing_hook = HookRootCenter | HookForwarder | HookHome | HookDefault | HookCustom

datatype routing_hook_type = ROUTING_HOOK_ROOT_CENTER | ROUTING_HOOK_FORWARDER | ROUTING_HOOK_HOME
  | ROUTING_HOOK_CUSTOM | OTHER_HOOK_TYPE u32

record hooks =
  selected_routing_hook :: routing_hook
  user_hook_set :: bool

definition hooks_zero :: hooks where
  "hooks_zero = \<lparr>selected_routing_hook = HookDefault, user_hook_set = False\<rparr>"

record hk_sys = sk_sys +
  hk :: hooks
  nif :: netifs
  rxp :: rx_pool

datatype netif_choice = NullNetif | WifiNetif | SpiNetif

section \<open>Interfaces of the board\<close>

definition device_get_netif :: "device \<Rightarrow> netif_choice" where
  "device_get_netif v =
     (case dev_mode v of
        AP \<Rightarrow> if ap_netif (dev_ap v) then WifiNetif else NullNetif
      | STATION \<Rightarrow> if st_netif (dev_st v) then WifiNetif else NullNetif
      | NAN \<Rightarrow> NullNetif)"

definition node_get_wifi_netif :: "'a hk_sys_scheme \<Rightarrow> netif_choice" where
  "node_get_wifi_netif d = device_get_netif (dev d)"

definition node_get_spi_netif :: "'a hk_sys_scheme \<Rightarrow> netif_choice" where
  "node_get_spi_netif d = (if get_ring_link_tx_netif (nif d) = None then NullNetif else SpiNetif)"

section \<open>Hooks\<close>

definition routing_hook_root_center :: "u32 \<Rightarrow> u32 \<Rightarrow> 'a hk_sys_scheme \<Rightarrow> netif_choice" where
  "routing_hook_root_center src_ip dst_ip d =
     (if node_is_point_to_point_message dst_ip d then node_get_wifi_netif d
      else if node_is_packet_for_this_subnet dst_ip d then node_get_spi_netif d
      else node_get_wifi_netif d)"

definition routing_hook_forwarder :: "u32 \<Rightarrow> u32 \<Rightarrow> 'a hk_sys_scheme \<Rightarrow> netif_choice" where
  "routing_hook_forwarder src_ip dst_ip d =
     (if node_is_point_to_point_message dst_ip d then node_get_wifi_netif d
      else let routing_result = rt_do_route src_ip dst_ip d
           in if routing_result = ROUTE_WIFI then node_get_wifi_netif d
              else if routing_result = ROUTE_SPI then node_get_spi_netif d
              else NullNetif)"

definition routing_hook_home :: "u32 \<Rightarrow> u32 \<Rightarrow> 'a hk_sys_scheme \<Rightarrow> netif_choice" where
  "routing_hook_home src_ip dst_ip d =
     (if node_is_packet_for_this_subnet dst_ip d then node_get_wifi_netif d else node_get_spi_netif d)"

definition routing_hook_default :: "bool \<Rightarrow> 'a hk_sys_scheme \<Rightarrow> netif_choice" where
  "routing_hook_default impl_ready d =
     (if node_get_spi_netif d = NullNetif then NullNetif
      else if \<not> impl_ready then NullNetif else SpiNetif)"

definition routing_hook_custom ::
  "bool \<Rightarrow> (u32 \<Rightarrow> u32 \<Rightarrow> netif_choice) \<Rightarrow> u32 \<Rightarrow> u32 \<Rightarrow> 'a hk_sys_scheme \<Rightarrow> netif_choice" where
  "routing_hook_custom impl_ready user src_ip dst_ip d =
     (if user_hook_set (hk d) then user src_ip dst_ip else routing_hook_default impl_ready d)"

definition node_set_routing_hook :: "routing_hook_type \<Rightarrow> 'a hk_sys_scheme \<Rightarrow> 'a hk_sys_scheme" where
  "node_set_routing_hook ty d =
     d\<lparr>hk := (hk d)\<lparr>selected_routing_hook :=
       (case ty of ROUTING_HOOK_ROOT_CENTER \<Rightarrow> HookRootCenter | ROUTING_HOOK_FORWARDER \<Rightarrow> HookForwarder
        | ROUTING_HOOK_HOME \<Rightarrow> HookHome | ROUTING_HOOK_CUSTOM \<Rightarrow> HookCustom
        | OTHER_HOOK_TYPE _ \<Rightarrow> HookDefault)\<rparr>\<rparr>"

definition node_register_custom_routing_hook :: "bool \<Rightarrow> 'a hk_sys_scheme \<Rightarrow> 'a hk_sys_scheme" where
  "node_register_custom_routing_hook given d =
     (if given then d\<lparr>hk := (hk d)\<lparr>user_hook_set := True\<rparr>\<rparr> else d)"

definition node_do_routing ::
  "bool \<Rightarrow> (u32 \<Rightarrow> u32 \<Rightarrow> netif_choice) \<Rightarrow> u32 \<Rightarrow> u32 \<Rightarrow> 'a hk_sys_scheme \<Rightarrow> netif_choice" where
  "node_do_routing impl_ready user src dst d =
     (case selected_routing_hook (hk d) of
        HookRootCenter \<Rightarrow> routing_hook_root_center src dst d
      | HookForwarder \<Rightarrow> routing_hook_forwarder src dst d
      | HookHome \<Rightarrow> routing_hook_home src dst d
      | HookDefault \<Rightarrow> routing_hook_default impl_ready d
      | HookCustom \<Rightarrow> routing_hook_custom impl_ready user src dst d)"

text \<open>\<open>lwip_ntohl\<close> of an address in network order.\<close>

definition ntohl :: "u32 \<Rightarrow> u32" where
  "ntohl a = push_bit 24 (a AND 0xFF) OR push_bit 8 (a AND 0xFF00) OR
     (drop_bit 8 a AND 0xFF00) OR drop_bit 24 a"

definition custom_ip4_route_src_hook ::
  "bool \<Rightarrow> (u32 \<Rightarrow> u32 \<Rightarrow> netif_choice) \<Rightarrow> u32 \<Rightarrow> u32 \<Rightarrow> 'a hk_sys_scheme \<Rightarrow> netif_choice" where
  "custom_ip4_route_src_hook impl_ready user src dest d =
     node_do_routing impl_ready user (ntohl src) (ntohl dest) d"

lemmas hook_defs = node_do_routing_def routing_hook_root_center_def routing_hook_forwarder_def
  routing_hook_home_def routing_hook_default_def routing_hook_custom_def

section \<open>A packet on the ring\<close>

text \<open>The interfaces of a board are there.\<close>

definition netifs_ready :: "'a hk_sys_scheme \<Rightarrow> bool" where
  "netifs_ready d \<longleftrightarrow> node_get_wifi_netif d = WifiNetif \<and> node_get_spi_netif d = SpiNetif"

text \<open>
  A packet that has come \<open>k\<close> links round the ring: it left at a board through its wifi side, a board
  dropped it because its hook gave no interface, or it is still on the ring, at a board that has not
  decided yet. A board sends it to its neighbour in a frame of its own, with the full ttl of the ring
  link, so the ttl of a frame never ends it.
\<close>

datatype ring_packet = LeavesAt nat | DroppedAt nat | OnRing nat

fun ring_walk :: "('b \<Rightarrow> netif_choice) \<Rightarrow> nat \<Rightarrow> 'b list \<Rightarrow> nat \<Rightarrow> ring_packet" where
  "ring_walk exit 0 bs i = OnRing i"
| "ring_walk exit (Suc k) bs i =
     (case exit (bs ! i) of
        WifiNetif \<Rightarrow> LeavesAt i
      | SpiNetif \<Rightarrow> ring_walk exit k bs (Suc i mod length bs)
      | NullNetif \<Rightarrow> DroppedAt i)"

lemma ring_walk_none:
  assumes "\<forall>b \<in> set bs. exit b = SpiNetif" "i < length bs"
  shows "ring_walk exit k bs i = OnRing ((i + k) mod length bs)"
  using assms
proof (induction k arbitrary: i)
  case (Suc k)
  have "exit (bs ! i) = SpiNetif" using Suc.prems by simp
  moreover have "Suc i mod length bs < length bs" using Suc.prems(2) by (intro mod_less_divisor) auto
  ultimately show ?case using Suc by (simp add: mod_simps)
qed simp

text \<open>The exit is found at the first board, in the direction of the ring, that has one.\<close>

lemma ring_walk_distance:
  assumes "(i + n) mod length bs = j" "j < length bs" "exit (bs ! j) = WifiNetif" "i < length bs"
    and "\<forall>m < n. exit (bs ! ((i + m) mod length bs)) = SpiNetif"
  shows "ring_walk exit (Suc (n + k)) bs i = LeavesAt j"
  using assms
proof (induction n arbitrary: i)
  case (Suc n)
  have here: "exit (bs ! i) = SpiNetif" using Suc.prems(4,5) by force
  have shift: "(Suc i mod length bs + m) mod length bs = (i + Suc m) mod length bs" for m
    by (simp add: mod_simps)
  have "ring_walk exit (Suc (n + k)) bs (Suc i mod length bs) = LeavesAt j"
  proof (rule Suc.IH)
    show "(Suc i mod length bs + n) mod length bs = j" using Suc.prems(1) shift by simp
    show "\<forall>m < n. exit (bs ! ((Suc i mod length bs + m) mod length bs)) = SpiNetif"
      using Suc.prems(5) unfolding shift by blast
    show "Suc i mod length bs < length bs" using Suc.prems(2) by (cases "length bs") auto
  qed (use Suc.prems in auto)
  then show ?case using here by simp
qed auto

lemma ring_offset:
  fixes i j m n :: nat
  assumes "i < n" "j < n" "m < (j + n - i) mod n"
  shows "(i + m) mod n \<noteq> j"
proof (cases "i \<le> j")
  case True
  then have "(j + n - i) mod n = j - i" using assms(1,2) by (simp add: mod_if)
  with assms True show ?thesis by simp
next
  case False
  then have d: "(j + n - i) mod n = j + n - i" using assms(1,2) by simp
  show ?thesis
  proof (cases "i + m < n")
    case True
    with False show ?thesis by simp
  next
    case False
    then have "(i + m) mod n = i + m - n" using assms d by (simp add: mod_if)
    with assms d False show ?thesis by linarith
  qed
qed

lemma ring_walk_one_exit:
  assumes "j < length bs" "exit (bs ! j) = WifiNetif" "i < length bs"
    and "\<forall>m < length bs. m \<noteq> j \<longrightarrow> exit (bs ! m) = SpiNetif"
  shows "ring_walk exit (length bs) bs i = LeavesAt j"
proof -
  let ?dist = "(j + length bs - i) mod length bs"
  have home: "(i + ?dist) mod length bs = j"
    using assms(1,3) by (simp add: mod_simps)
  have less: "?dist < length bs" using assms(1) by (intro mod_less_divisor) auto
  have "\<forall>m < ?dist. exit (bs ! ((i + m) mod length bs)) = SpiNetif"
    using assms(4) ring_offset [OF assms(3,1)] mod_less_divisor [of "length bs"] assms(1)
    by (metis gr_implies_not0 not_gr0)
  moreover have "Suc (?dist + (length bs - Suc ?dist)) = length bs" using less by simp
  ultimately show ?thesis
    using ring_walk_distance [of i ?dist bs j exit "length bs - Suc ?dist", OF home assms(1-3)]
    by (simp only:)
qed

text \<open>
  A board that decides for the address \<open>dst\<close> as its table does: a forwarder, a home for which the table
  gives the addresses of its own network to it, and a root for which it gives the others to it.
\<close>

definition routes_by_table :: "u32 \<Rightarrow> 'a hk_sys_scheme \<Rightarrow> bool" where
  "routes_by_table dst d \<longleftrightarrow> netifs_ready d \<and>
     (case selected_routing_hook (hk d) of
        HookForwarder \<Rightarrow> \<not> node_is_point_to_point_message dst d
      | HookHome \<Rightarrow> node_is_packet_for_this_subnet dst d \<longleftrightarrow>
          routing_table_route (node_table d) dst = rt_orientation (rt d)
      | HookRootCenter \<Rightarrow> node_is_point_to_point_message dst d \<or> \<not> node_is_packet_for_this_subnet dst d \<longleftrightarrow>
          routing_table_route (node_table d) dst = rt_orientation (rt d)
      | HookDefault \<Rightarrow> False
      | HookCustom \<Rightarrow> False)"

lemma routes_by_table_choice:
  assumes "routes_by_table dst d"
  shows "node_do_routing impl user src dst d =
    (if routing_table_route (node_table d) dst = rt_orientation (rt d) then WifiNetif else SpiNetif)"
  using assms by (auto simp: routes_by_table_def netifs_ready_def hook_defs rt_do_route_def Let_def split: routing_hook.splits)

text \<open>Boards that decide alike: a packet leaves at the board whose orientation is the output, if there is one.\<close>

lemma ring_walk_by_output:
  assumes "\<forall>d \<in> set boards. exit d = (if out = rt_orientation (rt d) then WifiNetif else SpiNetif)"
    and "distinct (map (\<lambda>d. rt_orientation (rt d)) boards)" "i < length boards"
  shows "j < length boards \<Longrightarrow> rt_orientation (rt (boards ! j)) = out \<Longrightarrow> ring_walk exit (length boards) boards i = LeavesAt j"
    and "\<forall>d \<in> set boards. rt_orientation (rt d) \<noteq> out \<Longrightarrow> ring_walk exit k boards i = OnRing ((i + k) mod length boards)"
proof -
  assume j: "j < length boards" "rt_orientation (rt (boards ! j)) = out"
  have choice: "exit (boards ! m) = (if out = rt_orientation (rt (boards ! m)) then WifiNetif else SpiNetif)"
    if "m < length boards" for m using assms(1) that by simp
  have "rt_orientation (rt (boards ! m)) \<noteq> rt_orientation (rt (boards ! j))" if "m < length boards" "m \<noteq> j" for m
    using assms(2) that j(1) by (auto simp: distinct_conv_nth)
  then have "\<forall>m < length boards. m \<noteq> j \<longrightarrow> exit (boards ! m) = SpiNetif"
    using choice j(2) by metis
  moreover have "exit (boards ! j) = WifiNetif" using choice [OF j(1)] j(2) by simp
  ultimately show "ring_walk exit (length boards) boards i = LeavesAt j"
    using ring_walk_one_exit [OF j(1) _ assms(3)] by blast
next
  assume "\<forall>d \<in> set boards. rt_orientation (rt d) \<noteq> out"
  then have "\<forall>d \<in> set boards. exit d = SpiNetif" using assms(1) by auto
  then show "ring_walk exit k boards i = OnRing ((i + k) mod length boards)" using assms(3) by (rule ring_walk_none)
qed

section \<open>Properties\<close>

definition hk_sys_start :: "environment \<Rightarrow> hk_sys" where
  "hk_sys_start e = sk_sys.extend (cb_sys.extend (cb_sys_start e) \<lparr>sk = sockets_zero\<rparr>)
     \<lparr>hk = hooks_zero, nif = netifs_zero, rxp = pool_start e\<rparr>"

definition example_hook_board :: "u8 \<Rightarrow> hk_sys" where
  "example_hook_board ori = node_set_routing_hook ROUTING_HOOK_FORWARDER ((hk_sys_start quiet_env)
     \<lparr>rt := routing_zero\<lparr>rt_orientation := ori\<rparr>, node_table := routing_table_init 2,
      dev := device_start\<lparr>dev_mode := AP, dev_ap := ap_zero\<lparr>ap_netif := True, ap_subnet := 1\<rparr>\<rparr>,
      nif := netifs_zero\<lparr>ring_link_tx_netif := Some fresh_netif\<rparr>\<rparr>)"

lemmas hook_start_defs = hk_sys_start_def sk_sys.extend_def cb_sys.extend_def cb_sys_start_def
  im_sys.extend_def im_sys_start_def

lemma example_hook_board_routes:
  "routes_by_table dst (example_hook_board ori)"
  "rt_orientation (rt (example_hook_board ori)) = ori"
  by (simp_all add: routes_by_table_def example_hook_board_def node_set_routing_hook_def netifs_ready_def
      hook_start_defs node_get_wifi_netif_def device_get_netif_def node_get_spi_netif_def
      get_ring_link_tx_netif_def node_is_point_to_point_message_def hooks_zero_def
      device_is_point_to_point_message_def device_start_def ap_zero_def netifs_zero_def)

text \<open>
  Property C36 (routing hooks): in the node of the root a packet for an address of the root's network
  that the tables of the forwarders send to the center leaves the ring at no board and is dropped by
  no board: after any number of links it is at the board that many places further on. The
  forwarders send it to the center, and the center sends what lies in its network back to the ring.
  The boards must have their interfaces and no link to the address itself. The time to live of the ring
  link does not end it, since every board sends the packet in a frame of its own; the hop count in the
  packet's IP header is lwIP's and not part of the model.
\<close>

theorem unassigned_address_circles:
  assumes "boards = root # forwarders" "selected_routing_hook (hk root) = HookRootCenter"
    and "\<forall>d \<in> set boards. netifs_ready d \<and> \<not> node_is_point_to_point_message dst d"
    and "\<forall>d \<in> set forwarders. selected_routing_hook (hk d) = HookForwarder \<and>
      routing_table_route (node_table d) dst = ORIENTATION_CENTER \<and> rt_orientation (rt d) \<noteq> ORIENTATION_CENTER"
    and "node_is_packet_for_this_subnet dst root" "i < length boards"
  shows "ring_walk (node_do_routing impl user src dst) k boards i = OnRing ((i + k) mod length boards)"
proof (rule ring_walk_none [OF _ assms(6)])
  have "node_do_routing impl user src dst root = SpiNetif"
    using assms(1,2,3,5) by (simp add: hook_defs netifs_ready_def)
  moreover have "node_do_routing impl user src dst d = SpiNetif" if "d \<in> set forwarders" for d
    using assms(1,3,4) that by (auto simp: hook_defs netifs_ready_def rt_do_route_def Let_def)
  ultimately show "\<forall>d \<in> set boards. node_do_routing impl user src dst d = SpiNetif"
    using assms(1) by auto
qed

definition example_root_board :: hk_sys where
  "example_root_board = node_set_routing_hook ROUTING_HOOK_ROOT_CENTER
     (node_set_network_settings 0x0A000000 0xFF000000 (example_hook_board 5))"

definition example_root_forwarder :: "u8 \<Rightarrow> hk_sys" where
  "example_root_forwarder ori = (example_hook_board ori)\<lparr>node_table := routing_table_init 5\<rparr>"

theorem unassigned_address_circles_witness:
  "ring_walk (node_do_routing True (\<lambda>_ _. NullNetif) 0 0x0A123456) 100
     [example_root_board, example_root_forwarder 1] 1 = OnRing 1"
proof -
  let ?r = example_root_board and ?f = "example_root_forwarder 1"
  have simps: "netifs_ready d' = netifs_ready d \<and>
      node_is_point_to_point_message x d' = node_is_point_to_point_message x d"
    if "dev d' = dev d" "nif d' = nif d" for d d' :: hk_sys and x
    using that by (simp add: netifs_ready_def node_get_wifi_netif_def node_get_spi_netif_def
        node_is_point_to_point_message_def)
  have e: "netifs_ready (example_hook_board ori)" "\<not> node_is_point_to_point_message 0x0A123456 (example_hook_board ori)" for ori
    using example_hook_board_routes(1) [of "0x0A123456" ori]
    by (simp_all add: routes_by_table_def example_hook_board_def node_set_routing_hook_def)
  have r: "netifs_ready ?r \<and> \<not> node_is_point_to_point_message 0x0A123456 ?r"
    using e [of 5] simps [of ?r "example_hook_board 5"]
    by (simp add: example_root_board_def node_set_routing_hook_def node_set_network_settings_def upd_nd_def)
  have f: "netifs_ready ?f \<and> \<not> node_is_point_to_point_message 0x0A123456 ?f"
    using e [of 1] simps [of ?f "example_hook_board 1"] by (simp add: example_root_forwarder_def)
  have "routing_table_route (routing_table_init 5) 0x0A123456 = ORIENTATION_CENTER" by code_simp
  then have t: "routing_table_route (node_table ?f) 0x0A123456 = ORIENTATION_CENTER"
    "rt_orientation (rt ?f) \<noteq> ORIENTATION_CENTER" "selected_routing_hook (hk ?f) = HookForwarder"
    using example_hook_board_routes(2) [of 1]
    by (simp_all add: example_root_forwarder_def orientations example_hook_board_def node_set_routing_hook_def)
  have n: "node_is_packet_for_this_subnet 0x0A123456 ?r" "selected_routing_hook (hk ?r) = HookRootCenter"
    by (simp_all add: node_is_packet_for_this_subnet_def example_root_board_def node_set_routing_hook_def
        node_set_network_settings_def upd_nd_def)
  have "ring_walk (node_do_routing True (\<lambda>_ _. NullNetif) 0 0x0A123456) 100 [?r, ?f] 1 =
      OnRing ((1 + 100) mod length [?r, ?f])"
    by (rule unassigned_address_circles [OF refl n(2)]) (use r f t n(1) in auto)
  moreover have "(1 + 100) mod length [?r, ?f] = 1" by (simp flip: numeral_2_eq_2)
  ultimately show ?thesis by (simp only:)
qed

end
