(* ===== verification/Remote_Control.thy ===== *)
theory Remote_Control
  imports Routing_Hooks
begin

text \<open>
  The TCP server through which a gateway switches the access point of a home or restarts its board
  (\<open>integration/remote_control\<close>): the commands and the password, the start of the server, one round
  of its task, and its end. The answers of the sockets are arguments. The buffer is terminated by
  the code before it is read as a string.
\<close>

section \<open>State\<close>

record board = hk_sys +
  rc_listen_sock :: int

definition RC_BUFFER_SIZE :: nat where "RC_BUFFER_SIZE = 512"
definition AUTH_PASSWORD :: "byte list" where "AUTH_PASSWORD = chars ''I4A123456''"
definition PASSWORD_LEN :: nat where "PASSWORD_LEN = 9"

datatype remote_command = AP_ENABLE | AP_DISABLE | RESET_NODE | ECHO

definition command_table :: "(remote_command \<times> byte list) list" where
  "command_table = [(AP_ENABLE, chars ''ap_enable''), (AP_DISABLE, chars ''ap_disable''),
     (RESET_NODE, chars ''reset_node''), (ECHO, chars ''echo'')]"

section \<open>Commands\<close>

text \<open>The loop over the table, for the string after the password and the colon.\<close>

fun find_command :: "byte list \<Rightarrow> (remote_command \<times> byte list) list \<Rightarrow> remote_command option" where
  "find_command cmd [] = None"
| "find_command cmd ((c, name) # cs) = (if cmd = name then Some c else find_command cmd cs)"

definition determine_command :: "byte list \<Rightarrow> remote_command option" where
  "determine_command input =
     (if length input < PASSWORD_LEN + 2 then None
      else if input ! PASSWORD_LEN \<noteq> of_char CHR '':'' then None
      else if take PASSWORD_LEN input \<noteq> AUTH_PASSWORD then None
      else find_command (drop (PASSWORD_LEN + 1) input) command_table)"

definition apply_command :: "remote_command \<Rightarrow> 'a board_scheme \<Rightarrow> 'a board_scheme" where
  "apply_command c d =
     (let d1 = (if c = AP_DISABLE then node_disable_ap d else d);
          d2 = (if c = AP_ENABLE then node_enable_ap d1 else d1)
      in if c = RESET_NODE then d2\<lparr>lk := emit Restart (lk d2)\<rparr> else d2)"

section \<open>The server\<close>

text \<open>
  \<open>ap_ip\<close> is the address of the access point if it has one. The server may end without a socket, or
  with a closed one.
\<close>

definition remote_command_server_init ::
  "u32 option \<Rightarrow> int \<Rightarrow> bool \<Rightarrow> bool \<Rightarrow> 'a board_scheme \<Rightarrow> 'a board_scheme" where
  "remote_command_server_init ap_ip fd bind_ok listen_ok d =
     (case ap_ip of
        None \<Rightarrow> d
      | Some ip \<Rightarrow>
          let d1 = d\<lparr>rc_listen_sock := fd\<rparr>
          in if fd < 0 then d1
             else let d2 = driver ''remote_control_bind'' [ip] d1
             in if \<not> bind_ok then driver ''remote_control_close'' [] d2
             else let d3 = driver ''remote_control_listen'' [] d2
             in if \<not> listen_ok then driver ''remote_control_close'' [] d3 else d3)"

text \<open>
  \<open>remote_command_server_create\<close> of \<open>Node\<close>, with the work of \<open>remote_command_server_init\<close>; the task is
  created whatever comes of it.
\<close>

definition remote_control_start ::
  "u32 option \<Rightarrow> int \<Rightarrow> bool \<Rightarrow> bool \<Rightarrow> 'a board_scheme \<Rightarrow> 'a board_scheme" where
  "remote_control_start ap_ip fd bind_ok listen_ok d =
     (if \<not> remote_server d
      then driver ''create_task_remote_control'' []
             (remote_command_server_init ap_ip fd bind_ok listen_ok (d\<lparr>remote_server := True\<rparr>))
      else d)"

definition remote_command_server_close :: "'a board_scheme \<Rightarrow> 'a board_scheme" where
  "remote_command_server_close d =
     (if remote_server d
      then let d1 = d\<lparr>remote_server := False\<rparr>
           in if rc_listen_sock d1 \<ge> 0 then driver ''remote_control_close'' [] d1 else d1
      else d)"

definition response_text :: "remote_command option \<Rightarrow> byte list" where
  "response_text c =
     (case c of
        Some cmd \<Rightarrow> chars ''Applying command: '' @ the (map_of command_table cmd)
      | None \<Rightarrow> chars ''Error: invalid command or password. Check formatting.'')"

text \<open>
  One round of the task: \<open>accepted\<close> is the socket, \<open>input\<close> what \<open>recv\<close> gives, \<open>None\<close> for an error. The
  socket is closed before the command is applied.
\<close>

definition remote_command_server_round ::
  "int \<Rightarrow> byte list option \<Rightarrow> 'a board_scheme \<Rightarrow> 'a board_scheme" where
  "remote_command_server_round accepted input d =
     (if accepted < 0 then d
      else case input of
             None \<Rightarrow> driver ''remote_control_close_client'' [] d
           | Some bytes \<Rightarrow>
               let command = determine_command (c_str (bytes @ [0]));
                   response = response_text command;
                   d1 = d\<lparr>lk := emit (SockSend response (int (length response))) (lk d)\<rparr>;
                   d2 = driver ''remote_control_close_client'' [] d1
               in case command of Some c \<Rightarrow> apply_command c d2 | None \<Rightarrow> d2)"

section \<open>Properties\<close>

lemma c_str_zero: "c_str (bytes @ [0]) = c_str bytes"
  by (induction bytes) (simp_all add: c_str_def)

lemma find_command_iff: "find_command cmd command_table = Some c \<longleftrightarrow> map_of command_table c = Some cmd"
  by (cases c) (auto simp: command_table_def chars_def)

lemma determine_command_iff:
  "determine_command input = Some c \<longleftrightarrow>
   (\<exists>name. map_of command_table c = Some name \<and> input = AUTH_PASSWORD @ [of_char CHR '':''] @ name)"
proof
  assume d: "determine_command input = Some c"
  then have l: "11 \<le> length input" and parts: "input ! 9 = of_char CHR '':''" "take 9 input = AUTH_PASSWORD"
      "map_of command_table c = Some (drop 10 input)"
    by (auto simp: determine_command_def PASSWORD_LEN_def find_command_iff split: if_splits)
  have "input = take 9 input @ input ! 9 # drop 10 input"
    using l id_take_nth_drop [of 9 input] by simp
  with parts show "\<exists>name. map_of command_table c = Some name \<and> input = AUTH_PASSWORD @ [of_char CHR '':''] @ name"
    by (intro exI [of _ "drop 10 input"]) simp
next
  assume "\<exists>name. map_of command_table c = Some name \<and> input = AUTH_PASSWORD @ [of_char CHR '':''] @ name"
  then obtain name where n: "map_of command_table c = Some name"
      "input = AUTH_PASSWORD @ [of_char CHR '':''] @ name" by blast
  have "length AUTH_PASSWORD = 9" by (simp add: AUTH_PASSWORD_def chars_def)
  moreover have "name \<noteq> []" using n(1) by (cases c) (auto simp: command_table_def chars_def)
  ultimately show "determine_command input = Some c"
    using n by (cases name) (simp_all add: determine_command_def PASSWORD_LEN_def nth_append flip: find_command_iff)
qed

lemma apply_command_effect:
  "ap_lock (dev (apply_command c d)) = (case c of AP_DISABLE \<Rightarrow> True | AP_ENABLE \<Rightarrow> False | _ \<Rightarrow> ap_lock (dev d))"
  "Restart \<in> set (new_effects (lk d) (lk (apply_command c d))) \<longleftrightarrow> c = RESET_NODE"
  by (cases c; simp add: apply_command_def node_disable_ap_def node_enable_ap_def device_disable_ap_def
      device_enable_ap_def ap_disconnect_all_stations_def Let_def new_effects_def driver_def)+

text \<open>
  Property C37 (remote control): what a client of the server sends has an effect on the board only
  when it is, up to the first zero byte, the password, a colon and the name of a command, exactly.
  Then the access point is locked or unlocked, or the board restarts, as the command says; anything
  else, and \<open>echo\<close>, changes nothing but the log. A restart happens for the command to restart only.
\<close>

theorem remote_command_needs_password:
  assumes "d' = remote_command_server_round sock (Some bytes) d" "0 \<le> sock"
  shows "(case determine_command (c_str bytes) of
       Some c \<Rightarrow> \<exists>name. map_of command_table c = Some name \<and>
         c_str bytes = AUTH_PASSWORD @ [of_char CHR '':''] @ name \<and>
         ap_lock (dev d') = (case c of AP_DISABLE \<Rightarrow> True | AP_ENABLE \<Rightarrow> False | _ \<Rightarrow> ap_lock (dev d)) \<and>
         (Restart \<in> set (new_effects (lk d) (lk d')) \<longleftrightarrow> c = RESET_NODE)
     | None \<Rightarrow> (\<forall>c name. map_of command_table c = Some name \<longrightarrow>
           c_str bytes \<noteq> AUTH_PASSWORD @ [of_char CHR '':''] @ name) \<and>
         (\<exists>l. d' = d\<lparr>lk := l\<rparr>) \<and> Restart \<notin> set (new_effects (lk d) (lk d')))"
proof (cases "determine_command (c_str bytes)")
  case None
  then have "d' = driver ''remote_control_close_client'' []
      (d\<lparr>lk := emit (SockSend (response_text None) (int (length (response_text None)))) (lk d)\<rparr>)"
    using assms by (simp add: remote_command_server_round_def c_str_zero Let_def)
  then have "(\<exists>l. d' = d\<lparr>lk := l\<rparr>) \<and> Restart \<notin> set (new_effects (lk d) (lk d'))"
    by (auto simp: driver_def new_effects_def)
  moreover have "\<forall>c name. map_of command_table c = Some name \<longrightarrow>
      c_str bytes \<noteq> AUTH_PASSWORD @ [of_char CHR '':''] @ name"
    using None determine_command_iff [of "c_str bytes"] by (metis option.distinct(1))
  ultimately show ?thesis using None by simp
next
  case (Some c)
  let ?d2 = "driver ''remote_control_close_client'' []
      (d\<lparr>lk := emit (SockSend (response_text (Some c)) (int (length (response_text (Some c))))) (lk d)\<rparr>)"
  have d': "d' = apply_command c ?d2"
    using assms Some by (simp add: remote_command_server_round_def c_str_zero Let_def)
  have "link_step (lk ?d2) (lk d')"
    by (cases c) (simp_all add: d' apply_command_def node_disable_ap_def node_enable_ap_def
        device_disable_ap_def device_enable_ap_def ap_disconnect_all_stations_def Let_def driver_def)
  moreover have "link_step (lk d) (lk ?d2)"
    by (simp add: driver_def link_step_def)
  ultimately have "new_effects (lk d) (lk d') = new_effects (lk d) (lk ?d2) @ new_effects (lk ?d2) (lk d')"
    by (intro new_effects_trans)
  moreover have "Restart \<notin> set (new_effects (lk d) (lk ?d2))"
    by (simp add: driver_def new_effects_def)
  ultimately have "Restart \<in> set (new_effects (lk d) (lk d')) \<longleftrightarrow> c = RESET_NODE"
    using apply_command_effect(2) [of ?d2 c] by (simp add: d')
  moreover have "ap_lock (dev d') = (case c of AP_DISABLE \<Rightarrow> True | AP_ENABLE \<Rightarrow> False | _ \<Rightarrow> ap_lock (dev d))"
    using apply_command_effect(1) [of c ?d2] unfolding d' by (cases c) (simp_all add: driver_def)
  moreover obtain name where "map_of command_table c = Some name"
      "c_str bytes = AUTH_PASSWORD @ [of_char CHR '':''] @ name"
    using Some determine_command_iff by blast
  ultimately show ?thesis using Some by auto
qed

definition board_start :: "environment \<Rightarrow> board" where
  "board_start e = hk_sys.extend (hk_sys_start e) \<lparr>rc_listen_sock = -1\<rparr>"

theorem remote_command_needs_password_witness:
  "ap_lock (dev (remote_command_server_round 3 (Some (chars ''I4A123456:ap_disable'')) (board_start quiet_env))) \<and>
   \<not> ap_lock (dev (remote_command_server_round 3 (Some (chars ''I4A123456:ap_disable'' @ [10])) (board_start quiet_env)))"
proof -
  have c: "determine_command (c_str (chars ''I4A123456:ap_disable'')) = Some AP_DISABLE"
    "determine_command (c_str (chars ''I4A123456:ap_disable'' @ [10])) = None"
    by code_simp+
  have s: "\<not> ap_lock (dev (board_start quiet_env))"
    by (simp add: board_start_def hk_sys.extend_def hook_start_defs device_start_def)
  note P = remote_command_needs_password [OF refl, of 3]
  show ?thesis
    using P [of "chars ''I4A123456:ap_disable''" "board_start quiet_env"]
      P [of "chars ''I4A123456:ap_disable'' @ [10]" "board_start quiet_env"] c s by auto
qed

end
