(* ===== verification/Startup.thy ===== *)
theory Startup
  imports Remote_Control
begin

text \<open>
  The start of a board (\<open>app/main/main.c\<close>, \<open>node_setup\<close> of \<open>integration/node/node.c\<close> and
  \<open>integration/internal_messages\<close>) and its last task, with the getters that the program uses.

  \<open>node_setup\<close> waits in loops without a bound, which take fuel here, \<open>None\<close> when it runs out or when
  \<open>ESP_ERROR_CHECK\<close> aborts. While a board waits for the message of the center its other tasks run:
  \<open>others n\<close> is what they do to the board in the \<open>n\<close>-th delay. The strings of the node are
  pointers to those of the reset manager in the code, and copies of them here.
\<close>

section \<open>Getters\<close>

definition rm_is_device_up :: "reset_manager \<Rightarrow> bool" where "rm_is_device_up rm = rm_is_up rm"
definition rm_get_uuid :: "reset_manager \<Rightarrow> byte list" where "rm_get_uuid rm = rm_uuid rm"
definition rm_get_mac :: "reset_manager \<Rightarrow> byte list" where "rm_get_mac rm = rm_mac rm"

definition rm_is_root_device :: "reset_manager \<Rightarrow> bool" where "rm_is_root_device rm = rm_is_root rm"
definition rm_get_last_reset_time :: "reset_manager \<Rightarrow> u64" where
  "rm_get_last_reset_time rm = rm_last_reset_time rm"

definition node_get_device_rssi :: "i8 option \<Rightarrow> 'a node_sys_scheme \<Rightarrow> i8" where
  "node_get_device_rssi answer d = device_get_rssi answer (dev d)"

definition node_get_device_subnet :: "'a node_sys_scheme \<Rightarrow> u32" where
  "node_get_device_subnet d = node_subnet (nd d)"

definition node_get_device_mask :: "'a node_sys_scheme \<Rightarrow> u32" where
  "node_get_device_mask d = node_mask (nd d)"

definition node_get_uuid :: "'a node_sys_scheme \<Rightarrow> byte list" where "node_get_uuid d = node_uuid (nd d)"
definition node_get_device_mac :: "'a node_sys_scheme \<Rightarrow> byte list" where "node_get_device_mac d = node_mac (nd d)"

definition node_get_link_name :: "'a node_sys_scheme \<Rightarrow> byte list" where
  "node_get_link_name d = device_get_link_name (dev d)"

definition node_get_device_channel :: "'a node_sys_scheme \<Rightarrow> u8" where
  "node_get_device_channel d = device_get_channel (dev d)"

definition node_get_device_orientation :: "'a node_sys_scheme \<Rightarrow> u8" where
  "node_get_device_orientation d = node_orientation (nd d)"

definition node_is_device_center_root :: "'a node_sys_scheme \<Rightarrow> bool" where
  "node_is_device_center_root d = node_is_center_root (nd d)"

definition device_is_sta_locked :: "device \<Rightarrow> bool" where "device_is_sta_locked v = sta_lock v"
definition device_is_ap_locked :: "device \<Rightarrow> bool" where "device_is_ap_locked v = ap_lock v"
definition device_is_apsta :: "device \<Rightarrow> bool" where "device_is_apsta v \<longleftrightarrow> dev_is_apsta v \<noteq> 0"

definition node_is_ap_locked :: "'a node_sys_scheme \<Rightarrow> bool" where
  "node_is_ap_locked d = device_is_ap_locked (dev d)"

definition node_is_sta_locked :: "'a node_sys_scheme \<Rightarrow> bool" where
  "node_is_sta_locked d = device_is_sta_locked (dev d)"

definition node_is_device_apsta :: "'a node_sys_scheme \<Rightarrow> bool" where
  "node_is_device_apsta d = device_is_apsta (dev d)"

section \<open>Setting up the node\<close>

definition CALIBRATION_DELAY_SECONDS :: u32 where "CALIBRATION_DELAY_SECONDS = 2"

definition node_setup_internal_messages :: "bool \<Rightarrow> u8 \<Rightarrow> 'a board_scheme \<Rightarrow> 'a board_scheme option" where
  "node_setup_internal_messages mutex_ok ori d =
     (let (ok, rs, l) = rs_init mutex_ok (rsh d) (lk d);
          d1 = d\<lparr>rsh := rs, lk := l\<rparr>;
          d2 = (if ok then sb_register_callback RingShareOnSibling d1 else d1)
      in do { (cm, rs1) \<leftarrow> cm_init ori (cmgr d2) (rsh d2);
              let (pm, rs2) = pm_init ori (pmgr d2) rs1;
              let (m, rs3) = im_init (im d2) rs2;
              let (rm, rs4, l1) = rm_init (rmgr d2) rs3 (lk d2);
              Some (d2\<lparr>cmgr := cm, pmgr := pm, im := m, rmgr := rm, rsh := rs4, lk := l1\<rparr>) })"

text \<open>\<open>while (!send()) vTaskDelay(100 ms)\<close>, for the two broadcasts of the reset manager.\<close>

fun until_sent :: "(reset_manager \<Rightarrow> link \<Rightarrow> bool \<times> reset_manager \<times> link) \<Rightarrow> nat \<Rightarrow> 'a board_scheme \<Rightarrow>
    'a board_scheme option" where
  "until_sent send 0 d = None"
| "until_sent send (Suc k) d =
     (let (ok, rm, l) = send (rmgr d) (lk d); d1 = d\<lparr>rmgr := rm, lk := l\<rparr>
      in if ok then Some d1 else until_sent send k (delay_ms 100 d1))"

fun wait_until_up :: "(nat \<Rightarrow> 'a board_scheme \<Rightarrow> 'a board_scheme) \<Rightarrow> nat \<Rightarrow> nat \<Rightarrow> 'a board_scheme \<Rightarrow>
    'a board_scheme option" where
  "wait_until_up others 0 n d = None"
| "wait_until_up others (Suc k) n d =
     (if rm_is_device_up (rmgr d) then Some d
      else let (should, l) = rm_should_device_reset (rmgr d) (lk d); d1 = d\<lparr>lk := l\<rparr>
           in do { d2 \<leftarrow> (if should then until_sent rm_broadcast_reset (Suc k) d1 else Some d1);
                   wait_until_up others k (Suc n) (others n (delay_ms 100 d2)) })"

text \<open>The two branches of \<open>node_setup\<close>: the center tells the others to restart and then who they are.\<close>

definition node_setup_center :: "nat \<Rightarrow> 'a board_scheme \<Rightarrow> 'a board_scheme option" where
  "node_setup_center fuel d =
     do { d1 \<leftarrow> until_sent rm_broadcast_reset fuel d;
          until_sent (rm_broadcast_startup_info (config_mode_is CONFIG_MODE_ROOT (s_config (lk d1)))) fuel
            (delay_ms 10000 d1) }"

definition node_setup_finish :: "'a board_scheme \<Rightarrow> 'a board_scheme" where
  "node_setup_finish d =
     im_scheduler_start (driver ''register_traffic_handler'' []
       (upd_nd (\<lambda>n. n\<lparr>node_mac := rm_get_mac (rmgr d), node_uuid := rm_get_uuid (rmgr d),
          node_is_center_root := rm_is_root (rmgr d), node_is_apsta := False\<rparr>) d))"

record setup_answers =
  queues_ok :: bool
  task1_ok :: bool
  task2_ok :: bool
  task3_ok :: bool
  rs_mutex_ok :: bool
  nvs_rc :: esp_err
  nvs_again_rc :: esp_err
  ring_ans :: ring_answers

text \<open>
  The error of \<open>device_wifi_init\<close> is that of the flash, which is erased and tried again when it has no
  free pages or another layout; its other calls abort on failure.
\<close>

definition nvs_needs_erase :: "esp_err \<Rightarrow> bool" where
  "nvs_needs_erase rc \<longleftrightarrow> rc = ESP_ERR_OTHER 0x110D \<or> rc = ESP_ERR_OTHER 0x1110"

definition init_nvs :: "esp_err \<Rightarrow> esp_err \<Rightarrow> 'a wifi_sys_scheme \<Rightarrow> esp_err \<times> 'a wifi_sys_scheme" where
  "init_nvs rc again d = (if nvs_needs_erase rc then (again, driver ''nvs_flash_erase'' [] d) else (rc, d))"

definition device_wifi_init :: "esp_err \<Rightarrow> esp_err \<Rightarrow> 'a wifi_sys_scheme \<Rightarrow> esp_err \<times> 'a wifi_sys_scheme" where
  "device_wifi_init nvs again d =
     (let (rc, d1) = init_nvs nvs again d
      in if rc \<noteq> ESP_OK then (rc, d1)
         else (ESP_OK, driver ''wifi_init'' [] (driver ''event_loop_create'' [] (driver ''netif_init'' [] d1))))"

definition node_setup_layers ::
  "(int \<Rightarrow> int \<Rightarrow> int \<Rightarrow> int \<Rightarrow> u32) \<Rightarrow> u8 \<Rightarrow> setup_answers \<Rightarrow> 'a board_scheme \<Rightarrow> 'a board_scheme option" where
  "node_setup_layers ip4 bits a d =
     (let (rc1, d1) = node_init_event_queues (queues_ok a) d
      in if rc1 \<noteq> ESP_OK then None else
      let (rc2, d2) = node_start_event_tasks (task1_ok a) (task2_ok a) (task3_ok a) d1
      in if rc2 \<noteq> ESP_OK then None else
      let d3 = d2\<lparr>lk := (lk d2)\<lparr>s_config := config_setup ip4 bits (s_config (lk d2))\<rparr>\<rparr>;
          ori = node_get_config_orientation (s_config (lk d3));
          d4 = upd_nd (\<lambda>n. n\<lparr>node_orientation := ori\<rparr>) d3
      in do { d5 \<leftarrow> node_setup_internal_messages (rs_mutex_ok a) ori d4;
              let d6 = delay_ms (ucast ori * (CALIBRATION_DELAY_SECONDS * 1000)) d5;
              let (rc3, d7) = device_wifi_init (nvs_rc a) (nvs_again_rc a) d6;
              if rc3 \<noteq> ESP_OK then None
              else do { (rc4, pool, ns, l) \<leftarrow> ring_link_init (ring_ans a) (nif d7) (lk d7);
                        if rc4 \<noteq> ESP_OK then None
                        else Some (d7\<lparr>rxp := pool, nif := ns, lk := l\<rparr>) } })"

definition node_setup ::
  "(int \<Rightarrow> int \<Rightarrow> int \<Rightarrow> int \<Rightarrow> u32) \<Rightarrow> u8 \<Rightarrow> setup_answers \<Rightarrow> (nat \<Rightarrow> 'a board_scheme \<Rightarrow> 'a board_scheme) \<Rightarrow>
   nat \<Rightarrow> 'a board_scheme \<Rightarrow> 'a board_scheme option" where
  "node_setup ip4 bits a others fuel d =
     do { d1 \<leftarrow> node_setup_layers ip4 bits a d;
          d2 \<leftarrow> (if node_orientation (nd d1) = NODE_DEVICE_ORIENTATION_CENTER then node_setup_center fuel d1
                 else wait_until_up others fuel 0 d1);
          Some (node_setup_finish d2) }"

section \<open>The program\<close>

definition ROOT_NETWORK :: u32 where "ROOT_NETWORK = 0x0A000000"
definition ROOT_MASK :: u32 where "ROOT_MASK = 0xFF000000"
definition ROUTING_ORIENTATION_OFFSET :: u8 where "ROUTING_ORIENTATION_OFFSET = 1"

text \<open>\<open>app_main\<close> up to the choice of the role; the flags are the mutexes of the components.\<close>

definition main_create :: "bool \<Rightarrow> bool \<Rightarrow> 'a board_scheme \<Rightarrow> 'a board_scheme" where
  "main_create ss_mutex_ok rt_mutex_ok d =
     (let ori = node_get_device_orientation d; is_center_root = node_is_device_center_root d;
          (ok, s, rs) = sync_init (rsh d) (ori + ROUTING_ORIENTATION_OFFSET);
          d1 = d\<lparr>sy := s, rsh := rs\<rparr>;
          d2 = snd (ss_init ss_mutex_ok (ori + ROUTING_ORIENTATION_OFFSET) d1);
          d3 = snd (rt_create rt_mutex_ok (ori + ROUTING_ORIENTATION_OFFSET) d2)
      in if ori = NODE_DEVICE_ORIENTATION_CENTER
         then if is_center_root
              then rt_init_root ROOT_NETWORK ROOT_MASK (node_set_routing_hook ROUTING_HOOK_ROOT_CENTER d3)
              else rt_init_home (node_set_routing_hook ROUTING_HOOK_HOME d3)
         else rt_init_forwarder (node_set_routing_hook ROUTING_HOOK_FORWARDER d3))"

definition app_main :: "bool \<Rightarrow> bool \<Rightarrow> 'a board_scheme \<Rightarrow> 'a board_scheme option" where
  "app_main ss_mutex_ok rt_mutex_ok d =
     do { d1 \<leftarrow> rt_on_start (main_create ss_mutex_ok rt_mutex_ok d);
          let d2 = rt_on_tick 1 d1;
          let ori = node_get_device_orientation d;
          let is_center_root = node_is_device_center_root d;
          d3 \<leftarrow> (if ori = NODE_DEVICE_ORIENTATION_CENTER \<and> is_center_root
                  then node_set_as_ap ROOT_NETWORK ROOT_MASK d2 else Some d2);
          d4 \<leftarrow> (if ori \<noteq> NODE_DEVICE_ORIENTATION_CENTER \<and> \<not> is_center_root
                  then node_set_as_sta d3 else Some d3);
          Some (driver ''create_task_routing'' [] d4) }"

definition routing_task_round :: "'a board_scheme \<Rightarrow> 'a board_scheme" where
  "routing_task_round d = rt_on_tick 1000 (delay_ms 1000 d)"

section \<open>The waits come to an end\<close>

lemma reliable_one_byte: "reliable (env l) \<Longrightarrow> \<exists>l'. rs_broadcast c [x] l = (True, l') \<and> env l' = env l \<and> s_config l' = s_config l"
  using reliable_broadcast [of l "[x]" c] by (auto simp: reliable_def link_step_def)

lemma reset_sent_at_once:
  assumes "reliable (env (lk d))" "rm_rs_set (rmgr d)"
  shows "\<exists>d'. until_sent rm_broadcast_reset (Suc k) d = Some d' \<and> env (lk d') = env (lk d) \<and>
    s_config (lk d') = s_config (lk d) \<and> rm_rs_set (rmgr d') \<and> rm_is_up (rmgr d') = rm_is_up (rmgr d)"
proof -
  obtain l where "rs_broadcast RS_RESET_MANAGER [RM_OPCODE_RESET] (tick (lk d)) = (True, l)"
      "env l = env (lk d)" "s_config l = s_config (lk d)"
    using reliable_one_byte [of "tick (lk d)" RS_RESET_MANAGER RM_OPCODE_RESET] assms(1) by auto
  then show ?thesis using assms(2) by (simp add: rm_broadcast_reset_def Let_def)
qed

lemma startup_broadcast_ok:
  assumes "reliable (env l)" "16 \<le> ring_link_netif_mtu (env l)" "rm_rs_set rm"
  shows "\<exists>rm' l'. rm_broadcast_startup_info root rm l = (True, rm', l') \<and> rm_is_up rm' \<and> rm_is_root rm' = root"
proof -
  have sent: "\<exists>l'. rs_broadcast RS_RESET_MANAGER (startup_bytes \<lparr>sp_opcode = RM_OPCODE_STARTUP,
      sp_uuid = strncpy_bytes UUID_LENGTH u, sp_is_root = b\<rparr>) l = (True, l')" for u b
    using reliable_broadcast [OF assms(1), of "startup_bytes \<lparr>sp_opcode = RM_OPCODE_STARTUP,
      sp_uuid = strncpy_bytes UUID_LENGTH u, sp_is_root = b\<rparr>" RS_RESET_MANAGER] assms(2)
    by (auto simp: startup_bytes_def UUID_LENGTH_def)
  show ?thesis
    using sent [of "strncpy_bytes UUID_LENGTH ROOT_UUID" 1] sent [of "strncpy_bytes UUID_LENGTH (rm_mac rm)" 0] assms(3)
    by (cases root) (auto simp: rm_broadcast_startup_info_def Let_def)
qed

lemma center_setup_ends:
  assumes "reliable (env (lk d))" "16 \<le> ring_link_netif_mtu (env (lk d))" "rm_rs_set (rmgr d)"
  shows "\<exists>d'. node_setup_center (Suc k) d = Some d' \<and> rm_is_up (rmgr d')"
proof -
  obtain d1 where d1: "until_sent rm_broadcast_reset (Suc k) d = Some d1" "env (lk d1) = env (lk d)" "rm_rs_set (rmgr d1)"
    using reset_sent_at_once [OF assms(1,3), of k] by blast
  define root where "root = config_mode_is CONFIG_MODE_ROOT (s_config (lk d1))"
  let ?d2 = "delay_ms 10000 d1"
  have "env (lk ?d2) = env (lk d)" "rmgr ?d2 = rmgr d1"
    using d1(2) by (simp_all add: delay_ms_def vTaskDelay_ms_def)
  then obtain rm' l' where "rm_broadcast_startup_info root (rmgr ?d2) (lk ?d2) = (True, rm', l')" "rm_is_up rm'"
    using startup_broadcast_ok [of "lk ?d2" "rmgr ?d2" root] assms(1,2) d1(3) by auto
  then have "until_sent (rm_broadcast_startup_info root) (Suc k) ?d2 = Some (?d2\<lparr>rmgr := rm', lk := l'\<rparr>)"
    "rm_is_up (rmgr (?d2\<lparr>rmgr := rm', lk := l'\<rparr>))"
    by simp_all
  with d1(1) show ?thesis
    unfolding node_setup_center_def root_def by (simp del: until_sent.simps)
qed

lemma up_ends_wait: "rm_is_up (rmgr d) \<Longrightarrow> wait_until_up others (Suc k) n d = Some d"
  by (simp add: rm_is_device_up_def)

lemma one_wait:
  assumes "reliable (env (lk d))" "rm_rs_set (rmgr d)" "\<not> rm_is_up (rmgr d)"
  shows "\<exists>d2. wait_until_up others (Suc k) n d = wait_until_up others k (Suc n) (others n (delay_ms 100 d2)) \<and>
    env (lk d2) = env (lk d) \<and> rm_rs_set (rmgr d2)"
proof -
  obtain should l where s: "rm_should_device_reset (rmgr d) (lk d) = (should, l)" "env l = env (lk d)"
    by (cases "rm_should_device_reset (rmgr d) (lk d)") (auto simp: rm_should_device_reset_def)
  let ?d1 = "d\<lparr>lk := l\<rparr>"
  have 1: "reliable (env (lk ?d1))" "rm_rs_set (rmgr ?d1)" using assms s(2) by simp_all
  obtain d2 where "(if should then until_sent rm_broadcast_reset (Suc k) ?d1 else Some ?d1) = Some d2"
      "env (lk d2) = env (lk d)" "rm_rs_set (rmgr d2)"
  proof (cases should)
    case True
    with reset_sent_at_once [OF 1, of k] s(2) that show thesis by fastforce
  next
    case False
    with that 1(2) s(2) show thesis by simp
  qed
  with assms(3) s(1) show ?thesis
    by (intro exI [of _ d2]) (simp add: rm_is_device_up_def del: until_sent.simps)
qed

lemma wait_ends:
  assumes "reliable (env (lk d))" "rm_rs_set (rmgr d)"
    and "\<forall>i x. env (lk (others i x)) = env (lk x) \<and> (rm_rs_set (rmgr x) \<longrightarrow> rm_rs_set (rmgr (others i x)))"
    and "\<forall>x. rm_is_up (rmgr (others (n + j) x))"
  shows "\<exists>d'. wait_until_up others (Suc (Suc j) + k) n d = Some d' \<and> rm_is_up (rmgr d')"
  using assms(1,2,4)
proof (induction j arbitrary: n d)
  case (0 n d)
  show ?case
  proof (cases "rm_is_up (rmgr d)")
    case False
    from one_wait [OF "0.prems"(1,2) this, of others "Suc k" n] "0.prems"(3) show ?thesis
      by (auto simp: up_ends_wait simp del: wait_until_up.simps)
  qed (simp add: up_ends_wait del: wait_until_up.simps)
next
  case (Suc j n d)
  show ?case
  proof (cases "rm_is_up (rmgr d)")
    case False
    obtain d2 where d2: "wait_until_up others (Suc (Suc (Suc j) + k)) n d =
        wait_until_up others (Suc (Suc j) + k) (Suc n) (others n (delay_ms 100 d2))"
      "env (lk d2) = env (lk d)" "rm_rs_set (rmgr d2)"
      using one_wait [OF Suc.prems(1,2) False] by blast
    let ?d3 = "others n (delay_ms 100 d2)"
    have "reliable (env (lk ?d3))" "rm_rs_set (rmgr ?d3)" "\<forall>x. rm_is_up (rmgr (others (Suc n + j) x))"
      using assms(3) Suc.prems d2(2,3) by (simp_all add: delay_ms_def vTaskDelay_ms_def)
    from Suc.IH [OF this] d2(1) show ?thesis by (simp del: wait_until_up.simps)
  qed (simp add: up_ends_wait del: wait_until_up.simps)
qed

lemma ring_link_init_env:
  assumes "ring_link_init a ns l = Some (rc, s, ns', l')"
  shows "env l' = env l"
  using assms by (auto simp: ring_link_init_def ring_link_netif_init_def ring_link_rx_netif_init_def
      ring_link_tx_netif_init_def Let_def split: Option.bind_splits if_splits prod.splits)

lemma event_queues_lk: "lk (snd (node_init_event_queues ok d)) = lk d"
  by (simp add: node_init_event_queues_def)

lemma event_tasks_env: "env (lk (snd (node_start_event_tasks b1 b2 b3 d))) = env (lk d)"
  by (simp add: node_start_event_tasks_def Let_def driver_def)

lemma internal_messages_env:
  assumes "node_setup_internal_messages ok ori d = Some d'"
  shows "env (lk d') = env (lk d) \<and> rm_rs_set (rmgr d') \<and> nd d' = nd d"
  using assms by (auto simp: node_setup_internal_messages_def rs_init_def sb_register_callback_def pm_init_def
      im_init_def rm_init_def os_panic_def Let_def split: Option.bind_splits if_splits)

lemma wifi_init_env: "env (lk (snd (device_wifi_init rc again d))) = env (lk d)"
  "rmgr (snd (device_wifi_init rc again e)) = rmgr e" "nd (snd (device_wifi_init rc again e)) = nd e"
  by (simp_all add: device_wifi_init_def init_nvs_def driver_def)

lemma layers_result:
  assumes "node_setup_layers ip4 bits a d = Some d1"
  shows "env (lk d1) = env (lk d) \<and> rm_rs_set (rmgr d1) \<and>
    node_orientation (nd d1) = (if drop_bit 2 bits = 0 then bits else NODE_DEVICE_ORIENTATION_CENTER)"
proof -
  obtain rc1 x1 where 1: "node_init_event_queues (queues_ok a) d = (rc1, x1)" by fastforce
  obtain rc2 x2 where 2: "node_start_event_tasks (task1_ok a) (task2_ok a) (task3_ok a) x1 = (rc2, x2)" by fastforce
  define x3 where "x3 = x2\<lparr>lk := (lk x2)\<lparr>s_config := config_setup ip4 bits (s_config (lk x2))\<rparr>\<rparr>"
  define ori where "ori = node_get_config_orientation (s_config (lk x3))"
  define x4 where "x4 = upd_nd (\<lambda>n. n\<lparr>node_orientation := ori\<rparr>) x3"
  obtain x5 where 5: "node_setup_internal_messages (rs_mutex_ok a) ori x4 = Some x5"
    using assms 1 2 by (auto simp: node_setup_layers_def x4_def ori_def x3_def Let_def
        split: if_splits Option.bind_splits)
  define x6 where "x6 = delay_ms (ucast ori * (CALIBRATION_DELAY_SECONDS * 1000)) x5"
  obtain rc3 x7 where 7: "device_wifi_init (nvs_rc a) (nvs_again_rc a) x6 = (rc3, x7)" by fastforce
  obtain rc4 pool ns l where 8: "ring_link_init (ring_ans a) (nif x7) (lk x7) = Some (rc4, pool, ns, l)"
    and d1: "d1 = x7\<lparr>rxp := pool, nif := ns, lk := l\<rparr>"
    using assms 1 2 5 7 by (auto simp: node_setup_layers_def x4_def ori_def x3_def x6_def Let_def
        split: if_splits Option.bind_splits)
  have o: "ori = (if drop_bit 2 bits = 0 then bits else NODE_DEVICE_ORIENTATION_CENTER)"
    by (simp add: ori_def x3_def node_get_config_orientation_def config_setup_def config_get_id_def Let_def)
  have "env (lk x2) = env (lk d)"
    using event_queues_lk [of "queues_ok a" d] event_tasks_env [of "task1_ok a" "task2_ok a" "task3_ok a" x1] 1 2 by simp
  then have "env (lk x4) = env (lk d)" "node_orientation (nd x4) = ori"
    by (simp_all add: x4_def x3_def upd_nd_def)
  with internal_messages_env [OF 5] have "env (lk x6) = env (lk d)" "rm_rs_set (rmgr x6)" "node_orientation (nd x6) = ori"
    by (simp_all add: x6_def delay_ms_def vTaskDelay_ms_def)
  then have "env (lk x7) = env (lk d)" "rm_rs_set (rmgr x7)" "node_orientation (nd x7) = ori"
    using wifi_init_env [of "nvs_rc a" "nvs_again_rc a" x6] 7 by simp_all
  with ring_link_init_env [OF 8] o show ?thesis by (simp add: d1)
qed

text \<open>No driver and no allocation fails during the setup.\<close>

definition answers_ok :: "setup_answers \<Rightarrow> bool" where
  "answers_ok a \<longleftrightarrow> queues_ok a \<and> task1_ok a \<and> task2_ok a \<and> task3_ok a \<and> rs_mutex_ok a \<and> nvs_rc a = ESP_OK \<and>
     (let r = ring_ans a in (\<forall>c. spi_answer r c = ESP_OK) \<and> spi_queues_ok r \<and> bcast_mutex_ok r \<and> internal_queue_ok r \<and>
        internal_task_ok r \<and> netif_new_ok r \<and> netif_calloc_ok r \<and> netif_mac_rc r = ESP_OK \<and>
        netif_queue_ok r \<and> netif_task_ok r \<and> ring_task_ok r)"

lemma ring_link_init_ok:
  assumes "answers_ok a"
  shows "\<exists>s ns' l'. ring_link_init (ring_ans a) ns l = Some (ESP_OK, s, ns', l')"
  using assms by (simp add: answers_ok_def Let_def ring_link_init_def ring_link_lowlevel_init_def spi_init_def spi_rx_init_def
      spi_tx_init_def ring_link_internal_init_def broadcast_init_def ring_link_netif_init_def ring_link_rx_netif_init_def
      ring_link_tx_netif_init_def ring_link_netif_esp_netif_attach_def ring_link_netif_new_def)

lemma orientation_formation: "\<exists>ch. aget formation_1 (unat (node_get_config_orientation (config_setup ip4 bits c))) = Some ch"
proof -
  have "unat bits < 4" if "drop_bit 2 bits = 0"
    using arg_cong [OF that, of unat] by (simp add: drop_bit_eq_div unat_div_distrib)
  then have "unat (node_get_config_orientation (config_setup ip4 bits c)) < 5"
    by (auto simp: node_get_config_orientation_def config_setup_def config_get_id_def
        NODE_DEVICE_ORIENTATION_CENTER_def Let_def)
  then show ?thesis by (simp add: aget_def formation_1_def)
qed

lemma internal_messages_ok:
  assumes "aget formation_1 (unat ori) = Some ch"
  shows "\<exists>d'. node_setup_internal_messages True ori d = Some d'"
  using assms by (simp add: node_setup_internal_messages_def rs_init_def cm_init_def case_prod_unfold Let_def)

lemma layers_ok:
  assumes "answers_ok a"
  shows "\<exists>d1. node_setup_layers ip4 bits a d = Some d1"
proof -
  note o = assms [unfolded answers_ok_def]
  obtain x1 where 1: "node_init_event_queues (queues_ok a) d = (ESP_OK, x1)"
    using o by (simp add: node_init_event_queues_def)
  obtain x2 where 2: "node_start_event_tasks (task1_ok a) (task2_ok a) (task3_ok a) x1 = (ESP_OK, x2)"
    using o by (simp add: node_start_event_tasks_def)
  define c where "c = config_setup ip4 bits (s_config (lk x2))"
  define x4 where "x4 = upd_nd (\<lambda>n. n\<lparr>node_orientation := node_get_config_orientation c\<rparr>)
     (x2\<lparr>lk := (lk x2)\<lparr>s_config := c\<rparr>\<rparr>)"
  obtain ch where "aget formation_1 (unat (node_get_config_orientation c)) = Some ch"
    using orientation_formation c_def by blast
  then obtain x5 where 5: "node_setup_internal_messages (rs_mutex_ok a) (node_get_config_orientation c) x4 = Some x5"
    using internal_messages_ok [of "node_get_config_orientation c" ch x4] o by auto
  define x6 where "x6 = delay_ms (ucast (node_get_config_orientation c) * (CALIBRATION_DELAY_SECONDS * 1000)) x5"
  obtain x7 where 7: "device_wifi_init (nvs_rc a) (nvs_again_rc a) x6 = (ESP_OK, x7)"
    using o by (simp add: device_wifi_init_def init_nvs_def nvs_needs_erase_def)
  obtain s ns l where 8: "ring_link_init (ring_ans a) (nif x7) (lk x7) = Some (ESP_OK, s, ns, l)"
    using ring_link_init_ok [OF assms] by blast
  show ?thesis
    using 5 7 8 by (simp add: node_setup_layers_def 1 2 Let_def c_def [symmetric] x4_def [symmetric] x6_def [symmetric])
qed

lemma setup_finish_rmgr: "rmgr (node_setup_finish d) = rmgr d" "node_uuid (nd (node_setup_finish d)) = rm_uuid (rmgr d)"
  "node_is_center_root (nd (node_setup_finish d)) = rm_is_root (rmgr d)"
  by (simp_all add: node_setup_finish_def im_scheduler_start_def driver_def upd_nd_def rm_get_uuid_def)

section \<open>The role of a board\<close>

lemma node_set_as_sta_keeps:
  assumes "node_set_as_sta d = Some d'"
  shows "keeps_routing d d'"
proof -
  define d0 where "d0 = (if dev_mode (dev d) \<noteq> NAN then device_reset d else d)"
  have 0: "keeps_routing d d0" by (simp add: d0_def routing_kept)
  from assms show ?thesis
    unfolding node_set_as_sta_def Let_def d0_def [symmetric]
    using 0 by (auto simp: routing_kept dest!: keeps_routing_init [where a = d] split: Option.bind_splits)
qed

lemma request_keeps_more:
  assumes "sync_request_critical_section c d = Some d'"
  shows "sync_impl (sy d') = sync_impl (sy d)" "wl_callbacks d' = wl_callbacks d"
    "rt_sys.more d' = rt_sys.more d"
proof -
  have b: "sync_impl (sy (sync_broadcast m x)) = sync_impl (sy x) \<and> wl_callbacks (sync_broadcast m x) = wl_callbacks x \<and>
      rt_sys.more (sync_broadcast m x) = rt_sys.more x" for m and x :: "'a rt_sys_scheme"
    by (simp add: sync_broadcast_def board_broadcast_def case_prod_unfold Let_def)
  show "sync_impl (sy d') = sync_impl (sy d)" "wl_callbacks d' = wl_callbacks d" "rt_sys.more d' = rt_sys.more d"
    using assms
    by (auto simp: sync_request_critical_section_def leader_request_critical_section_def b
        follower_request_critical_section_def issue_new_token_def on_leader_def Let_def
        split: sync_impl.splits if_splits Option.bind_splits)
qed

definition role_of :: "u8 \<Rightarrow> bool \<Rightarrow> rt_role" where
  "role_of ori is_root =
     (if ori \<noteq> NODE_DEVICE_ORIENTATION_CENTER then ForwarderRole forwarder_start
      else if is_root
      then RootRole \<lparr>root_network = NETWORK ROOT_NETWORK ROOT_MASK, gateway_requested = False,
             gateway_requested_timeout = 0\<rparr>
      else HomeRole \<lparr>is_provisioned = False\<rparr>)"

definition hook_of :: "u8 \<Rightarrow> bool \<Rightarrow> routing_hook" where
  "hook_of ori is_root = (if ori \<noteq> NODE_DEVICE_ORIENTATION_CENTER then HookForwarder
     else if is_root then HookRootCenter else HookHome)"

lemma main_create_roles:
  assumes "length (rs_components (rsh d)) = RS_MAX_COMPONENTS"
  shows "rt (main_create True True d) = routing_zero\<lparr>rt_orientation := node_orientation (nd d) + 1,
      rt_role := role_of (node_orientation (nd d)) (node_is_center_root (nd d))\<rparr>"
    "node_table (main_create True True d) = routing_table_init ORIENTATION_CENTER"
    "sync_impl (sy (main_create True True d)) =
      (if node_orientation (nd d) = NODE_DEVICE_ORIENTATION_CENTER then LEADER_IMPL else FOLLOWER_IMPL)"
    "wl_callbacks (main_create True True d) = RoutingCallbacks"
    "selected_routing_hook (hk (main_create True True d)) =
      hook_of (node_orientation (nd d)) (node_is_center_root (nd d))"
    "\<exists>cbs. rs_components (rsh (main_create True True d)) = cbs \<and> length cbs = RS_MAX_COMPONENTS \<and>
      cbs ! component_num RS_SYNC = Some SyncOnSibling \<and>
      cbs ! component_num RS_SHARED_STATE = Some SharedStateOnSibling"
  using assms
  by (simp_all add: main_create_def sync_init_def ss_init_def rt_create_def ss_watch_def role_of_def hook_of_def
      node_get_device_orientation_def node_is_device_center_root_def node_set_routing_hook_def rt_init_root_def
      rt_init_home_def rt_init_forwarder_def create_root_core_def create_home_core_def create_forwarder_core_def
      set_root_def upd_rt_def routing_zero_def sync_leader_init_def sync_follower_init_def rs_register_component_def
      sync_register_critical_section_def ROUTING_ORIENTATION_OFFSET_def NODE_DEVICE_ORIENTATION_CENTER_def
      ORIENTATION_CENTER_def RS_MAX_COMPONENTS_def Let_def)

lemma rt_on_start_result:
  assumes "rt_on_start d = Some d'" "length (rs_components (rsh d)) = RS_MAX_COMPONENTS"
  shows "rt d' = (rt d)\<lparr>internal_queue := [SiblOnStart]\<rparr>" "node_table d' = node_table d"
    "sync_impl (sy d') = sync_impl (sy d)" "wl_callbacks d' = wl_callbacks d"
    "rs_components (rsh d') = (rs_components (rsh d))[component_num RS_ROUTING := Some RoutingOnSibling]"
    "rt_sys.more d' = rt_sys.more d"
  using request_keeps [OF assms(1) [unfolded rt_on_start_def Let_def]]
    request_keeps_more [OF assms(1) [unfolded rt_on_start_def Let_def]]
  by (simp_all add: upd_rt_def delay_ms_def vTaskDelay_ms_def rs_register_component_def)

lemma app_main_routing:
  assumes "app_main True True d = Some d'" "length (rs_components (rsh d)) = RS_MAX_COMPONENTS"
  obtains d1 where "rt_on_start (main_create True True d) = Some d1" "keeps_routing d1 d'"
proof -
  note M = main_create_roles [OF assms(2)]
  obtain d1 where d1: "rt_on_start (main_create True True d) = Some d1"
    using assms(1) by (auto simp: app_main_def split: Option.bind_splits)
  have "rt d1 = (rt (main_create True True d))\<lparr>internal_queue := [SiblOnStart]\<rparr>"
    using rt_on_start_result(1) [OF d1] M(6) by auto
  then have tick: "rt_on_tick 1 d1 = d1"
    using M(1) by (auto simp: rt_on_tick_def role_of_def root_on_tick_def)
  have "keeps_routing d1 d'"
    using assms(1) d1 by (auto simp: app_main_def tick Let_def routing_kept split: Option.bind_splits if_splits
        dest!: node_set_as_ap_keeps node_set_as_sta_keeps intro: keeps_routing_trans)
  with d1 that show ?thesis by blast
qed

lemma same_hook: "rt_sys.more d' = rt_sys.more d \<Longrightarrow> hk d' = hk d" for d d' :: "'a board_scheme"
  by (cases d; cases d') simp

lemma app_main_result:
  assumes "app_main True True d = Some d'" "length (rs_components (rsh d)) = RS_MAX_COMPONENTS"
  defines "ori \<equiv> node_orientation (nd d)" and "root \<equiv> node_is_center_root (nd d)"
  shows "rt d' = \<lparr>rt_orientation = ori + 1, external_queue = [], internal_queue = [SiblOnStart],
       rt_role = role_of ori root\<rparr>"
    and "selected_routing_hook (hk d') = hook_of ori root"
    and "sync_impl (sy d') = (if ori = NODE_DEVICE_ORIENTATION_CENTER then LEADER_IMPL else FOLLOWER_IMPL)"
    and "node_table d' = routing_table_init ORIENTATION_CENTER" "wl_callbacks d' = RoutingCallbacks"
    and "rs_components (rsh d') ! component_num RS_SYNC = Some SyncOnSibling"
    and "rs_components (rsh d') ! component_num RS_SHARED_STATE = Some SharedStateOnSibling"
    and "rs_components (rsh d') ! component_num RS_ROUTING = Some RoutingOnSibling"
proof -
  note M = main_create_roles [OF assms(2)]
  obtain cbs where cbs: "rs_components (rsh (main_create True True d)) = cbs" "length cbs = RS_MAX_COMPONENTS"
      "cbs ! component_num RS_SYNC = Some SyncOnSibling" "cbs ! component_num RS_SHARED_STATE = Some SharedStateOnSibling"
    using M(6) by blast
  obtain d1 where d1: "rt_on_start (main_create True True d) = Some d1" and k: "keeps_routing d1 d'"
    using app_main_routing [OF assms(1,2)] by blast
  note S = rt_on_start_result [OF d1, unfolded cbs(1), OF cbs(2)]
  have K: "rt d' = rt d1" "sy d' = sy d1" "rsh d' = rsh d1" "node_table d' = node_table d1"
      "wl_callbacks d' = wl_callbacks d1"
    using k by (simp_all add: keeps_routing_def)
  show "rt d' = \<lparr>rt_orientation = ori + 1, external_queue = [], internal_queue = [SiblOnStart],
       rt_role = role_of ori root\<rparr>"
    using S(1) M(1) by (simp add: K ori_def root_def routing_zero_def)
  have "rt_sys.more d' = rt_sys.more (main_create True True d)" using S(6) k by (simp add: keeps_routing_def)
  from same_hook [OF this] show "selected_routing_hook (hk d') = hook_of ori root"
    using M(5) by (simp add: ori_def root_def)
  show "sync_impl (sy d') = (if ori = NODE_DEVICE_ORIENTATION_CENTER then LEADER_IMPL else FOLLOWER_IMPL)"
    using S(3) M(3) by (simp add: K ori_def)
  show "node_table d' = routing_table_init ORIENTATION_CENTER" "wl_callbacks d' = RoutingCallbacks"
    using S(2,4) M(2,4) by (simp_all add: K)
  show "rs_components (rsh d') ! component_num RS_SYNC = Some SyncOnSibling"
    "rs_components (rsh d') ! component_num RS_SHARED_STATE = Some SharedStateOnSibling"
    "rs_components (rsh d') ! component_num RS_ROUTING = Some RoutingOnSibling"
    using S(5) cbs by (simp_all add: K RS_MAX_COMPONENTS_def)
qed

section \<open>Properties\<close>

text \<open>
  Property C19 (startup): when no driver and no allocation fails (\<open>answers_ok\<close>) and the ring takes
  every frame and brings every notice in time (\<open>reliable\<close>), the setup of a board comes to its end.
  One round of each of its loops is enough for the center; another board is done at the latest
  two rounds after the delay in which the message of the center comes in, whatever else its other
  tasks do. When it ends the board is up and knows the name of its node and whether that is the root.
\<close>

theorem node_setup_ends:
  assumes "answers_ok a"
    and "reliable (env (lk d))" "16 \<le> ring_link_netif_mtu (env (lk d))"
    and "if drop_bit 2 bits \<noteq> 0 then 1 \<le> fuel
      else arrival + 2 \<le> fuel \<and> (\<forall>x. rm_is_up (rmgr (others arrival x))) \<and>
        (\<forall>i x. env (lk (others i x)) = env (lk x) \<and> (rm_rs_set (rmgr x) \<longrightarrow> rm_rs_set (rmgr (others i x))))"
  shows "\<exists>d'. node_setup ip4 bits a others fuel d = Some d' \<and> rm_is_up (rmgr d') \<and>
    node_uuid (nd d') = rm_uuid (rmgr d') \<and> node_is_center_root (nd d') = rm_is_root (rmgr d')"
proof -
  obtain d1 where d1: "node_setup_layers ip4 bits a d = Some d1" using layers_ok [OF assms(1)] by blast
  then have 1: "env (lk d1) = env (lk d)" "rm_rs_set (rmgr d1)"
    and ori: "node_orientation (nd d1) = (if drop_bit 2 bits = 0 then bits else NODE_DEVICE_ORIENTATION_CENTER)"
    using layers_result by blast+
  have "\<exists>d2. (if node_orientation (nd d1) = NODE_DEVICE_ORIENTATION_CENTER then node_setup_center fuel d1
      else wait_until_up others fuel 0 d1) = Some d2 \<and> rm_is_up (rmgr d2)"
  proof (cases "drop_bit 2 bits = 0")
    case False
    with assms(4) obtain k where "fuel = Suc k" by (cases fuel) auto
    with center_setup_ends [of d1 k] assms(2,3) 1 ori False show ?thesis by simp
  next
    case True
    with assms(4) obtain k where k: "fuel = Suc (Suc arrival) + k"
      using le_Suc_ex [of "arrival + 2" fuel] by auto
    have "bits \<noteq> NODE_DEVICE_ORIENTATION_CENTER" using True by (auto simp: NODE_DEVICE_ORIENTATION_CENTER_def)
    with wait_ends [of d1 others 0 arrival k] assms(2,4) 1 ori True k show ?thesis by simp
  qed
  then show ?thesis
    using d1 by (auto simp: node_setup_def setup_finish_rmgr)
qed

definition ready_answers :: setup_answers where
  "ready_answers = \<lparr>queues_ok = True, task1_ok = True, task2_ok = True, task3_ok = True,
     rs_mutex_ok = True, nvs_rc = ESP_OK, nvs_again_rc = ESP_OK,
     ring_ans = \<lparr>spi_freq = 8000000, spi_answer = (\<lambda>_. ESP_OK), spi_queues_ok = True, bcast_mutex_ok = True,
       internal_queue_ok = True, internal_task_ok = True, netif_new_ok = True, netif_calloc_ok = True,
       netif_mac_rc = ESP_OK, netif_queue_ok = True, netif_task_ok = True, ring_task_ok = True\<rparr>\<rparr>"

theorem node_setup_ends_witness:
  "(\<exists>d'. node_setup (\<lambda>_ _ _ _. 0) 4 ready_answers (\<lambda>_ x. x) 1 (board_start quiet_env) = Some d' \<and>
     rm_is_up (rmgr d')) \<and>
   (\<exists>d'. node_setup (\<lambda>_ _ _ _. 0) 1 ready_answers
       (\<lambda>i x. if i = 3 then x\<lparr>rmgr := (rmgr x)\<lparr>rm_is_up := True\<rparr>\<rparr> else x) 5 (board_start quiet_env) = Some d' \<and>
     rm_is_up (rmgr d'))"
proof -
  have a: "answers_ok ready_answers" by (simp add: ready_answers_def answers_ok_def)
  have "env (lk (board_start quiet_env)) = quiet_env"
    by (simp add: board_start_def hk_sys.extend_def hook_start_defs link_init_def)
  then have l: "reliable (env (lk (board_start quiet_env)))" "16 \<le> ring_link_netif_mtu (env (lk (board_start quiet_env)))"
    by (simp_all add: reliable_def quiet_env_def ring_link_netif_mtu_def)
  have center: "drop_bit 2 (4 :: u8) \<noteq> 0" and outer: "drop_bit 2 (1 :: u8) = 0" by (simp_all add: drop_bit_eq_div word_div_def)
  let ?others = "\<lambda>i x. if i = 3 then x\<lparr>rmgr := (rmgr x)\<lparr>rm_is_up := True\<rparr>\<rparr> else x"
  have "\<forall>i x. env (lk (?others i x)) = env (lk x) \<and> (rm_rs_set (rmgr x) \<longrightarrow> rm_rs_set (rmgr (?others i x)))"
    "\<forall>x. rm_is_up (rmgr (?others (3 :: nat) x))" by simp_all
  then have "if drop_bit 2 (1 :: u8) \<noteq> 0 then (1 :: nat) \<le> 5 else (3 :: nat) + 2 \<le> 5 \<and> (\<forall>x. rm_is_up (rmgr (?others 3 x))) \<and>
      (\<forall>i x. env (lk (?others i x)) = env (lk x) \<and> (rm_rs_set (rmgr x) \<longrightarrow> rm_rs_set (rmgr (?others i x))))"
    using outer by simp
  from node_setup_ends [OF a l this, of "\<lambda>_ _ _ _. 0"] node_setup_ends [OF a l, of 4 1 0 "\<lambda>_ x. x" "\<lambda>_ _ _ _. 0"] center
  show ?thesis by auto
qed

text \<open>
  Property C18 (startup): when the program is through with its start the board has the role of its
  position: the center is the leader of the lock, and the root or the home of the node; any other
  board is a follower and a forwarder. The packets are routed accordingly, everything goes to the
  center to begin with, the messages of the siblings for the lock, the shared table and the routing
  reach their components, and the start of the routing protocol is the only event that waits.
\<close>

theorem app_main_roles:
  assumes "app_main True True d = Some d'" "length (rs_components (rsh d)) = RS_MAX_COMPONENTS"
  shows "rt d' = \<lparr>rt_orientation = node_orientation (nd d) + 1, external_queue = [], internal_queue = [SiblOnStart],
       rt_role = role_of (node_orientation (nd d)) (node_is_center_root (nd d))\<rparr> \<and>
     selected_routing_hook (hk d') = hook_of (node_orientation (nd d)) (node_is_center_root (nd d)) \<and>
     sync_impl (sy d') = (if node_orientation (nd d) = NODE_DEVICE_ORIENTATION_CENTER then LEADER_IMPL else FOLLOWER_IMPL) \<and>
     node_table d' = routing_table_init ORIENTATION_CENTER \<and> wl_callbacks d' = RoutingCallbacks \<and>
     rs_components (rsh d') ! component_num RS_SYNC = Some SyncOnSibling \<and>
     rs_components (rsh d') ! component_num RS_SHARED_STATE = Some SharedStateOnSibling \<and>
     rs_components (rsh d') ! component_num RS_ROUTING = Some RoutingOnSibling"
  using app_main_result [OF assms] by simp

definition started_board :: board where
  "started_board = (board_start quiet_env)\<lparr>rsh := ring_share_zero,
     nd := (nd (board_start quiet_env))\<lparr>node_orientation := 1, node_is_center_root := True\<rparr>\<rparr>"

lemma forwarder_starts:
  assumes "length (rs_components (rsh d)) = RS_MAX_COMPONENTS"
    and "node_orientation (nd d) \<noteq> NODE_DEVICE_ORIENTATION_CENTER" "node_is_center_root (nd d)"
  shows "\<exists>d'. app_main True True d = Some d'"
proof -
  let ?e = "main_create True True d"
  have "sync_impl (sy ?e) = FOLLOWER_IMPL" using main_create_roles(3) [OF assms(1)] assms(2) by simp
  then obtain d1 where "rt_on_start ?e = Some d1"
    by (auto simp: rt_on_start_def Let_def upd_rt_def delay_ms_def vTaskDelay_ms_def
        sync_request_critical_section_def follower_request_critical_section_def)
  with assms(2,3) show ?thesis
    by (simp add: app_main_def node_get_device_orientation_def node_is_device_center_root_def Let_def)
qed

lemma started_board_runs: "\<exists>d'. app_main True True started_board = Some d'"
  by (rule forwarder_starts) (simp_all add: started_board_def ring_share_zero_def NODE_DEVICE_ORIENTATION_CENTER_def)

theorem app_main_roles_witness:
  "\<exists>d'. app_main True True started_board = Some d' \<and> rt_role (rt d') = ForwarderRole forwarder_start \<and>
     selected_routing_hook (hk d') = HookForwarder \<and>
     internal_queue (rt d') = [SiblOnStart] \<and> sync_impl (sy d') = FOLLOWER_IMPL"
proof -
  obtain d' where "app_main True True started_board = Some d'" using started_board_runs by blast
  with app_main_roles [OF this] show ?thesis
    by (simp add: started_board_def ring_share_zero_def role_of_def hook_of_def NODE_DEVICE_ORIENTATION_CENTER_def)
qed

end
