(* ===== verification/Board_Types.thy ===== *)
theory Board_Types
  imports Startup
begin

text \<open>
  The types of a board's memory: a board is well formed when its arrays have the lengths that the
  program declares, its queues hold no more than they have room for, the callbacks stand where
  their components registered them, and the tables and networks are as their components keep them.
  Here the handlers of the messages and the rounds of the tasks are shown to keep a board well
  formed; \<open>Board_Life\<close> has the steps and the life of a board.
\<close>

section \<open>Well-formed boards\<close>

primrec callback_component :: "rs_callback \<Rightarrow> component_id" where
  "callback_component SyncOnSibling = RS_SYNC"
| "callback_component RoutingOnSibling = RS_ROUTING"
| "callback_component SharedStateOnSibling = RS_SHARED_STATE"
| "callback_component ChannelManagerOnSibling = RS_CHANNEL_MANAGER"
| "callback_component ResetManagerOnSibling = RS_RESET_MANAGER"
| "callback_component InfoManagerOnSibling = RS_INFO_MANAGER"
| "callback_component PriorityManagerOnSibling = RS_PRIORITY_MANAGER"

definition rs_ok :: "ring_share \<Rightarrow> bool" where
  "rs_ok rs \<longleftrightarrow> length (rs_components rs) = RS_MAX_COMPONENTS \<and>
     (\<forall>i < RS_MAX_COMPONENTS. case rs_components rs ! i of
        None \<Rightarrow> True | Some cb \<Rightarrow> i = component_num (callback_component cb))"

definition ss_ok :: "shared_state \<Rightarrow> bool" where
  "ss_ok s \<longleftrightarrow> length (ss_data s) = RS_LAST_COMPONENT_ID \<and>
     (\<forall>i < RS_LAST_COMPONENT_ID. sd_ptr (ss_data s ! i) = None \<and> sd_length (ss_data s ! i) = 0 \<or>
        i = component_num RS_ROUTING \<and>
        ss_data s ! i = \<lparr>sd_ptr = Some NodeRoutingTable, sd_length = of_nat SIZEOF_ROUTING_TABLE\<rparr>)"

definition role_ok :: "routing \<Rightarrow> bool" where
  "role_ok r \<longleftrightarrow> (case rt_role r of ForwarderRole s \<Rightarrow> networks_ok (rt_orientation r) s | _ \<Rightarrow> True)"

definition events_ok :: "routing \<Rightarrow> bool" where
  "events_ok r \<longleftrightarrow> length (internal_queue r) \<le> MAX_SIBL_EVENT_QUEUED \<and>
     length (external_queue r) \<le> MAX_PEER_EVENT_QUEUED \<and>
     (\<forall>e \<in> set (internal_queue r). sibl_event_ok e) \<and> (\<forall>e \<in> set (external_queue r). peer_event_ok e)"

text \<open>The name of the node fits into the name of its network, and the orientation is one.\<close>

definition names_ok :: "'a node_sys_scheme \<Rightarrow> bool" where
  "names_ok d \<longleftrightarrow> unat (node_orientation (nd d)) < 5 \<and> length (node_uuid (nd d)) \<le> UUID_LENGTH \<and>
     length (rm_uuid (rmgr d)) \<le> UUID_LENGTH"

definition rt_wf :: "'a rt_sys_scheme \<Rightarrow> bool" where
  "rt_wf d \<longleftrightarrow> sync_wf (sy d) \<and> rs_ok (rsh d) \<and> ss_ok (ss d) \<and> table_wf (node_table d) \<and> role_ok (rt d) \<and>
     events_ok (rt d) \<and> cm_wf (cmgr d) \<and> length (devices_rssi (pmgr d)) = PM_MAX_DEVICES \<and> names_ok d"

text \<open>
  A message of the shared state brings a well-formed table: the others send what they hold, and the
  receiver copies it into its own table without looking at it.
\<close>

fun sibling_ok :: "byte list \<Rightarrow> bool" where
  "sibling_ok (c # r # bs) \<longleftrightarrow>
     (c = component_byte RS_SHARED_STATE \<and> r = component_byte RS_ROUTING \<and> length bs = SIZEOF_ROUTING_TABLE
        \<longrightarrow> table_wf (table_of_bytes bs))"
| "sibling_ok _ \<longleftrightarrow> True"

definition im_ok :: "im_manager \<Rightarrow> bool" where
  "im_ok m \<longleftrightarrow> length (im_ring m) = MAX_ORIENTATIONS \<and> (\<forall>p \<in> set (im_ring m). im_packet_ok p)"

definition messages_ok :: "'a cb_sys_scheme \<Rightarrow> bool" where
  "messages_ok d \<longleftrightarrow> length (peer_event_queue d) \<le> PEER_QUEUE_LENGTH \<and>
     length (peer_message_queue d) \<le> PEER_QUEUE_LENGTH \<and>
     length (sibling_message_queue d) \<le> SIBLING_QUEUE_LENGTH \<and>
     (\<forall>m \<in> set (peer_message_queue d) \<union> set (sibling_message_queue d). length m \<le> MAX_MESSAGE_SIZE + 2) \<and>
     (\<forall>m \<in> set (sibling_message_queue d). sibling_ok m)"

definition board_wf :: "'a cb_sys_scheme \<Rightarrow> bool" where
  "board_wf d \<longleftrightarrow> rt_wf d \<and> im_ok (im d) \<and> messages_ok d"

section \<open>What the routing leaves alone\<close>

lemma rt_wf_simps [simp]:
  "rt_wf (d\<lparr>lk := l\<rparr>) = rt_wf d" "rt_wf (driver n xs d) = rt_wf d" "rt_wf (delay_ms ms d) = rt_wf d"
  "rt_wf (upd_dev f d) = rt_wf d" "rt_wf (upd_wst g d) = rt_wf d"
  by (simp_all add: rt_wf_def names_ok_def board_updates)

text \<open>All of a board but the link, the wifi side, the table and the role.\<close>

definition rest where
  "rest d = (sy d, rsh d, ss d, cmgr d, pmgr d, queues (rt d), wl_callbacks d,
     node_orientation (nd d), node_uuid (nd d), rmgr d, rt_sys.more d)"

lemma rest_keeps: "keeps_routing d d' \<Longrightarrow> rest d' = rest d"
  by (simp add: rest_def keeps_routing_def)

lemma rest_only_link: "only_link d d' \<Longrightarrow> rest d' = rest d"
  for d d' :: "'a rt_sys_scheme"
  using only_link_fields [of d d'] by (simp add: rest_def only_link_fields)

lemma rest_upd [simp]:
  "rest (upd_fw f d) = rest d" "rest (set_root s d) = rest d"
  "rest (upd_rt (\<lambda>r. r\<lparr>rt_role := x\<rparr>) d) = rest d"
  "rest (node_set_network_settings n m d) = rest d"
  "rest (snd (wl_send_peer_message e d)) = rest d" "rest (snd (rt_broadcast ev d)) = rest d"
  "rest (board_panic msg d) = rest d"
  using rest_only_link [OF only_link_send [of d e]] rest_only_link [OF only_link_rt_broadcast [of d ev]]
  by (simp_all add: rest_def upd_fw_def upd_rt_def set_root_def queues_def node_set_network_settings_def
      upd_nd_def board_panic_def)

lemma rest_add: "add_global_route n out d = Some d' \<Longrightarrow> rest d' = rest d"
  using add_route_result [of n out d d'] by (simp add: rest_def)

lemma rest_remove: "remove_routes_by_output out d = Some d' \<Longrightarrow> rest d' = rest d"
  using remove_routes_result [of out d d'] by (simp add: rest_def)

lemma rest_hag: "add_hag_routes first ns d = Some d' \<Longrightarrow> rest d' = rest d"
proof (induction ns arbitrary: d)
  case (Cons n ns)
  then show ?case by (auto split: if_splits Option.bind_splits dest: rest_add)
qed simp

lemma rest_ap: "wl_enable_ap_mode n d = Some d' \<Longrightarrow> rest d' = rest d"
  by (auto simp: wl_enable_ap_mode_def intro!: rest_keeps node_set_as_ap_keeps)

lemma rest_refresh: "ss_refresh c d = Some d' \<Longrightarrow> rest d' = rest d"
  for d d' :: "'a rt_sys_scheme"
  by (rule rest_only_link [OF only_link_refresh])

lemmas rest_calls = rest_add rest_remove rest_hag rest_ap rest_refresh

lemma sibl_handler_rest: "sibl_handler e d = Some (Inr d') \<Longrightarrow> rest d' = rest d"
  by (cases e; cases "rt_role (rt d)")
     (auto simp: sibl_handler_def root_on_start_def home_on_start_def home_on_provision_def
       root_on_new_gateway_request_def fwd_on_sibl_update_dtr_def fwd_on_provision_def
       fwd_on_send_new_gateway_request_def fwd_on_new_gateway_winner_def Let_def case_prod_unfold
       dest!: rest_calls split: if_splits Option.bind_splits option.splits)

lemma peer_handler_rest: "peer_handler e d = Some (Inr d') \<Longrightarrow> rest d' = rest d"
  by (cases e; cases "rt_role (rt d)")
     (auto simp: peer_handler_def fwd_on_peer_connected_def fwd_on_handshake_def
       fwd_on_peer_update_dtr_def fwd_on_new_gateway_request_def fwd_on_new_gateway_response_def
       fwd_on_peer_lost_def Let_def dest!: rest_calls split: if_splits Option.bind_splits)

section \<open>The handlers of the routing\<close>

definition core_ok :: "'a rt_sys_scheme \<Rightarrow> bool" where
  "core_ok d \<longleftrightarrow> table_wf (node_table d) \<and> role_ok (rt d)"

lemma forwarder_core: "forwarder_ok ori d \<Longrightarrow> core_ok d"
  by (auto simp: forwarder_ok_def core_ok_def role_ok_def)

lemma core_forwarder: "core_ok d \<Longrightarrow> rt_role (rt d) = ForwarderRole s \<Longrightarrow> forwarder_ok (rt_orientation (rt d)) d"
  by (simp add: forwarder_ok_def core_ok_def role_ok_def)

definition other_ok :: "'a rt_sys_scheme \<Rightarrow> bool" where
  "other_ok d \<longleftrightarrow> table_wf (node_table d) \<and> (\<forall>s. rt_role (rt d) \<noteq> ForwarderRole s)"

lemma other_core: "other_ok d \<Longrightarrow> core_ok d"
  by (auto simp: other_ok_def core_ok_def role_ok_def split: rt_role.splits)

lemma other_simps [simp]:
  "other_ok (set_root s d) = table_wf (node_table d)"
  "other_ok (upd_rt (\<lambda>r. r\<lparr>rt_role := HomeRole h\<rparr>) d) = table_wf (node_table d)"
  "other_ok (snd (rt_broadcast ev d)) = other_ok d" "other_ok (board_panic msg d) = other_ok d"
  by (simp_all add: other_ok_def set_root_def upd_rt_def board_panic_def)

lemma other_calls:
  "add_global_route n out d = Some d' \<Longrightarrow> other_ok d \<longrightarrow> other_ok d'"
  "wl_enable_ap_mode n d = Some d' \<Longrightarrow> other_ok d \<longrightarrow> other_ok d'"
  "ss_refresh c d = Some d' \<Longrightarrow> other_ok d \<longrightarrow> other_ok d'"
  using add_route_result(1,2) [of n out d d'] node_set_as_ap_keeps [of "nw_addr n" "nw_mask n" d d']
    only_link_fields(7,9) [OF only_link_refresh [of c d d']]
  by (simp_all add: other_ok_def table_wf_add wl_enable_ap_mode_def keeps_routing_def)

lemma other_table: "other_ok d \<Longrightarrow> table_wf (node_table d)"
  by (simp add: other_ok_def)

lemma sibl_handler_other:
  assumes "other_ok d" "sibl_handler e d = Some (Inr d')"
  shows "other_ok d'"
  using assms
  by (cases e; cases "rt_role (rt d)")
     (auto simp: sibl_handler_def root_on_start_def home_on_start_def home_on_provision_def
       root_on_new_gateway_request_def Let_def case_prod_unfold
       dest!: other_calls intro: other_table split: if_splits Option.bind_splits,
      auto simp: other_ok_def)

lemma sibl_handler_core: "core_ok d \<Longrightarrow> sibl_handler e d = Some (Inr d') \<Longrightarrow> core_ok d'"
  using forwarder_core sibl_handler_forwarder [OF core_forwarder] other_core sibl_handler_other
  by (metis core_ok_def other_ok_def)

lemma peer_handler_core: "core_ok d \<Longrightarrow> peer_handler e d = Some (Inr d') \<Longrightarrow> core_ok d'"
proof (cases "rt_role (rt d)")
  case (ForwarderRole s)
  then show "core_ok d \<Longrightarrow> peer_handler e d = Some (Inr d') \<Longrightarrow> core_ok d'"
    using peer_handler_forwarder [OF core_forwarder] forwarder_core by blast
qed (auto simp: peer_handler_def split: rt_peer_event.splits)

lemma dispatch_keeps:
  assumes h: "\<And>e d d'. P d \<Longrightarrow> h e d = Some (Inr d') \<Longrightarrow> P d'" and p: "\<And>i d. P d \<Longrightarrow> P (panic i d)"
  shows "dispatch_events h panic es d = Some (ok, d') \<Longrightarrow> P d \<Longrightarrow> P d'"
proof (induction es arbitrary: d)
  case (Cons e es)
  then obtain r where r: "h e d = Some r" by (auto split: option.splits)
  with Cons h [of d e] p show ?case by (cases r) auto
qed simp

definition rt_same where "rt_same r d \<longleftrightarrow> core_ok d \<and> rest d = r"

lemma critical_section_same:
  assumes "on_critical_section d = Some d'" "core_ok d"
  shows "core_ok d' \<and> (rest d' = rest d \<or> (\<exists>x. rest x = rest d \<and>
    d' = upd_rt (\<lambda>r. r\<lparr>external_queue := [], internal_queue := []\<rparr>) x))"
proof -
  have panic: "rt_same r (board_panic m x)" if "rt_same r x" for r m and x :: "'a rt_sys_scheme"
    using that by (simp add: rt_same_def core_ok_def board_panic_def) (simp add: rest_def)
  have s: "rt_same r x'" if "rt_same r x" "sibl_handler e x = Some (Inr x')" for r e and x x' :: "'a rt_sys_scheme"
    using that sibl_handler_core [of x e x'] sibl_handler_rest [of e x x'] by (simp add: rt_same_def)
  have p: "rt_same r x'" if "rt_same r x" "peer_handler e x = Some (Inr x')" for r e and x x' :: "'a rt_sys_scheme"
    using that peer_handler_core [of x e x'] peer_handler_rest [of e x x'] by (simp add: rt_same_def)
  obtain more d1 where 1: "dispatch_events sibl_handler (\<lambda>_. board_panic ''Unknown sibling message'')
      (internal_queue (rt d)) d = Some (more, d1)"
    using assms by (auto simp: on_critical_section_def split: Option.bind_splits)
  have same1: "rt_same (rest d) d1"
    by (rule dispatch_keeps [where P = "rt_same (rest d)", OF s panic 1]) (simp_all add: rt_same_def assms(2))
  show ?thesis
  proof (cases more)
    case False
    with assms(1) 1 same1 show ?thesis by (auto simp: on_critical_section_def rt_same_def)
  next
    case True
    then obtain fin d2 where 2: "dispatch_events peer_handler (\<lambda>_. board_panic ''Unknown peer message'')
        (external_queue (rt d1)) d1 = Some (fin, d2)"
      using assms 1 by (auto simp: on_critical_section_def split: Option.bind_splits)
    have "rt_same (rest d) d2" by (rule dispatch_keeps [where P = "rt_same (rest d)", OF p panic 2 same1])
    moreover have "d' = (if fin then upd_rt (\<lambda>r. r\<lparr>external_queue := [], internal_queue := []\<rparr>) d2 else d2)"
      using assms 1 2 True by (auto simp: on_critical_section_def)
    ultimately show ?thesis
      by (auto simp: rt_same_def core_ok_def role_ok_def upd_rt_def split: rt_role.splits)
  qed
qed

section \<open>The client of the lock\<close>

text \<open>
  What a board must keep around the lock: an invariant that the calls of the bus and the changes
  of the lock's own state respect and the callbacks of the critical sections preserve is
  preserved by every operation of the lock.
\<close>

locale lock_client =
  fixes P :: "'a sys_scheme \<Rightarrow> bool" and run :: "cs_callback \<Rightarrow> 'a sys_scheme \<Rightarrow> 'a sys_scheme option"
  assumes P_broadcast: "P d \<Longrightarrow> P (sync_broadcast m d)"
    and P_panic: "P d \<Longrightarrow> P (board_panic msg d)"
    and P_sy: "P d \<Longrightarrow> sync_wf s \<Longrightarrow> map cs_function (critical_sections s) = map cs_function (critical_sections (sy d)) \<Longrightarrow>
      P (d\<lparr>sy := s\<rparr>)"
    and P_wf: "P d \<Longrightarrow> sync_wf (sy d)"
    and P_run: "P d \<Longrightarrow> cs < 7 \<Longrightarrow> critical_sections (sy d) ! cs = \<lparr>cs_function = Some cb, is_inside = True\<rparr> \<Longrightarrow>
      run cb d = Some d' \<Longrightarrow> P d'"
begin

lemma P_on_leader:
  "P d \<Longrightarrow> length (requested_tokens (f (leader_st (sy d)))) = 7 \<Longrightarrow>
   length (is_token_out (f (leader_st (sy d)))) = 7 \<Longrightarrow> P (on_leader f d)"
  using sync_wf_on_leader [OF P_wf, of d f] by (simp add: on_leader_def P_sy)

lemma P_issue: "P d \<Longrightarrow> issue_new_token cs d = Some d' \<Longrightarrow> P d'"
  using sync_wf_lengths [OF P_wf, of d]
  by (auto simp: issue_new_token_def aset_def Let_def intro!: P_broadcast P_on_leader split: if_splits)

lemma P_request_leader: "P d \<Longrightarrow> leader_request_critical_section cs d = Some d' \<Longrightarrow> P d'"
  using sync_wf_lengths [OF P_wf, of d]
  by (auto simp: leader_request_critical_section_def aset_def aget_def intro!: P_on_leader dest: P_issue
      split: if_splits Option.bind_splits)

lemma P_request: "P d \<Longrightarrow> sync_request_critical_section c d = Some d' \<Longrightarrow> P d'"
  by (auto simp: sync_request_critical_section_def follower_request_critical_section_def
      intro: P_request_leader P_broadcast split: sync_impl.splits)

lemma P_inside: "P d \<Longrightarrow> set_inside cs b d = Some d' \<Longrightarrow> P d'"
  using P_wf [of d]
  by (auto simp: set_inside_def aset_def aget_def sync_wf_def map_update intro!: P_sy split: if_splits)
     (simp add: list_update_same_conv)

lemma P_inside_run:
  "P d \<Longrightarrow> set_inside cs True d = Some d1 \<Longrightarrow> cs_function (critical_sections (sy d) ! cs) = Some cb \<Longrightarrow>
   run cb d1 = Some d2 \<Longrightarrow> P d2"
  using P_inside [of d cs True d1] sync_wf_lengths [OF P_wf, of d] P_run [of d1 cs cb d2]
  by (auto simp: set_inside_def aset_def aget_def split: if_splits)

lemma P_callback: "P d \<Longrightarrow> run_callback run cs d = Some d' \<Longrightarrow> P d'"
  by (auto simp: run_callback_def aget_def split: Option.bind_splits option.splits if_splits intro: P_inside P_inside_run)

lemma P_back: "P d \<Longrightarrow> leader_token_back cs d = Some d' \<Longrightarrow> P d'"
  using sync_wf_lengths [OF P_wf, of d]
  by (auto simp: leader_token_back_def aset_def aget_def Let_def intro!: P_on_leader elim!: P_issue [rotated]
      split: if_splits)

lemma P_message: "P d \<Longrightarrow> sync_on_sibling_message run raw d = Some d' \<Longrightarrow> P d'"
  by (auto simp: sync_on_sibling_message_def leader_on_token_grant_def follower_on_token_grant_def
      leader_on_token_request_def follower_pass_token_def
      intro!: P_panic P_broadcast dest: P_callback P_back P_request_leader
      split: if_splits option.splits sync_msg.splits sync_impl.splits Option.bind_splits)

end

lemma rt_wf_core: "rt_wf d \<Longrightarrow> core_ok d"
  by (simp add: rt_wf_def names_ok_def core_ok_def)

lemma rt_wf_rest: "rest d' = rest d \<Longrightarrow> core_ok d' \<Longrightarrow> rt_wf d \<Longrightarrow> rt_wf d' \<and> rt_sys.more d' = rt_sys.more d"
  by (simp add: rt_wf_def names_ok_def core_ok_def rest_def events_ok_def queues_def)

lemma critical_section_wf:
  assumes "on_critical_section d = Some d'" "rt_wf d"
  shows "rt_wf d' \<and> rt_sys.more d' = rt_sys.more d"
proof -
  note S = critical_section_same [OF assms(1) rt_wf_core [OF assms(2)]]
  show ?thesis
  proof (cases "rest d' = rest d")
    case True
    with S rt_wf_rest assms(2) show ?thesis by blast
  next
    case False
    with S obtain x where x: "rest x = rest d"
      "d' = upd_rt (\<lambda>r. r\<lparr>external_queue := [], internal_queue := []\<rparr>) x" by blast
    with S assms(2) show ?thesis
      by (simp add: rt_wf_def names_ok_def core_ok_def rest_def events_ok_def upd_rt_def)
  qed
qed

lemmas lock_calls = sync_broadcast_def board_broadcast_def board_panic_def case_prod_unfold Let_def

interpretation rt_lock: lock_client "\<lambda>d. rt_wf d \<and> rt_sys.more d = m" run_cs for m
proof unfold_locales
  fix d d' :: "'a rt_sys_scheme" and cb
  assume "rt_wf d \<and> rt_sys.more d = m" "run_cs cb d = Some d'"
  then show "rt_wf d' \<and> rt_sys.more d' = m"
    using critical_section_wf [of d d'] by (cases cb) (simp add: run_cs_def)
qed (simp_all add: rt_wf_def names_ok_def lock_calls)

section \<open>The messages of the siblings\<close>

lemma more_im:
  assumes "rt_sys.more d' = rt_sys.more d"
  shows "im d' = im d" "im_sys.more d' = im_sys.more d"
  using assms by (cases d; cases d'; simp)+

lemma more_messages: "im_sys.more d' = im_sys.more d \<Longrightarrow> messages_ok d' = messages_ok d"
  by (cases d; cases d') (simp add: messages_ok_def)

lemma request_wf:
  "rt_wf d \<Longrightarrow> sync_request_critical_section c d = Some d' \<Longrightarrow> rt_wf d' \<and> rt_sys.more d' = rt_sys.more d"
  by (rule rt_lock.P_request) simp_all

lemma panic_wf [simp]: "rt_wf (board_panic m d) = rt_wf d" "rt_sys.more (board_panic m d) = rt_sys.more d"
  by (simp_all add: board_panic_def)

lemma queue_events_wf:
  "rt_wf d \<Longrightarrow> sibl_event_ok e \<Longrightarrow> length (internal_queue (rt d)) < 16 \<Longrightarrow>
   rt_wf (upd_rt (\<lambda>r. r\<lparr>internal_queue := internal_queue r @ [e]\<rparr>) d)"
  "rt_wf d \<Longrightarrow> peer_event_ok f \<Longrightarrow> length (external_queue (rt d)) < 16 \<Longrightarrow>
   rt_wf (upd_rt (\<lambda>r. r\<lparr>external_queue := external_queue r @ [f]\<rparr>) d)"
  by (auto simp: rt_wf_def names_ok_def upd_rt_def events_ok_def role_ok_def rt_consts split: rt_role.splits)

lemma upd_rt_more [simp]: "rt_sys.more (upd_rt f d) = rt_sys.more d"
  by (simp add: upd_rt_def)

lemma rt_message_wf:
  "rt_wf d \<Longrightarrow> rt_on_sibling_message raw d = Some d' \<Longrightarrow> rt_wf d' \<and> rt_sys.more d' = rt_sys.more d"
  using request_wf [OF queue_events_wf(1) [OF _ decoded_ok(1)]]
  by (fastforce simp: rt_on_sibling_message_def rt_consts split: if_splits)

lemma queue_peer_wf:
  "rt_wf d \<Longrightarrow> peer_event_ok e \<Longrightarrow> queue_peer_message e d = Some d' \<Longrightarrow> rt_wf d' \<and> rt_sys.more d' = rt_sys.more d"
  using request_wf [OF queue_events_wf(2)] by (fastforce simp: queue_peer_message_def rt_consts split: if_splits)

lemma peer_message_wf:
  "rt_wf d \<Longrightarrow> rt_on_peer_message raw d = Some d' \<Longrightarrow> rt_wf d' \<and> rt_sys.more d' = rt_sys.more d"
  using queue_peer_wf [of d "peer_event_of_bytes raw" d'] by (auto simp: rt_on_peer_message_def split: if_splits)

lemma peer_event_wf:
  "rt_wf d \<Longrightarrow> rt_on_peer_connected n m d = Some d' \<Longrightarrow> rt_wf d' \<and> rt_sys.more d' = rt_sys.more d"
  "rt_wf d \<Longrightarrow> rt_on_peer_lost n m d = Some d' \<Longrightarrow> rt_wf d' \<and> rt_sys.more d' = rt_sys.more d"
  using queue_peer_wf [of d "PeerConnected (NETWORK n m)" d'] queue_peer_wf [of d "PeerLost (NETWORK n m)" d']
  by (simp_all add: rt_on_peer_connected_def rt_on_peer_lost_def)

lemma shared_message_wf:
  assumes "rt_wf d" "sibling_ok (component_byte RS_SHARED_STATE # msg)" "ss_on_sibling_message msg d = Some d'"
  shows "rt_wf d' \<and> rt_sys.more d' = rt_sys.more d"
proof (cases msg)
  case (Cons r bs)
  let ?data = "ss_data (ss d) ! unat r"
  have ok: "ss_ok (ss d)" "table_wf (node_table d)" using assms(1) by (simp_all add: rt_wf_def names_ok_def)
  consider p where "unat r < 7" "sd_ptr ?data = Some p" "unat (sd_length ?data) = length bs" "ss_poke p bs d = Some d'"
    | m where "d' = board_panic m d"
    using assms(3) by (auto simp: ss_on_sibling_message_def Cons Let_def rs_consts not_le split: if_splits option.splits)
  then show ?thesis
  proof cases
    case 1
    then have r: "unat r = component_num RS_ROUTING" "length bs = SIZEOF_ROUTING_TABLE"
      using ok(1) sizeof_table_byte by (auto simp: ss_ok_def rs_consts SIZEOF_ROUTING_TABLE_def)
    then have "r = component_byte RS_ROUTING" using r(1) by (simp add: component_byte_def word_unat_eq_iff)
    then have "table_wf (table_of_bytes bs)" using assms(2) r(2) by (simp add: Cons)
    moreover have "d' = d\<lparr>node_table := table_of_bytes bs\<rparr>"
      using 1(4) r(2) rt_wire.length_enc [OF ok(2), of 0] by (simp add: ss_poke_def)
    ultimately show ?thesis using assms(1) by (simp add: rt_wf_def names_ok_def)
  next
    case 2
    then show ?thesis using assms(1) by simp
  qed
qed (use assms(3) in \<open>simp add: ss_on_sibling_message_def\<close>)

lemma channel_message_wf:
  assumes "rt_wf d" "node_on_channel_message msg d = Some d'"
  shows "rt_wf d' \<and> rt_sys.more d' = rt_sys.more d"
proof -
  obtain b cm where c: "cm_on_sibling_message (node_is_network_provided d) msg (cmgr d) = Some (b, cm)"
    and d': "d' = (if b then node_disable_sta (d\<lparr>cmgr := cm\<rparr>) else d\<lparr>cmgr := cm\<rparr>)"
    using assms(2) by (auto simp: node_on_channel_message_def Let_def split: Option.bind_splits)
  have "cm_wf cm"
    using c assms(1) by (auto simp: cm_on_sibling_message_def Let_def rt_wf_def names_ok_def cm_wf_def split: if_splits Option.bind_splits)
  then have w: "rt_wf (d\<lparr>cmgr := cm\<rparr>)" using assms(1) by (simp add: rt_wf_def names_ok_def)
  have k: "rt_wf (node_disable_sta x) = rt_wf x" "rt_sys.more (node_disable_sta x) = rt_sys.more x" for x :: "'a rt_sys_scheme"
    by (simp_all add: node_disable_sta_def device_disable_station_def station_disconnect_def Let_def)
       (simp_all add: board_updates)
  show ?thesis using w by (simp add: d' k)
qed

lemma im_message_wf: "im_ok m \<Longrightarrow> im_ok (im_on_sibling_message msg m)"
  by (auto simp: im_ok_def im_on_sibling_message_def Let_def im_packet_ok_def im_packet_of_bytes_def im_consts
      dest!: set_update_subset_insert [THEN subsetD])

lemma rm_uuid_length:
  "length (rm_uuid rm) \<le> UUID_LENGTH \<Longrightarrow> rm_on_sibling_message msg rm l = (rm', l') \<Longrightarrow> length (rm_uuid rm') \<le> UUID_LENGTH"
  "length (rm_uuid rm) \<le> UUID_LENGTH \<Longrightarrow> rm_broadcast_reset rm l = (ok, rm', l') \<Longrightarrow> length (rm_uuid rm') \<le> UUID_LENGTH"
  "length (rm_uuid rm) \<le> UUID_LENGTH \<Longrightarrow> rm_broadcast_startup_info b rm l = (ok, rm', l') \<Longrightarrow> length (rm_uuid rm') \<le> UUID_LENGTH"
  by (auto simp: rm_on_sibling_message_def rm_broadcast_reset_def rm_broadcast_startup_info_def Let_def case_prod_unfold
      split: if_splits)

lemma component_callback_wf:
  assumes "rt_wf d" "im_ok (im d)" "sibling_ok (component_byte (callback_component cb) # msg)"
    and "component_callback cb msg d = Some d'"
  shows "rt_wf d' \<and> im_ok (im d') \<and> im_sys.more d' = im_sys.more d"
proof (cases cb)
  case SyncOnSibling
  with assms rt_lock.P_message [of d "rt_sys.more d" msg d'] show ?thesis
    by (simp add: component_callback_def) (metis more_im)
next
  case RoutingOnSibling
  with assms rt_message_wf [of d msg d'] show ?thesis
    by (simp add: component_callback_def) (metis more_im)
next
  case SharedStateOnSibling
  with assms shared_message_wf [of d msg d'] show ?thesis
    by (simp add: component_callback_def) (metis more_im)
next
  case ChannelManagerOnSibling
  with assms channel_message_wf [of d msg d'] show ?thesis
    by (simp add: component_callback_def) (metis more_im)
next
  case ResetManagerOnSibling
  with assms rm_uuid_length(1) [of "rmgr d" msg "lk d"] show ?thesis
    by (auto simp: component_callback_def rt_wf_def names_ok_def split: prod.splits)
next
  case InfoManagerOnSibling
  with assms show ?thesis by (auto simp: component_callback_def rt_wf_def names_ok_def im_message_wf)
next
  case PriorityManagerOnSibling
  with assms show ?thesis
    by (auto simp: component_callback_def rt_wf_def names_ok_def pm_on_sibling_message_def Let_def)
qed

text \<open>A message goes to the callback of its first byte.\<close>

lemma board_message_wf:
  assumes "rt_wf d" "im_ok (im d)" "sibling_ok m" "board_on_sibling_message m d = Some d'"
  shows "rt_wf d' \<and> im_ok (im d') \<and> im_sys.more d' = im_sys.more d"
proof -
  obtain call l where r: "rs_on_sibling_message (rsh d) m (lk d) = (call, l)"
    by (cases "rs_on_sibling_message (rsh d) m (lk d)")
  let ?d = "d\<lparr>lk := l\<rparr>"
  show ?thesis
  proof (cases call)
    case None
    with assms r show ?thesis by (auto simp: board_on_sibling_message_def)
  next
    case (Some c)
    then obtain cb bytes where c: "call = Some (cb, bytes)" by (cases c) simp
    then obtain b where m: "m = b # bytes" "unat b < RS_MAX_COMPONENTS" "rs_components (rsh d) ! unat b = Some cb"
      using r by (auto simp: rs_on_sibling_message_def not_le split: list.splits if_splits option.splits)
    have "rs_ok (rsh d)" using assms(1) by (simp add: rt_wf_def names_ok_def)
    then have "unat b = component_num (callback_component cb)" using m(2,3) by (auto simp: rs_ok_def)
    then have "b = of_nat (component_num (callback_component cb))" by (metis of_nat_unat ucast_id)
    then have "sibling_ok (component_byte (callback_component cb) # bytes)"
      using assms(3) m(1) by (simp add: component_byte_def)
    moreover have "component_callback cb bytes ?d = Some d'"
      using assms(4) r c by (simp add: board_on_sibling_message_def)
    ultimately show ?thesis
      using component_callback_wf [of ?d cb bytes d'] assms(1,2) by simp
  qed
qed

section \<open>The tasks\<close>

lemma board_wf_keeps: "board_wf d \<Longrightarrow> rt_wf d' \<Longrightarrow> rt_sys.more d' = rt_sys.more d \<Longrightarrow> board_wf d'"
  using more_im [of d' d] more_messages [of d' d] by (simp add: board_wf_def)

lemma keeps_routing_wf: "keeps_routing d d' \<Longrightarrow> rt_wf d \<Longrightarrow> rt_wf d' \<and> rt_sys.more d' = rt_sys.more d"
  by (simp add: keeps_routing_def rt_wf_def names_ok_def)

lemma keeps_board: "keeps_routing d d' \<Longrightarrow> board_wf d \<Longrightarrow> board_wf d'"
  using keeps_routing_wf [of d d'] board_wf_keeps [of d d'] by (simp add: board_wf_def)

lemma sibling_task_wf:
  assumes "board_wf d" "sibling_message_task d = Some (Some d')"
  shows "board_wf d'"
proof -
  obtain m q where q: "sibling_message_queue d = m # q"
    using assms(2) by (cases "sibling_message_queue d") (simp_all add: sibling_message_task_def)
  let ?d = "d\<lparr>sibling_message_queue := q\<rparr>"
  have w: "rt_wf ?d" "im_ok (im ?d)" "messages_ok ?d" "sibling_ok m"
    using assms(1) q by (auto simp: board_wf_def rt_wf_def names_ok_def messages_ok_def)
  show ?thesis
  proof (cases "sb_callback d")
    case DoNothingMessage
    with assms(2) q w show ?thesis by (auto simp: sibling_message_task_def board_wf_def)
  next
    case RingShareOnSibling
    with assms(2) q have "board_on_sibling_message m ?d = Some d'"
      by (auto simp: sibling_message_task_def)
    from board_message_wf [OF w(1,2,4) this] w(3) more_messages [of d' ?d] show ?thesis
      by (simp add: board_wf_def)
  qed
qed

lemma peer_message_task_wf:
  assumes "board_wf d" "peer_message_task d = Some (Some d')"
  shows "board_wf d'"
proof -
  obtain m q where q: "peer_message_queue d = m # q"
    using assms(2) by (cases "peer_message_queue d") (simp_all add: peer_message_task_def)
  let ?d = "d\<lparr>peer_message_queue := q\<rparr>"
  have w: "board_wf ?d"
    using assms(1) q by (auto simp: board_wf_def rt_wf_def names_ok_def messages_ok_def)
  with assms(2) q peer_message_wf [of ?d m d'] board_wf_keeps [OF w, of d'] show ?thesis
    by (auto simp: peer_message_task_def board_wf_def Let_def split: wireless_callbacks.splits)
qed

lemma peer_event_task_wf:
  assumes "board_wf d" "peer_event_task d = Some (Some d')"
  shows "board_wf d'"
proof -
  obtain e q where q: "peer_event_queue d = e # q"
    using assms(2) by (cases "peer_event_queue d") (simp_all add: peer_event_task_def)
  define x where "x = delay_ms (peer_type_num (pe_peer_type e) * (PEER_DELAY_SECONDS * 1000)) (d\<lparr>peer_event_queue := q\<rparr>)"
  have w: "board_wf x"
    using assms(1) q by (auto simp: x_def board_wf_def rt_wf_def names_ok_def messages_ok_def delay_ms_def)
  with assms(2) q peer_event_wf [of x "pe_net e" "pe_mask e" d'] board_wf_keeps [OF w, of d'] show ?thesis
    by (auto simp: peer_event_task_def x_def [symmetric] board_wf_def
        split: wireless_callbacks.splits peer_event_type.splits)
qed

lemma peer_call_wf:
  assumes "board_wf d" "do_peer_call c d = Some (Some d')"
  shows "board_wf d'"
proof -
  have len: "length m \<le> MAX_MESSAGE_SIZE + 2" if "store_message bs n = Some m" for bs n m
    using that by (auto simp: store_message_def Let_def split: if_splits)
  show ?thesis
    using assms
    by (cases c) (auto simp: do_peer_call_def node_on_peer_connected_def node_on_peer_lost_def send_peer_event_def
        node_on_peer_message_def q_send_def board_wf_def rt_wf_def names_ok_def messages_ok_def dest: len [simplified]
        split: if_splits Option.bind_splits)
qed

text \<open>Frames of the ring bring messages of the other boards.\<close>

definition frame_ok :: "ring_link_payload \<Rightarrow> bool" where
  "frame_ok p \<longleftrightarrow> (case store_message (pl_buffer p) (pl_len p) of None \<Rightarrow> True | Some m \<Rightarrow> sibling_ok m)"

lemma give_messages_wf:
  "give_messages ms d = Some (Some d') \<Longrightarrow> board_wf d \<Longrightarrow>
   \<forall>(buf, len) \<in> set ms. \<forall>m. store_message buf len = Some m \<longrightarrow> sibling_ok m \<Longrightarrow> board_wf d'"
proof (induction ms arbitrary: d)
  case (Cons x ms)
  obtain buf len where x: "x = (buf, len)" by (cases x)
  with Cons.prems obtain d1 where d1: "node_on_sibling_message buf len d = Some (Some d1)"
    "give_messages ms d1 = Some (Some d')" by (auto split: option.splits)
  obtain m where m: "store_message buf len = Some m" "sibling_ok m"
    using d1(1) Cons.prems(3) x by (auto simp: node_on_sibling_message_def split: Option.bind_splits)
  then have "length m \<le> MAX_MESSAGE_SIZE + 2"
    by (auto simp: store_message_def Let_def split: if_splits)
  with m d1(1) Cons.prems(2) have "board_wf d1"
    by (auto simp: node_on_sibling_message_def q_send_def board_wf_def rt_wf_def names_ok_def messages_ok_def
        split: if_splits Option.bind_splits)
  with Cons.IH [OF d1(2)] Cons.prems(3) show ?case by simp
qed simp

section \<open>The wifi side\<close>

lemma board_wf_simps [simp]:
  "board_wf (d\<lparr>lk := l\<rparr>) = board_wf d" "board_wf (driver n xs d) = board_wf d"
  "board_wf (delay_ms ms d) = board_wf d" "board_wf (upd_dev f d) = board_wf d"
  "board_wf (upd_wst g d) = board_wf d"
  "board_wf (d\<lparr>remote_server := b\<rparr>) = board_wf d"
  "board_wf (d\<lparr>traf := t\<rparr>) = board_wf d" "board_wf (d\<lparr>sb_callback := cb\<rparr>) = board_wf d"
  by (simp_all add: board_wf_def rt_wf_def names_ok_def messages_ok_def board_updates names_ok_def)

lemma board_wf_outer [simp]:
  "board_wf (e\<lparr>sk := x\<rparr>) = board_wf e" "board_wf (h\<lparr>hk := y\<rparr>) = board_wf h" "board_wf (h\<lparr>nif := z\<rparr>) = board_wf h"
  "board_wf (h\<lparr>rxp := u\<rparr>) = board_wf h" "board_wf (b\<lparr>rc_listen_sock := v\<rparr>) = board_wf b"
  by (simp_all add: board_wf_def rt_wf_def names_ok_def messages_ok_def)

lemma keeps_routing_events [routing_kept]:
  "keeps_routing a (ap_disconnect_all_stations d) = keeps_routing a d"
  "keeps_routing a (server_create d) = keeps_routing a d" "keeps_routing a (server_close d) = keeps_routing a d"
  "keeps_routing a (client_open d) = keeps_routing a d" "keeps_routing a (station_connect d) = keeps_routing a d"
  "keeps_routing a (transform_wifi_ap_record_to_config d) = keeps_routing a d"
  by (simp_all add: ap_disconnect_all_stations_def server_create_def server_close_def client_open_def
      station_connect_def transform_wifi_ap_record_to_config_def Let_def routing_kept)

lemma ap_event_wf: "board_wf d \<Longrightarrow> board_wf (ap_event_handler e d)"
  by (rule keeps_board [where d = d]) (simp_all add: ap_event_handler_def routing_kept split: ap_event.splits)

lemma station_attempt_wf: "board_wf d \<Longrightarrow> board_wf (station_attempt scan d)"
  by (rule keeps_board [where d = d])
     (auto simp: station_attempt_def station_find_ap_def Let_def routing_kept split: option.splits)

lemma provide_channel_wf:
  assumes "board_wf d" "station_provide_channel d = Some d'"
  shows "board_wf d'"
  using assms
  by (auto simp: station_provide_channel_def cm_provide_to_siblings_def board_wf_def rt_wf_def names_ok_def cm_wf_def
      messages_ok_def Let_def case_prod_unfold split: Option.bind_splits if_splits)

lemma station_event_wf:
  assumes "board_wf d" "station_event_handler e d = Some d'"
  shows "board_wf d'"
proof (cases e)
  case (WifiDisconnected too_many)
  let ?d = "if too_many then d\<lparr>cmgr := cm_block_full_ap (rec_ssid (st_wifi_ap_found (the_st d))) (cmgr d)\<rparr> else d"
  have "board_wf ?d"
    using assms(1) by (simp add: board_wf_def rt_wf_def names_ok_def messages_ok_def cm_block_full_ap_def cm_wf_def CM_MAX_PEERS_def)
  moreover have "keeps_routing ?d d'"
    using assms(2) by (auto simp: WifiDisconnected station_event_handler_def Let_def routing_kept)
  ultimately show ?thesis using keeps_board by blast
next
  case (GotIp ip msk)
  show ?thesis
  proof (cases "st_is_fully_connected (the_st d)")
    case True
    then obtain d1 where d1: "station_provide_channel d = Some d1" and "keeps_routing d1 d'"
      using assms(2) by (auto simp: GotIp station_event_handler_def Let_def routing_kept split: Option.bind_splits)
    then show ?thesis using provide_channel_wf [OF assms(1) d1] keeps_board by blast
  next
    case False
    then have "keeps_routing d d'"
      using assms(2) by (auto simp: GotIp station_event_handler_def Let_def routing_kept)
    then show ?thesis using assms(1) keeps_board by blast
  qed
qed (use assms in \<open>simp add: station_event_handler_def\<close>)

lemma station_start_wf:
  assumes "board_wf d" "station_task_start scan d = Some d'"
  shows "board_wf d'"
  using assms
  by (auto simp: station_task_start_def station_scan_best_rssi_def pm_provide_to_siblings_def aset_def Let_def
      case_prod_unfold pm_reset_priority_list_def board_wf_def rt_wf_def names_ok_def messages_ok_def board_updates
      split: Option.bind_splits if_splits)

section \<open>The other tasks\<close>

lemma rt_broadcast_wf [simp]: "rt_wf (snd (rt_broadcast e d)) = rt_wf d" "rt_sys.more (snd (rt_broadcast e d)) = rt_sys.more d"
  by (simp_all add: rt_broadcast_def board_broadcast_def case_prod_unfold Let_def)

lemma set_root_wf [simp]: "rt_wf d \<Longrightarrow> rt_wf (set_root s d)" "rt_sys.more (set_root s d) = rt_sys.more d"
  by (simp_all add: set_root_def upd_rt_def rt_wf_def names_ok_def role_ok_def events_ok_def)

lemma tick_wf: "rt_wf d \<Longrightarrow> rt_wf (rt_on_tick dt d)" "rt_sys.more (rt_on_tick dt d) = rt_sys.more d"
  by (simp_all add: rt_on_tick_def root_on_tick_def split: rt_role.splits)

lemma routing_task_wf:
  assumes "board_wf d"
  shows "board_wf (routing_task_round d)"
proof -
  have w: "board_wf (delay_ms 1000 d)" using assms by simp
  then have "rt_wf (rt_on_tick 1000 (delay_ms 1000 d))" by (intro tick_wf(1)) (simp add: board_wf_def)
  from board_wf_keeps [OF w this tick_wf(2)] show ?thesis by (simp add: routing_task_round_def)
qed

lemma snprintf_length: "0 < n \<Longrightarrow> length (snprintf_s n src) = n"
  by (simp add: snprintf_s_def)

lemma scheduler_wf:
  assumes "board_wf d" "im_scheduler_round answer d = Some d'"
  shows "board_wf d'"
proof -
  obtain ok d1 where d1: "im_broadcast_info answer d = Some (ok, d1)" "d' = delay_ms BROADCAST_INTERVAL_MS d1"
    using assms(2) by (auto simp: im_scheduler_round_def split: Option.bind_splits)
  have "im_packet_ok (im_packet_now answer d)"
    by (simp add: im_packet_now_def im_packet_ok_def snprintf_length im_consts)
  then have "board_wf d1"
    using d1(1) assms(1)
    by (auto simp: im_broadcast_info_def aset_def board_broadcast_def case_prod_unfold Let_def board_wf_def rt_wf_def names_ok_def
        messages_ok_def im_ok_def dest!: set_update_subset_insert [THEN subsetD] split: if_splits Option.bind_splits)
  then show ?thesis by (simp add: d1(2))
qed

lemma server_tasks_wf:
  "board_wf d \<Longrightarrow> tcp_server_task_start info fd b1 b2 d = (ok, d') \<Longrightarrow> board_wf d'"
  "board_wf d \<Longrightarrow> tcp_server_round sock rs d = (cs, d') \<Longrightarrow> board_wf d'"
  by (auto simp: tcp_server_task_start_def server_network_def server_clean_up_def Let_def tcp_server_round_def
      case_prod_unfold split: option.splits if_splits)

lemma client_task_wf:
  "board_wf d \<Longrightarrow> tcp_client_round info gw sock ok rs d = (cs, d') \<Longrightarrow> board_wf d'"
  by (auto simp: tcp_client_round_def client_network_def Let_def case_prod_unfold split: option.splits if_splits)

lemma disconnect_all_wf [simp]: "board_wf (ap_disconnect_all_stations d) = board_wf d"
  by (simp add: ap_disconnect_all_stations_def)

lemma remote_tasks_wf:
  "board_wf d \<Longrightarrow> board_wf (remote_control_start ip fd b1 b2 d)"
  "board_wf d \<Longrightarrow> board_wf (remote_command_server_round sock input d)"
  "board_wf d \<Longrightarrow> board_wf (remote_command_server_close d)"
  by (auto simp: remote_control_start_def remote_command_server_init_def remote_command_server_round_def
      remote_command_server_close_def apply_command_def node_disable_ap_def node_enable_ap_def
      device_disable_ap_def device_enable_ap_def Let_def split: option.splits)

lemma reporter_wf:
  "board_wf d \<Longrightarrow> im_client_task_start sock d = (ok, d') \<Longrightarrow> board_wf d'"
  "board_wf d \<Longrightarrow> im_client_round time sent d = Some d' \<Longrightarrow> board_wf d'"
  by (auto simp: im_client_task_start_def im_client_round_def Let_def split: if_splits Option.bind_splits)

end
