(* ===== verification/Board_Life.thy ===== *)
theory Board_Life
  imports Board_Types
begin

text \<open>
  The life of a board: anything may happen to it in any order, the rounds of its tasks, the frames
  of the ring, the events of the wifi driver and the sockets, and its start. Each keeps the board
  well formed.
\<close>

section \<open>Runs of a board\<close>

text \<open>
  One step of a board: a frame of the ring, a round of a task, a call of a socket's task or an event
  of the wifi driver. The calls of the sockets may come at any time, which is more than they do.
\<close>

inductive board_step :: "'a board_scheme \<Rightarrow> 'a board_scheme \<Rightarrow> bool" where
  ring_frame: "frame_ok p \<Longrightarrow> board_internal_handler p d = Some (Some d') \<Longrightarrow> board_step d d'"
| sibling_task: "sibling_message_task d = Some (Some d') \<Longrightarrow> board_step d d'"
| message_task: "peer_message_task d = Some (Some d') \<Longrightarrow> board_step d d'"
| event_task: "peer_event_task d = Some (Some d') \<Longrightarrow> board_step d d'"
| socket_call: "do_peer_call c d = Some (Some d') \<Longrightarrow> board_step d d'"
| server_start: "tcp_server_task_start info fd b1 b2 d = (ok, d') \<Longrightarrow> board_step d d'"
| server_task: "tcp_server_round sock rs d = (cs, d') \<Longrightarrow> board_step d d'"
| client_task: "tcp_client_round info gw sock ok rs d = (cs, d') \<Longrightarrow> board_step d d'"
| ap_event: "board_step d (ap_event_handler ae d)"
| station_event: "station_event_handler se d = Some d' \<Longrightarrow> board_step d d'"
| station_begins: "station_task_start scan d = Some d' \<Longrightarrow> board_step d d'"
| station_tries: "board_step d (station_attempt scan d)"
| remote_start: "board_step d (remote_control_start ip fd b1 b2 d)"
| remote_task: "board_step d (remote_command_server_round sock input d)"
| remote_end: "board_step d (remote_command_server_close d)"
| scheduler_task: "im_scheduler_round answer d = Some d' \<Longrightarrow> board_step d d'"
| reporter_start: "im_client_task_start sock d = (ok, d') \<Longrightarrow> board_step d d'"
| reporter_task: "im_client_round time sent d = Some d' \<Longrightarrow> board_step d d'"
| routing_task: "board_step d (routing_task_round d)"
| traffic_event: "board_step d (d\<lparr>traf := tx_rx_event_handler dir n (traf d)\<rparr>)"

lemma handled_messages:
  "set (sibling_messages (new_effects l (snd (ring_link_internal_handler p l)))) \<subseteq> {(pl_buffer p, pl_len p)}"
proof -
  obtain es where es: "trace (snd (ring_link_lowlevel_forward_payload p l)) = trace l @ es" "sibling_messages es = []"
    using forward_gives_nothing by blast
  show ?thesis
  proof (cases "ring_link_payload_is_broadcast p \<and> \<not> ring_link_payload_is_from_device p l")
    case True
    then show ?thesis by (simp add: foreign_broadcast_given)
  next
    case False
    with es show ?thesis
      by (auto simp: ring_link_internal_handler_def broadcast_handler_def ring_link_internal_process_def
          new_effects_def)
  qed
qed

lemma board_step_wf: "board_step d d' \<Longrightarrow> board_wf d \<Longrightarrow> board_wf d'"
proof (induction rule: board_step.induct)
  case (ring_frame p d d')
  have "\<forall>(buf, len) \<in> set (sibling_messages (new_effects (lk d) (snd (ring_link_internal_handler p (lk d))))).
      \<forall>m. store_message buf len = Some m \<longrightarrow> sibling_ok m"
    using handled_messages [of "lk d" p] ring_frame(1) by (fastforce simp: frame_ok_def split: option.splits)
  with ring_frame(2,3) show ?case
    using give_messages_wf [of _ "d\<lparr>lk := snd (ring_link_internal_handler p (lk d))\<rparr>" d']
    by (simp add: board_internal_handler_def Let_def)
qed (auto intro: sibling_task_wf peer_message_task_wf peer_event_task_wf peer_call_wf server_tasks_wf
  client_task_wf ap_event_wf station_event_wf station_start_wf station_attempt_wf remote_tasks_wf
  scheduler_wf reporter_wf routing_task_wf)

lemma board_run_wf: "board_step\<^sup>*\<^sup>* d d' \<Longrightarrow> board_wf d \<Longrightarrow> board_wf d'"
  by (induction rule: rtranclp_induct) (auto intro: board_step_wf)

section \<open>The start of a board\<close>

lemma board_start_wf: "board_wf (board_start e)"
proof -
  have "networks_ok ori forwarder_start" for ori by (simp add: networks_ok_def forwarder_start_def)
  then show ?thesis
    by (auto simp: board_start_def hk_sys.extend_def hook_start_defs board_wf_def rt_wf_def names_ok_def sync_zero_def sync_wf_def
        rs_ok_def ring_share_zero_def ss_ok_def shared_state_zero_def table_wf_init role_ok_def routing_zero_def
        events_ok_def cm_wf_def cm_zero_def startup_networks_def cm_consts pm_zero_def im_ok_def im_zero_def im_packet_zero_def
        im_packet_ok_def messages_ok_def rs_consts node_start_state_def rm_zero_def UUID_LENGTH_def)
qed

lemma rs_ok_register: "rs_ok rs \<Longrightarrow> rs_ok (rs_register_component (callback_component cb) (Some cb) rs)"
  using component_num_less [of "callback_component cb"]
  by (auto simp: rs_ok_def rs_register_component_def nth_list_update rs_consts split: if_splits)

lemmas rs_registered = rs_ok_register [of _ SyncOnSibling, simplified] rs_ok_register [of _ RoutingOnSibling, simplified]
  rs_ok_register [of _ SharedStateOnSibling, simplified] rs_ok_register [of _ ChannelManagerOnSibling, simplified]
  rs_ok_register [of _ ResetManagerOnSibling, simplified] rs_ok_register [of _ InfoManagerOnSibling, simplified]
  rs_ok_register [of _ PriorityManagerOnSibling, simplified]

lemma rs_ok_zero: "rs_ok ring_share_zero" "rs_ok (ring_share_zero\<lparr>rs_siblings_set := True\<rparr>)"
  by (simp_all add: rs_ok_def ring_share_zero_def)

lemma internal_messages_wf:
  assumes "board_wf d" "node_setup_internal_messages ok ori d = Some d'"
  shows "board_wf d'"
proof -
  have "cm_wf cm" if "cm_init ori c rs = Some (cm, rs')" "cm_wf c" for c cm rs rs'
    using that by (auto simp: cm_init_def cm_wf_def cm_consts aget_def formation_1_def split: if_splits Option.bind_splits)
  moreover have "rs_ok rs'" if "cm_init ori c rs = Some (cm, rs')" "rs_ok rs" for c cm rs rs'
    using that rs_registered(4) by (auto simp: cm_init_def split: Option.bind_splits)
  ultimately show ?thesis
    using assms rs_ok_zero
    by (auto simp: node_setup_internal_messages_def rs_init_def sb_register_callback_def pm_init_def im_init_def
        rm_init_def os_panic_def Let_def board_wf_def rt_wf_def names_ok_def messages_ok_def im_ok_def rs_registered
        im_packet_zero_def im_packet_ok_def im_consts split: Option.bind_splits if_splits)
qed

text \<open>The messages of the reset manager, sent until they are taken.\<close>

definition keeps_uuid :: "(reset_manager \<Rightarrow> link \<Rightarrow> bool \<times> reset_manager \<times> link) \<Rightarrow> bool" where
  "keeps_uuid send \<longleftrightarrow> (\<forall>rm l ok rm' l'. length (rm_uuid rm) \<le> UUID_LENGTH \<longrightarrow> send rm l = (ok, rm', l') \<longrightarrow>
     length (rm_uuid rm') \<le> UUID_LENGTH)"

lemma reset_keeps_uuid: "keeps_uuid rm_broadcast_reset" "keeps_uuid (rm_broadcast_startup_info b)"
  using rm_uuid_length(2,3) unfolding keeps_uuid_def by blast+

lemma board_wf_rmgr:
  "board_wf d \<Longrightarrow> (length (rm_uuid (rmgr d)) \<le> UUID_LENGTH \<Longrightarrow> length (rm_uuid r) \<le> UUID_LENGTH) \<Longrightarrow>
   board_wf (d\<lparr>rmgr := r, lk := l\<rparr>)"
  by (simp add: board_wf_def rt_wf_def names_ok_def messages_ok_def)

lemma until_sent_wf: "until_sent send k d = Some d' \<Longrightarrow> keeps_uuid send \<Longrightarrow> board_wf d \<Longrightarrow> board_wf d'"
proof (induction k arbitrary: d)
  case (Suc k)
  obtain ok rm l where s: "send (rmgr d) (lk d) = (ok, rm, l)" by (cases "send (rmgr d) (lk d)")
  have "board_wf (d\<lparr>rmgr := rm, lk := l\<rparr>)"
    using board_wf_rmgr [OF Suc.prems(3)] Suc.prems(2) s unfolding keeps_uuid_def by blast
  with s Suc.prems Suc.IH [of "delay_ms 100 (d\<lparr>rmgr := rm, lk := l\<rparr>)"] show ?case by (cases ok) auto
qed simp

lemma wait_until_up_wf:
  "wait_until_up others k n d = Some d' \<Longrightarrow> \<forall>i x. board_wf x \<longrightarrow> board_wf (others i x) \<Longrightarrow> board_wf d \<Longrightarrow> board_wf d'"
proof (induction k arbitrary: n d)
  case (Suc k)
  obtain should l where s: "rm_should_device_reset (rmgr d) (lk d) = (should, l)"
    by (cases "rm_should_device_reset (rmgr d) (lk d)")
  show ?case
  proof (cases "rm_is_device_up (rmgr d)")
    case False
    let ?d = "d\<lparr>lk := l\<rparr>"
    obtain d2 where d2: "(if should then until_sent rm_broadcast_reset (Suc k) ?d else Some ?d) = Some d2"
      "wait_until_up others k (Suc n) (others n (delay_ms 100 d2)) = Some d'"
      using Suc.prems(1) False s by (auto simp: Let_def simp del: until_sent.simps split: Option.bind_splits)
    have "board_wf d2"
      using d2(1) until_sent_wf [OF _ reset_keeps_uuid(1), of "Suc k" ?d d2] Suc.prems(3)
      by (auto simp del: until_sent.simps split: if_splits)
    with Suc.prems(2) Suc.IH [OF d2(2)] show ?thesis by simp
  qed (use Suc.prems in simp)
qed simp

lemma layers_wf:
  assumes "board_wf d" "node_setup_layers ip4 bits a d = Some d'"
  shows "board_wf d'"
proof -
  obtain rc1 x1 where 1: "node_init_event_queues (queues_ok a) d = (rc1, x1)" by fastforce
  obtain rc2 x2 where 2: "node_start_event_tasks (task1_ok a) (task2_ok a) (task3_ok a) x1 = (rc2, x2)" by fastforce
  define x4 where "x4 = upd_nd (\<lambda>n. n\<lparr>node_orientation := node_get_config_orientation (config_setup ip4 bits (s_config (lk x2)))\<rparr>)
    (x2\<lparr>lk := (lk x2)\<lparr>s_config := config_setup ip4 bits (s_config (lk x2))\<rparr>\<rparr>)"
  obtain x5 where 5: "node_setup_internal_messages (rs_mutex_ok a)
      (node_get_config_orientation (config_setup ip4 bits (s_config (lk x2)))) x4 = Some x5"
    and d': "\<exists>x6 pool ns l. snd (device_wifi_init (nvs_rc a) (nvs_again_rc a) (delay_ms x6 x5))\<lparr>rxp := pool, nif := ns, lk := l\<rparr> = d'"
    using assms(2) 1 2 by (auto simp: node_setup_layers_def x4_def Let_def case_prod_unfold split: if_splits Option.bind_splits)
  have "board_wf x1" using 1 assms(1) by (auto simp: node_init_event_queues_def board_wf_def rt_wf_def names_ok_def messages_ok_def)
  then have "board_wf x2" using 2 by (auto simp: node_start_event_tasks_def Let_def split: if_splits)
  moreover have "unat (node_get_config_orientation c) < 5" for c
  proof -
    have "unat (config_get_id c) < 4" if "drop_bit 2 (config_get_id c) = 0"
      using arg_cong [OF that, of unat] by (simp add: drop_bit_eq_div unat_div_distrib)
    then show ?thesis by (auto simp: node_get_config_orientation_def NODE_DEVICE_ORIENTATION_CENTER_def Let_def)
  qed
  ultimately have "board_wf x4"
    by (simp add: x4_def board_wf_def rt_wf_def names_ok_def messages_ok_def upd_nd_def)
  then have "board_wf x5" by (rule internal_messages_wf) (rule 5)
  then have "board_wf (snd (device_wifi_init (nvs_rc a) (nvs_again_rc a) (delay_ms x6 x5)))" for x6
    by (simp add: device_wifi_init_def init_nvs_def)
  with d' show ?thesis by auto
qed

lemma center_wf:
  assumes "node_setup_center fuel d = Some d'" "board_wf d"
  shows "board_wf d'"
proof -
  obtain x where x: "until_sent rm_broadcast_reset fuel d = Some x"
    "until_sent (rm_broadcast_startup_info (config_mode_is CONFIG_MODE_ROOT (s_config (lk x)))) fuel (delay_ms 10000 x) = Some d'"
    using assms(1) by (auto simp: node_setup_center_def simp del: until_sent.simps split: Option.bind_splits)
  from until_sent_wf [OF x(2) reset_keeps_uuid(2)] until_sent_wf [OF x(1) reset_keeps_uuid(1) assms(2)]
  show ?thesis by simp
qed

lemma setup_wf:
  assumes "node_setup ip4 bits a others fuel d = Some d'" "\<forall>i x. board_wf x \<longrightarrow> board_wf (others i x)" "board_wf d"
  shows "board_wf d'"
proof -
  obtain d1 d2 where d1: "node_setup_layers ip4 bits a d = Some d1"
    and d2: "(if node_orientation (nd d1) = NODE_DEVICE_ORIENTATION_CENTER then node_setup_center fuel d1
      else wait_until_up others fuel 0 d1) = Some d2" and d': "d' = node_setup_finish d2"
    using assms(1) by (auto simp: node_setup_def split: Option.bind_splits)
  have "board_wf d1" using layers_wf [OF assms(3) d1] .
  then have "board_wf d2"
    using d2 center_wf wait_until_up_wf [OF _ assms(2)] by (auto split: if_splits)
  then show ?thesis
    by (simp add: d' node_setup_finish_def im_scheduler_start_def board_wf_def rt_wf_def names_ok_def im_ok_def
        messages_ok_def driver_def upd_nd_def rm_get_uuid_def)
qed

lemma main_create_wf: "board_wf d \<Longrightarrow> board_wf (main_create ss_ok1 rt_ok1 d)"
proof -
  assume w: "board_wf d"
  have n: "networks_ok ori forwarder_start" for ori by (simp add: networks_ok_def forwarder_start_def)
  have s: "sync_wf (sync_leader_init (sync_zero\<lparr>sync_orientation := ori, is_leader := b\<rparr>))"
    "sync_wf (sync_follower_init (sync_zero\<lparr>sync_orientation := ori, is_leader := b\<rparr>))" for ori b
    by (simp_all add: sync_leader_init_def sync_follower_init_def sync_zero_def sync_wf_def)
  have sec: "sync_wf (sync_register_critical_section c cb x) = sync_wf x" for c cb x
    by (simp add: sync_register_critical_section_def sync_wf_def)
  have z: "ss_ok (shared_state_zero\<lparr>ss_orientation := ori\<rparr>)"
    "ss_ok (shared_state_zero\<lparr>ss_orientation := ori, ss_data := (ss_data shared_state_zero)
      [component_num RS_ROUTING := \<lparr>sd_ptr = Some NodeRoutingTable, sd_length = of_nat SIZEOF_ROUTING_TABLE\<rparr>]\<rparr>)" for ori
    by (auto simp: ss_ok_def shared_state_zero_def nth_list_update rs_consts)
  show ?thesis
    using w s z
    by (auto simp: main_create_def sync_init_def ss_init_def rt_create_def ss_watch_def node_set_routing_hook_def
        rt_init_root_def rt_init_home_def rt_init_forwarder_def create_root_core_def create_home_core_def
        create_forwarder_core_def set_root_def upd_rt_def Let_def board_wf_def rt_wf_def names_ok_def messages_ok_def sec
        role_ok_def n events_ok_def routing_zero_def table_wf_init rs_registered)
qed

text \<open>What the routing does at its start before it asks for the lock.\<close>

definition before_start :: "'a rt_sys_scheme \<Rightarrow> 'a rt_sys_scheme" where
  "before_start d = delay_ms (NODE_STARTUP_DELAY_SECONDS * 1000) ((upd_rt (\<lambda>r. r\<lparr>internal_queue := [SiblOnStart]\<rparr>) d)
    \<lparr>rsh := rs_register_component RS_ROUTING (Some RoutingOnSibling) (rsh d)\<rparr>)"

lemma rt_on_start_split: "rt_on_start d = sync_request_critical_section RS_ROUTING (before_start d)"
  by (simp add: rt_on_start_def before_start_def upd_rt_def Let_def)

lemma before_start_more [simp]:
  "rt_sys.more (before_start d) = rt_sys.more d" "rt_orientation (rt (before_start d)) = rt_orientation (rt d)"
  by (simp_all add: before_start_def upd_rt_def delay_ms_def)

lemma before_start_wf: "rt_wf d \<Longrightarrow> rt_wf (before_start d)"
  by (simp add: before_start_def) (auto simp: rt_wf_def names_ok_def upd_rt_def role_ok_def events_ok_def
      rs_registered rt_consts split: rt_role.splits)

lemma on_start_keeps:
  "rt_wf d \<Longrightarrow> rt_on_start d = Some d' \<Longrightarrow> rt_wf d' \<and> rt_sys.more d' = rt_sys.more d"
  using request_wf [OF before_start_wf, of d RS_ROUTING d'] by (simp add: rt_on_start_split)

lemma on_start_wf: "board_wf d \<Longrightarrow> rt_on_start d = Some d' \<Longrightarrow> board_wf d'"
  using on_start_keeps [of d d'] board_wf_keeps [of d d'] by (simp add: board_wf_def)

lemma app_main_wf:
  assumes "board_wf d" "app_main m1 m2 d = Some d'"
  shows "board_wf d'"
proof -
  obtain d1 where d1: "rt_on_start (main_create m1 m2 d) = Some d1" and d': "keeps_routing (rt_on_tick 1 d1) d'"
    using assms(2) by (auto simp: app_main_def Let_def routing_kept split: Option.bind_splits if_splits
        dest!: node_set_as_ap_keeps node_set_as_sta_keeps intro: keeps_routing_trans)
  have w: "board_wf d1" using on_start_wf [OF main_create_wf [OF assms(1)] d1] .
  then have "rt_wf (rt_on_tick 1 d1)" by (intro tick_wf(1)) (simp add: board_wf_def)
  from keeps_board [OF d' board_wf_keeps [OF w this tick_wf(2)]] show ?thesis .
qed

text \<open>
  What a board can come to: it is switched on, set up and started by the main program, and other
  tasks run before, between and after, and while the setup waits.
\<close>

inductive board_life :: "environment \<Rightarrow> board \<Rightarrow> bool" for e where
  switched_on: "board_life e (board_start e)"
| set_up: "board_life e d \<Longrightarrow> node_setup ip4 bits a others fuel d = Some d' \<Longrightarrow>
    \<forall>i x. board_step\<^sup>*\<^sup>* x (others i x) \<Longrightarrow> board_life e d'"
| main_program: "board_life e d \<Longrightarrow> app_main m1 m2 d = Some d' \<Longrightarrow> board_life e d'"
| runs_on: "board_life e d \<Longrightarrow> board_step d d' \<Longrightarrow> board_life e d'"

section \<open>Property\<close>

text \<open>
  Property C20 (the whole board, types): whatever a board goes through, its memory stays well formed:
  the arrays of all components keep the lengths they are declared with, so the indices that the
  code checks stay inside them; the seven queues hold no more than they have room for; each
  callback of the ring stands at the number of its component; what is shared is the routing table,
  in full; the events that wait, the packets of the reports, the table, and the networks of the
  role are well formed. This holds for every environment and every order of the tasks, as long as
  the shared tables that come in over the ring are well formed.
\<close>

theorem board_life_wf:
  assumes "board_life e d"
  shows "board_wf d"
  using assms
proof (induction rule: board_life.induct)
  case switched_on
  show ?case by (rule board_start_wf)
next
  case (set_up d ip4 bits a others fuel d')
  have "\<forall>i x. board_wf x \<longrightarrow> board_wf (others i x)"
    using set_up(3) board_run_wf by blast
  from setup_wf [OF set_up(2) this set_up(4)] show ?case .
next
  case (main_program d m1 m2 d')
  then show ?case using app_main_wf by blast
next
  case (runs_on d d')
  then show ?case using board_step_wf by blast
qed

theorem board_life_wf_witness:
  "\<exists>d. node_setup (\<lambda>_ _ _ _. 0) 4 \<lparr>queues_ok = True, task1_ok = True, task2_ok = True, task3_ok = True,
     rs_mutex_ok = True, nvs_rc = ESP_OK, nvs_again_rc = ESP_OK, ring_ans = \<lparr>spi_freq = 8000000, spi_answer = (\<lambda>_. ESP_OK), spi_queues_ok = True, bcast_mutex_ok = True,
       internal_queue_ok = True, internal_task_ok = True, netif_new_ok = True, netif_calloc_ok = True,
       netif_mac_rc = ESP_OK, netif_queue_ok = True, netif_task_ok = True, ring_task_ok = True\<rparr>\<rparr>
     (\<lambda>_ x. x) 1 (board_start quiet_env) = Some d \<and> board_wf (routing_task_round d)"
  (is "\<exists>d. node_setup ?ip 4 ?a ?others 1 ?d = Some d \<and> _")
proof -
  have e: "env (lk ?d) = quiet_env"
    by (simp add: board_start_def hk_sys.extend_def hook_start_defs link_init_def)
  obtain d1 where d1: "node_setup_layers ?ip 4 ?a ?d = Some d1"
    using layers_ok [of ?a ?ip 4 ?d] by (auto simp: answers_ok_def)
  from layers_result [OF d1] e have 1: "env (lk d1) = quiet_env" "rm_rs_set (rmgr d1)"
    "node_orientation (nd d1) = NODE_DEVICE_ORIENTATION_CENTER"
    by (simp_all add: drop_bit_eq_div)
  then obtain d2 where "node_setup_center (Suc 0) d1 = Some d2"
    using center_setup_ends [of d1 0] by (auto simp: reliable_def quiet_env_def ring_link_netif_mtu_def)
  then have s: "node_setup ?ip 4 ?a ?others 1 ?d = Some (node_setup_finish d2)"
    using d1 1(3) by (simp add: node_setup_def)
  have "board_life quiet_env (routing_task_round (node_setup_finish d2))"
    by (rule runs_on [OF set_up [OF switched_on s] routing_task]) simp
  from board_life_wf [OF this] s show ?thesis by blast
qed

end
