(* ===== verification/Board_Defined.thy ===== *)
theory Board_Defined
  imports Board_Life
begin

text \<open>
  What can bring a board into undefined behaviour: in a well-formed board every round of the tasks
  of \<open>Callbacks\<close> is defined but for three kinds of messages, each of which is named here. The
  indices that are taken from a message, the shifts of the subnets, and the copies of the shared
  table are what could fail.
\<close>

section \<open>The operations on routes and networks\<close>

lemma refresh_defined:
  assumes "ss_ok (ss d)"
  shows "\<exists>d'. ss_refresh c d = Some d'"
proof -
  have "ss_data (ss d) ! component_num c = \<lparr>sd_ptr = Some NodeRoutingTable, sd_length = of_nat SIZEOF_ROUTING_TABLE\<rparr> \<or>
      sd_ptr (ss_data (ss d) ! component_num c) = None \<and> sd_length (ss_data (ss d) ! component_num c) = 0"
    using assms component_num_less [of c] by (auto simp: ss_ok_def)
  then show ?thesis
    using sizeof_table_byte
    by (auto simp: ss_refresh_def broadcast_data_def ss_peek_def Let_def SIZEOF_ROUTING_TABLE_def)
qed

lemma add_defined: "ss_ok (ss d) \<Longrightarrow> \<exists>d'. add_global_route n out d = Some d'"
  by (auto simp: add_global_route_def board_panic_def Let_def case_prod_unfold intro!: refresh_defined)

lemma remove_defined: "ss_ok (ss d) \<Longrightarrow> \<exists>d'. remove_routes_by_output out d = Some d'"
  by (auto simp: remove_routes_by_output_def intro!: refresh_defined)

lemma hag_defined: "ss_ok (ss d) \<Longrightarrow> \<exists>d'. add_hag_routes first ns d = Some d'"
proof (induction ns arbitrary: d)
  case (Cons n ns)
  obtain d1 where 1: "add_global_route n (rt_orientation (rt d)) d = Some d1"
    using add_defined [OF Cons.prems] by blast
  with Cons.IH [of d1] add_route_result(4) [OF 1] Cons.prems show ?case by simp
qed simp

lemma names_ok_cong:
  "nd d' = nd d \<Longrightarrow> rmgr d' = rmgr d \<Longrightarrow> names_ok d' = names_ok d"
  by (simp add: names_ok_def)

lemma init_ap_defined:
  assumes "unat ori < 5" "length uuid \<le> UUID_LENGTH" "ori = CONFIG_ID_CENTER \<and> length prefix < 32 \<or> length prefix \<le> 15"
  shows "\<exists>d'. device_init uuid ori prefix pw ch mc root apsta AP d = Some d'"
proof -
  obtain tag where "aget orientation_tags (unat ori) = Some tag" "length tag = 3"
    using assms(1) by (auto simp: aget_def orientation_tags_def chars_def nth_Cons' split: if_splits)
  with assms(2,3) show ?thesis
    by (auto simp: device_init_def device_init_ap_def Let_def UUID_LENGTH_def)
qed

lemma as_ap_defined:
  assumes "names_ok d"
  shows "\<exists>d'. node_set_as_ap n m d = Some d'"
proof -
  define d0 where "d0 = (if dev_mode (dev d) \<noteq> NAN then device_reset d else d)"
  obtain ch l where c: "cm_get_suggested_channel (cmgr (node_set_network_settings n m d0))
      (lk (node_set_network_settings n m d0)) = (ch, l)"
    by (cases "cm_get_suggested_channel (cmgr (node_set_network_settings n m d0))
      (lk (node_set_network_settings n m d0))")
  have nd0: "nd d0 = nd d"
    by (simp add: d0_def device_reset_def device_destroy_netif_def ap_destroy_netif_def station_destroy_netif_def
        device_disconnect_station_def device_stop_station_task_def station_disconnect_def station_stop_def ap_stop_def
        Let_def split: device_mode.splits) (simp add: board_updates)
  define d2 where "d2 = (node_set_network_settings n m d0)\<lparr>lk := l\<rparr>"
  have nd: "node_orientation (nd d2) = node_orientation (nd d)" "node_uuid (nd d2) = node_uuid (nd d)"
    using nd0 by (simp_all add: d2_def node_set_network_settings_def upd_nd_def)
  define root where "root = node_is_center_root (nd d2)"
  have o: "node_uuid (nd (orientation_delay d2)) = node_uuid (nd d)"
    "node_uuid (nd (upd_nd (\<lambda>n. n\<lparr>node_is_apsta := True\<rparr>) (orientation_delay d2))) = node_uuid (nd d)"
    using nd by (simp_all add: orientation_delay_def delay_ms_def upd_nd_def)
  obtain prefix pw mc where id: "ap_identity (node_orientation (nd d)) root = (prefix, pw, mc)"
    by (cases "ap_identity (node_orientation (nd d)) root")
  then have "node_orientation (nd d) = CONFIG_ID_CENTER \<and> length prefix < 32 \<or> length prefix \<le> 15"
    by (auto simp: ap_identity_def NODE_DEVICE_ORIENTATION_CENTER_def CONFIG_ID_CENTER_def NAT_NETWORK_NAME_def
        HOUSE_NETWORK_NAME_def NODE_NAME_PREFIX_def chars_def split: if_splits)
  note init = init_ap_defined [OF _ _ this, of "node_uuid (nd d)"]
  obtain ip gw msk where addr: "ap_addresses (node_orientation (nd d)) root n m = (ip, gw, msk)"
    by (cases "ap_addresses (node_orientation (nd d)) root n m")
  define d4 where "d4 = (if node_orientation (nd d) = NODE_DEVICE_ORIENTATION_CENTER \<or> root then orientation_delay d2
    else upd_nd (\<lambda>n. n\<lparr>node_is_apsta := True\<rparr>) (orientation_delay d2))"
  have "node_uuid (nd d4) = node_uuid (nd d)" using o by (simp add: d4_def)
  then obtain d5 where "device_init (node_uuid (nd d4)) (node_orientation (nd d)) prefix pw ch mc (bool_u8 root)
      (bool_u8 (node_is_apsta (nd d4))) AP d4 = Some d5"
    using init [of pw ch mc "bool_u8 root" "bool_u8 (node_is_apsta (nd d4))" d4] assms by (auto simp: names_ok_def)
  then show ?thesis
    unfolding node_set_as_ap_def Let_def d0_def [symmetric] c prod.case d2_def [symmetric] nd root_def [symmetric] id addr
      d4_def [symmetric]
    by simp
qed

section \<open>The handlers of the routing\<close>

text \<open>A network fits a board when a block can be taken out of it for the orientation of the board.\<close>

definition fits :: "u8 \<Rightarrow> network_t \<Rightarrow> bool" where
  "fits ori n \<longleftrightarrow> get_node_subnet n (ucast ori) \<noteq> None"

fun sibl_event_fits :: "u8 \<Rightarrow> rt_sibl_event \<Rightarrow> bool" where
  "sibl_event_fits ori (SiblProvision provider dtr n) \<longleftrightarrow> fits ori n"
| "sibl_event_fits ori _ \<longleftrightarrow> True"

fun peer_event_fits :: "u8 \<Rightarrow> rt_peer_event \<Rightarrow> bool" where
  "peer_event_fits ori (PeerHandshake external provided dtr) \<longleftrightarrow> fits ori provided"
| "peer_event_fits ori _ \<longleftrightarrow> True"

definition events_fit :: "'a rt_sys_scheme \<Rightarrow> bool" where
  "events_fit d \<longleftrightarrow> (\<forall>e \<in> set (internal_queue (rt d)). sibl_event_fits (rt_orientation (rt d)) e) \<and>
     (\<forall>e \<in> set (external_queue (rt d)). peer_event_fits (rt_orientation (rt d)) e)"

lemma names_ok_upd [simp]:
  "names_ok (upd_fw f d) = names_ok d" "names_ok (node_set_network_settings n m d) = names_ok d"
  by (simp_all add: names_ok_def upd_fw_def upd_rt_def node_set_network_settings_def upd_nd_def)

lemma settings_simps [simp]:
  "ss (node_set_network_settings n m d) = ss d" "rt (node_set_network_settings n m e) = rt e"
  by (simp_all add: node_set_network_settings_def upd_nd_def)

lemma enable_ap_defined: "names_ok d \<Longrightarrow> \<exists>d'. wl_enable_ap_mode n d = Some d'"
  using as_ap_defined by (simp add: wl_enable_ap_mode_def)

lemma names_ok_add: "add_global_route n out d = Some d' \<Longrightarrow> names_ok d \<Longrightarrow> names_ok d'"
  using add_route_result(6,13) [of n out d d'] by (simp add: names_ok_def)

lemma provision_defined:
  assumes "ss_ok (ss d)" "names_ok d" "fits (rt_orientation (rt d)) n"
  shows "\<exists>d'. home_on_provision n s d = Some d'" "\<exists>d'. fwd_on_provision dtr n d = Some d'"
    "\<exists>d'. fwd_on_handshake ext n k d = Some d'"
proof -
  obtain block where block: "own_subnet n d = Some block"
    using assms(3) by (auto simp: fits_def own_subnet_def)
  obtain d1 where d1: "add_global_route block (rt_orientation (rt d)) d = Some d1"
    using add_defined [OF assms(1)] by blast
  moreover obtain d2 where "wl_enable_ap_mode block d1 = Some d2"
    using enable_ap_defined [OF names_ok_add [OF d1 assms(2)]] by blast
  ultimately show "\<exists>d'. home_on_provision n s d = Some d'" using block by (auto simp: home_on_provision_def)
  show "\<exists>d'. fwd_on_provision dtr n d = Some d'"
    using block assms(2) by (auto simp: fwd_on_provision_def intro!: enable_ap_defined)
  show "\<exists>d'. fwd_on_handshake ext n k d = Some d'"
  proof (cases "fw_global_state (fw d) = GLOBAL_STATE_WITHOUT_NETWORK")
    case True
    let ?d2 = "node_set_network_settings (nw_addr block) (nw_mask block) (upd_fw (\<lambda>s. s\<lparr>fw_dtr := k,
      fw_device_network := block, fw_node_network := n, fw_global_state := GLOBAL_STATE_WITH_NETWORK,
      fw_is_local_root := True\<rparr>) d)"
    obtain d3 where "add_global_route (NETWORK 0 0) (rt_orientation (rt ?d2)) ?d2 = Some d3"
      using add_defined [of ?d2] assms(1) by auto
    with True block show ?thesis by (simp add: fwd_on_handshake_def Let_def)
  next
    case False
    with add_defined [OF assms(1)] show ?thesis by (simp add: fwd_on_handshake_def)
  qed
qed

lemma sibl_handler_defined:
  assumes "rt_wf d" "sibl_event_fits (rt_orientation (rt d)) e"
  shows "\<exists>r. sibl_handler e d = Some r"
proof -
  have ok: "ss_ok (ss d)" "names_ok d" using assms(1) by (simp_all add: rt_wf_def)
  have root: "\<exists>d'. root_on_start s d = Some d'" for s
    using add_defined [OF ok(1), of "NETWORK 0 0" "rt_orientation (rt d)"]
    by (auto simp: root_on_start_def case_prod_unfold Let_def)
  show ?thesis
    using assms(2) provision_defined(1,2) [OF ok] refresh_defined [OF ok(1)] root
    by (cases e; cases "rt_role (rt d)") (auto simp: sibl_handler_def home_on_start_def)
qed

lemma peer_handler_defined:
  assumes "rt_wf d" "peer_event_fits (rt_orientation (rt d)) e"
  shows "\<exists>r. peer_handler e d = Some r"
proof -
  have ok: "ss_ok (ss d)" "names_ok d" using assms(1) by (simp_all add: rt_wf_def)
  have add: "\<exists>x. add_global_route n out (upd_fw f d) = Some x" for n out f
    by (rule add_defined) (simp add: ok(1))
  have 1: "\<exists>x. fwd_on_peer_update_dtr k d = Some x" for k
  proof -
    obtain x where "add_global_route (NETWORK 0 0) (rt_orientation (rt d))
        (upd_fw (\<lambda>s. s\<lparr>fw_dtr := k + 1, fw_is_local_root := True\<rparr>) d) = Some x"
      using add by blast
    then show ?thesis by (simp add: fwd_on_peer_update_dtr_def Let_def)
  qed
  have 2: "\<exists>x. fwd_on_new_gateway_request ns d = Some x" for ns
    using hag_defined [OF ok(1), of "hd ns" ns] by (auto simp: fwd_on_new_gateway_request_def Let_def)
  have 3: "\<exists>x. fwd_on_new_gateway_response n k d = Some x" for n k
  proof -
    obtain x where "add_global_route (NETWORK 0 0) (rt_orientation (rt d)) (upd_fw (\<lambda>s. s\<lparr>
        fw_global_state := GLOBAL_STATE_WITH_NETWORK, fw_is_local_root := True, fw_dtr := k + 1\<rparr>) d) = Some x"
      using add by blast
    then show ?thesis by (simp add: fwd_on_new_gateway_response_def Let_def)
  qed
  have 4: "\<exists>x. fwd_on_peer_lost d = Some x"
  proof -
    let ?d = "upd_fw (\<lambda>s. s\<lparr>fw_local_state := LOCAL_STATE_NOT_CONNECTED\<rparr>) d"
    obtain x where "remove_routes_by_output (rt_orientation (rt d)) ?d = Some x"
      using remove_defined [of ?d] ok(1) by auto
    then show ?thesis by (simp add: fwd_on_peer_lost_def Let_def)
  qed
  show ?thesis
    using assms(2) provision_defined(3) [OF ok] 1 2 3 4
    by (cases e; cases "rt_role (rt d)") (auto simp: peer_handler_def)
qed

section \<open>Critical sections\<close>

lemma dispatch_defined:
  assumes h: "\<And>e d. P d \<Longrightarrow> e \<in> set es \<Longrightarrow> \<exists>r. h e d = Some r"
    and keep: "\<And>e d d'. P d \<Longrightarrow> h e d = Some (Inr d') \<Longrightarrow> P d'" and panic: "\<And>i d. P d \<Longrightarrow> P (panic i d)"
  shows "P d \<Longrightarrow> \<exists>fin d'. dispatch_events h panic es d = Some (fin, d') \<and> P d'"
  using h
proof (induction es arbitrary: d)
  case (Cons e es)
  obtain r where r: "h e d = Some r" using Cons.prems by force
  with Cons.prems Cons.IH keep panic show ?case by (cases r) auto
qed auto

text \<open>The board that the events of one critical section meet.\<close>

definition in_section :: "routing \<Rightarrow> 'a rt_sys_scheme \<Rightarrow> bool" where
  "in_section r d \<longleftrightarrow> rt_wf d \<and> queues (rt d) = queues r"

lemma in_section_handler:
  "in_section r d \<Longrightarrow> sibl_handler e d = Some (Inr d') \<Longrightarrow> in_section r d'"
  "in_section r d \<Longrightarrow> peer_handler f d = Some (Inr d') \<Longrightarrow> in_section r d'"
  using rt_wf_rest [OF sibl_handler_rest sibl_handler_core [OF rt_wf_core]] sibl_handler_queues [of e d d']
    rt_wf_rest [OF peer_handler_rest peer_handler_core [OF rt_wf_core]] peer_handler_queues [of f d d']
  unfolding in_section_def by fastforce+

lemma in_section_panic: "in_section r d \<Longrightarrow> in_section r (board_panic m d)"
  by (simp add: in_section_def)

lemma critical_section_defined:
  fixes d :: "'a rt_sys_scheme"
  assumes "rt_wf d" "events_fit d"
  shows "\<exists>d'. on_critical_section d = Some d'"
proof -
  have in0: "in_section (rt d) d" using assms(1) by (simp add: in_section_def)
  have o: "rt_orientation (rt x) = rt_orientation (rt d)" "external_queue (rt x) = external_queue (rt d)"
    if "in_section (rt d) x" for x :: "'a rt_sys_scheme"
    using that by (simp_all add: in_section_def queues_def)
  have s: "\<exists>r. sibl_handler e x = Some r" if "in_section (rt d) x" "e \<in> set (internal_queue (rt d))"
    for e and x :: "'a rt_sys_scheme"
    using sibl_handler_defined [of x e] that o(1) [OF that(1)] assms(2) by (simp add: in_section_def events_fit_def)
  have p: "\<exists>r. peer_handler e x = Some r" if "in_section (rt d) x" "e \<in> set (external_queue (rt d))"
    for e and x :: "'a rt_sys_scheme"
    using peer_handler_defined [of x e] that o(1) [OF that(1)] assms(2) by (simp add: in_section_def events_fit_def)
  have "\<exists>more d1. dispatch_events sibl_handler (\<lambda>_. board_panic ''Unknown sibling message'')
      (internal_queue (rt d)) d = Some (more, d1) \<and> in_section (rt d) d1"
    by (rule dispatch_defined [where P = "in_section (rt d)"])
      (use s in_section_handler(1) in_section_panic in0 in blast)+
  then obtain more d1 where 1: "dispatch_events sibl_handler (\<lambda>_. board_panic ''Unknown sibling message'')
      (internal_queue (rt d)) d = Some (more, d1)" "in_section (rt d) d1" by blast
  have "\<exists>fin d2. dispatch_events peer_handler (\<lambda>_. board_panic ''Unknown peer message'')
      (external_queue (rt d)) d1 = Some (fin, d2) \<and> in_section (rt d) d2"
    by (rule dispatch_defined [where P = "in_section (rt d)"])
      (use p in_section_handler(2) in_section_panic 1(2) in blast)+
  then obtain fin d2 where "dispatch_events peer_handler (\<lambda>_. board_panic ''Unknown peer message'')
      (external_queue (rt d1)) d1 = Some (fin, d2)"
    using o(2) [OF 1(2)] by auto
  with 1(1) show ?thesis by (simp add: on_critical_section_def)
qed

lemma events_fit_section:
  assumes "on_critical_section d = Some d'" "events_fit d"
  shows "events_fit d'"
  using critical_section_queues [OF assms(1)] assms(2) by (auto simp: events_fit_def queues_def split: if_splits)

section \<open>The lock\<close>

text \<open>The number of the critical section in a message of the lock is in range.\<close>

definition sync_fits :: "byte list \<Rightarrow> bool" where
  "sync_fits raw \<longleftrightarrow> (case sync_msg_of_bytes raw of
     Some (TokenRequest cs) \<Rightarrow> unat cs < RS_LAST_COMPONENT_ID
   | Some (TokenGrant dst cs) \<Rightarrow> unat cs < RS_LAST_COMPONENT_ID | None \<Rightarrow> True)"

text \<open>A client whose callbacks are defined.\<close>

locale total_lock_client = lock_client +
  assumes run_defined: "P d \<Longrightarrow> \<exists>d'. run cb d = Some d'"
begin

lemma issue_defined: "P d \<Longrightarrow> cs < 7 \<Longrightarrow> \<exists>d'. issue_new_token cs d = Some d'"
  using sync_wf_lengths [OF P_wf, of d] by (simp add: issue_new_token_def aset_def)

lemma leader_defined: "P d \<Longrightarrow> cs < 7 \<Longrightarrow> \<exists>d'. leader_request_critical_section cs d = Some d'"
  using sync_wf_lengths [OF P_wf, of d] issue_defined
  by (auto simp: leader_request_critical_section_def aget_def aset_def)

lemma request_defined: "P d \<Longrightarrow> \<exists>d'. sync_request_critical_section c d = Some d'"
  using leader_defined [of d "component_num c"] component_num_less [of c]
  by (auto simp: sync_request_critical_section_def follower_request_critical_section_def rs_consts
      split: sync_impl.splits)

lemma inside_defined: "P d \<Longrightarrow> cs < 7 \<Longrightarrow> \<exists>d'. set_inside cs b d = Some d'"
  using sync_wf_lengths [OF P_wf, of d] by (simp add: set_inside_Some)

lemma callback_defined: "P d \<Longrightarrow> cs < 7 \<Longrightarrow> \<exists>d'. run_callback run cs d = Some d'"
proof -
  assume P: "P d" "cs < 7"
  then obtain x where x: "aget (critical_sections (sy d)) cs = Some x"
    using sync_wf_lengths [OF P_wf, of d] by auto
  obtain d1 where 1: "set_inside cs True d = Some d1" using inside_defined [OF P] by blast
  show ?thesis
  proof (cases "cs_function x")
    case (Some cb)
    obtain d2 where 2: "run cb d1 = Some d2" using run_defined P_inside [OF P(1) 1] by blast
    obtain d3 where "set_inside cs False d2 = Some d3"
      using inside_defined [OF P_inside_run [OF P(1) 1 _ 2] P(2)] x Some by (auto simp: aget_def split: if_splits)
    with x Some 1 2 show ?thesis by (simp add: run_callback_def)
  qed (simp add: run_callback_def x)
qed

lemma back_defined: "P d \<Longrightarrow> cs < 7 \<Longrightarrow> \<exists>d'. leader_token_back cs d = Some d'"
  using sync_wf_lengths [OF P_wf, of d] issue_defined [OF P_on_leader, of d]
  by (auto simp: leader_token_back_def aget_def aset_def Let_def)

lemma message_defined:
  assumes "P d" "sync_fits raw"
  shows "\<exists>d'. sync_on_sibling_message run raw d = Some d'"
proof (cases "sync_msg_of_bytes raw")
  case (Some m)
  show ?thesis
  proof (cases m)
    case (TokenRequest cs)
    with Some assms leader_defined [of d "unat cs"] show ?thesis
      by (auto simp: sync_on_sibling_message_def sync_fits_def leader_on_token_request_def rs_consts split: sync_impl.splits)
  next
    case (TokenGrant dst cs)
    then have cs: "unat cs < 7" using Some assms(2) by (simp add: sync_fits_def rs_consts)
    obtain d1 where d1: "run_callback run (unat cs) d = Some d1" using callback_defined [OF assms(1) cs] by blast
    obtain d2 where "leader_token_back (unat cs) d1 = Some d2"
      using back_defined [OF P_callback [OF assms(1) d1] cs] by blast
    with d1 Some TokenGrant show ?thesis
      by (auto simp: sync_on_sibling_message_def leader_on_token_grant_def follower_on_token_grant_def split: sync_impl.splits)
  qed
qed (simp add: sync_on_sibling_message_def)

end

interpretation section_lock: total_lock_client "\<lambda>d. rt_wf d \<and> events_fit d" run_cs
proof unfold_locales
  fix d d' :: "'a rt_sys_scheme" and cb
  assume P: "rt_wf d \<and> events_fit d"
  then show "\<exists>d'. run_cs cb d = Some d'"
    using critical_section_defined [of d] by (cases cb) (simp add: run_cs_def)
  assume "run_cs cb d = Some d'"
  with P show "rt_wf d' \<and> events_fit d'"
    using critical_section_wf [of d d'] events_fit_section [of d d'] by (cases cb) (simp add: run_cs_def)
qed (simp_all add: rt_wf_def names_ok_def events_fit_def lock_calls)

section \<open>The callbacks of the ring and the tasks\<close>

text \<open>A request of the lock, whatever events wait.\<close>

lemma lock_request_defined:
  assumes "rt_wf d"
  shows "\<exists>d'. sync_request_critical_section c d = Some d'"
proof -
  note len = sync_wf_lengths [of "sy d"]
  have wf: "sync_wf (sy d)" using assms by (simp add: rt_wf_def)
  show ?thesis
    using len [OF wf] component_num_less [of c]
    by (cases "sync_impl (sy d)")
       (auto simp: sync_request_critical_section_def leader_request_critical_section_def issue_new_token_def
         follower_request_critical_section_def aget_def aset_def rs_consts)
qed

lemma queue_peer_defined:
  "rt_wf d \<Longrightarrow> peer_event_ok e \<Longrightarrow> \<exists>d'. queue_peer_message e d = Some d'"
  using lock_request_defined [OF queue_events_wf(2) [of d e], of RS_ROUTING] by (simp add: queue_peer_message_def rt_consts)

lemma rt_message_defined: "rt_wf d \<Longrightarrow> \<exists>d'. rt_on_sibling_message raw d = Some d'"
  using lock_request_defined [OF queue_events_wf(1) [OF _ decoded_ok(1)], of d RS_ROUTING raw]
  by (simp add: rt_on_sibling_message_def rt_consts)

lemma shared_message_defined:
  assumes "rt_wf d" "msg \<noteq> []"
  shows "\<exists>d'. ss_on_sibling_message msg d = Some d'"
proof (cases msg)
  case (Cons r bs)
  have "ss_ok (ss d)" using assms(1) by (simp add: rt_wf_def)
  then have "sd_ptr (ss_data (ss d) ! unat r) = None \<or> unat (sd_length (ss_data (ss d) ! unat r)) = SIZEOF_ROUTING_TABLE"
    if "unat r < RS_LAST_COMPONENT_ID"
    using that sizeof_table_byte by (auto simp: ss_ok_def SIZEOF_ROUTING_TABLE_def)
  then show ?thesis
    by (auto simp: Cons ss_on_sibling_message_def ss_poke_def Let_def not_le split: option.splits)
qed (use assms(2) in simp)

lemma channel_message_defined:
  assumes "rt_wf d"
  shows "\<exists>d'. node_on_channel_message msg d = Some d'"
proof -
  have "unat (cm_orientation (cmgr d)) < 5" using assms by (simp add: rt_wf_def cm_wf_def cm_consts)
  then show ?thesis
    by (auto simp: node_on_channel_message_def cm_on_sibling_message_def cm_message_of_bytes_def Let_def cm_consts
        SIZEOF_CM_MESSAGE_def aget_def)
qed

text \<open>The messages whose handling is not defined.\<close>

definition message_fits :: "'a rt_sys_scheme \<Rightarrow> byte list \<Rightarrow> bool" where
  "message_fits d m \<longleftrightarrow> m \<noteq> [component_byte RS_SHARED_STATE] \<and>
     (\<forall>raw. m = component_byte RS_SYNC # raw \<longrightarrow> sync_fits raw \<and> events_fit d)"

lemma board_message_defined:
  assumes "rt_wf d" "message_fits d m"
  shows "\<exists>d'. board_on_sibling_message m d = Some d'"
proof -
  obtain call l where r: "rs_on_sibling_message (rsh d) m (lk d) = (call, l)"
    by (cases "rs_on_sibling_message (rsh d) m (lk d)")
  let ?d = "d\<lparr>lk := l\<rparr>"
  have w: "rt_wf ?d" "events_fit ?d = events_fit d" using assms(1) by (simp_all add: events_fit_def)
  show ?thesis
  proof (cases call)
    case (Some p)
    obtain cb bytes where p: "p = (cb, bytes)" by (cases p)
    then obtain b where m: "m = b # bytes" "unat b < RS_MAX_COMPONENTS" "rs_components (rsh d) ! unat b = Some cb"
      using r Some by (auto simp: rs_on_sibling_message_def not_le split: list.splits if_splits option.splits)
    have "rs_ok (rsh d)" using assms(1) by (simp add: rt_wf_def)
    then have "unat b = component_num (callback_component cb)" using m(2,3) by (auto simp: rs_ok_def)
    then have "b = of_nat (component_num (callback_component cb))" by (metis of_nat_unat ucast_id)
    then have b: "m = component_byte (callback_component cb) # bytes" by (simp add: m(1) component_byte_def)
    have "\<exists>d'. component_callback cb bytes ?d = Some d'"
    proof (cases cb)
      case SyncOnSibling
      then have "sync_fits bytes" "events_fit d" using assms(2) b by (simp_all add: message_fits_def)
      with SyncOnSibling w section_lock.message_defined [of ?d bytes] show ?thesis
        by (simp add: component_callback_def)
    next
      case SharedStateOnSibling
      then have "bytes \<noteq> []" using assms(2) b by (auto simp: message_fits_def)
      with SharedStateOnSibling shared_message_defined [OF w(1)] show ?thesis by (simp add: component_callback_def)
    qed (simp_all add: component_callback_def rt_message_defined [OF w(1)] channel_message_defined [OF w(1)]
        case_prod_unfold Let_def)
    with r Some p show ?thesis by (simp add: board_on_sibling_message_def)
  qed (simp add: board_on_sibling_message_def r)
qed

section \<open>Property\<close>

text \<open>
  Property C23 (the whole board, undefined behaviour): on a well-formed board the rounds of the
  tasks that hand messages and events to the components are defined, with three exceptions, and all of
  them come in over the ring: a message of the shared state without a component, whose byte is
  read past the end; a message of the lock with a number that is no critical section, which the
  lock takes as an index unchecked; and a turn in the critical section of the routing when one of
  the events that wait brings a network that is too small to be cut for this board.
\<close>

theorem tasks_undefined:
  assumes "board_wf d"
  shows "(sibling_message_task d = None \<longrightarrow> (\<exists>m q. sibling_message_queue d = m # q \<and>
      (m = [component_byte RS_SHARED_STATE] \<or>
       (\<exists>raw. m = component_byte RS_SYNC # raw \<and> (\<not> sync_fits raw \<or> \<not> events_fit d))))) \<and>
    peer_message_task d \<noteq> None \<and> peer_event_task d \<noteq> None"
proof (intro conjI impI)
  have w: "rt_wf (d\<lparr>sibling_message_queue := q\<rparr>)" "rt_wf (d\<lparr>peer_message_queue := q\<rparr>)"
    "rt_wf (delay_ms n (d\<lparr>peer_event_queue := q'\<rparr>))" for q q' n
    using assms unfolding rt_wf_simps by (simp_all add: board_wf_def rt_wf_def names_ok_def)
  have fits: "message_fits (d\<lparr>sibling_message_queue := q\<rparr>) m = message_fits d m" for q m
    by (simp add: message_fits_def events_fit_def)
  show "\<exists>m q. sibling_message_queue d = m # q \<and> (m = [component_byte RS_SHARED_STATE] \<or>
      (\<exists>raw. m = component_byte RS_SYNC # raw \<and> (\<not> sync_fits raw \<or> \<not> events_fit d)))"
    if "sibling_message_task d = None"
  proof (cases "sibling_message_queue d")
    case (Cons m q)
    then have "\<not> message_fits d m"
      using that board_message_defined [OF w(1), of q m] fits [of q m]
      by (auto simp: sibling_message_task_def Let_def split: siblings_callback.splits)
    with Cons show ?thesis by (auto simp: message_fits_def)
  qed (use that in \<open>simp add: sibling_message_task_def\<close>)
  have "\<exists>d'. rt_on_peer_message m (d\<lparr>peer_message_queue := q\<rparr>) = Some d'" for m q
    using queue_peer_defined [OF w(2) decoded_ok(2)] by (auto simp: rt_on_peer_message_def)
  then show "peer_message_task d \<noteq> None"
    by (cases "peer_message_queue d") (auto simp: peer_message_task_def Let_def split: wireless_callbacks.splits)
  show "peer_event_task d \<noteq> None"
    using queue_peer_defined [OF w(3)]
    by (cases "peer_event_queue d")
       (auto simp: peer_event_task_def rt_on_peer_connected_def rt_on_peer_lost_def Let_def
         split: wireless_callbacks.splits peer_event_type.splits)
qed

theorem tasks_undefined_witness:
  "\<exists>d. board_wf (d :: board) \<and> sibling_message_task d = None \<and> 
     sibling_message_queue d = [[component_byte RS_SHARED_STATE]]"
proof -
  define b where "b = board_start quiet_env"
  define d where "d = b\<lparr>rsh := rs_register_component RS_SHARED_STATE (Some SharedStateOnSibling) (rsh b),
    sb_callback := RingShareOnSibling, sibling_message_queue := [[component_byte RS_SHARED_STATE]]\<rparr>"
  have "board_wf b" unfolding b_def by (rule board_start_wf)
  then have wf: "board_wf d" and "length (rs_components (rsh b)) = RS_MAX_COMPONENTS"
    by (simp_all add: d_def board_wf_def rt_wf_def names_ok_def messages_ok_def rs_registered SIBLING_QUEUE_LENGTH_def)
       (simp add: rs_ok_def)
  then have "sibling_message_task d = None"
    using component_num_less [of RS_SHARED_STATE]
    by (simp add: d_def sibling_message_task_def Let_def board_on_sibling_message_def rs_on_sibling_message_def
        rs_register_component_def component_byte_def rs_consts component_callback_def ss_on_sibling_message_def)
  with tasks_undefined [OF wf] wf show ?thesis by (auto simp: d_def)
qed

end
