(* ===== verification/Sibling_Queue.thy ===== *)
theory Sibling_Queue
  imports Spi_Pool Board_Defined
begin

text \<open>
  The received payloads and the messages of the siblings together. The task of
  \<open>ring_link_internal.c\<close> hands a message to the task of the siblings in \<open>callbacks.c\<close>
  through a queue of 10 places and waits without a limit while it is full, with the buffer of the
  payload still in its hands; \<open>Spi_Pool\<close> leaves the length of that wait open. Here the pool, the
  queue and the task that empties it are one system, and the buffers are shown to come back.
\<close>

section \<open>State and operations\<close>

text \<open>
  The board, its receive pool, and the message that the task of the siblings took from the queue
  and is handling. Its callback runs as one step, at any time after the message was taken. That the
  callback comes back is part of the step: what it waits for on the ring has a time limit
  (\<open>broadcast.c\<close>, \<open>ring_share.c\<close>), and the drivers and sockets it calls answer.
\<close>

record ring_board =
  rb_pool :: rx_pool
  rb_board :: board
  rb_message :: "byte list option"

text \<open>
  A round of the internal task on the buffer it took: the handler on the whole board, with the send to
  the queue, and then the buffer is freed. \<open>Some None\<close> while the task waits for room in the queue.
\<close>

definition internal_round :: "ring_board \<Rightarrow> ring_board option option" where
  "internal_round x =
     (case internal_payload (rb_pool x) of
        None \<Rightarrow> Some None
      | Some b \<Rightarrow>
          (case board_internal_handler (buffer_pool (rb_pool x) ! b) (rb_board x) of
             None \<Rightarrow> None
           | Some None \<Rightarrow> Some None
           | Some (Some d) \<Rightarrow> Some (Some (x\<lparr>rb_board := d,
               rb_pool := ring_link_lowlevel_free_rx_buffer b ((rb_pool x)\<lparr>internal_payload := None\<rparr>)\<rparr>))))"

text \<open>The two halves of a round of the task of the siblings.\<close>

definition sibling_take :: "ring_board \<Rightarrow> ring_board option" where
  "sibling_take x =
     (if rb_message x \<noteq> None then None
      else do { (m, q) \<leftarrow> q_receive (sibling_message_queue (rb_board x));
                Some (x\<lparr>rb_board := (rb_board x)\<lparr>sibling_message_queue := q\<rparr>, rb_message := Some m\<rparr>) })"

definition sibling_callback :: "byte list \<Rightarrow> 'a cb_sys_scheme \<Rightarrow> 'a cb_sys_scheme option" where
  "sibling_callback m d =
     (case sb_callback d of
        DoNothingMessage \<Rightarrow> Some d
      | RingShareOnSibling \<Rightarrow> board_on_sibling_message m d)"

definition sibling_work :: "ring_board \<Rightarrow> ring_board option" where
  "sibling_work x =
     do { m \<leftarrow> rb_message x;
          d \<leftarrow> sibling_callback m (rb_board x);
          Some (x\<lparr>rb_board := d, rb_message := None\<rparr>) }"

text \<open>
  The steps: those of the pool but the internal task's, whose round is the one above; the task of the
  siblings; and every other step of the board that leaves that queue alone.
\<close>

inductive ring_board_step :: "ring_board \<Rightarrow> ring_board \<Rightarrow> bool" where
  pool_moves: "pool_step (rb_pool x, lk (rb_board x)) (s', l') \<Longrightarrow>
    internal_payload (rb_pool x) = None \<or> internal_payload s' = internal_payload (rb_pool x) \<Longrightarrow>
    ring_board_step x (x\<lparr>rb_pool := s', rb_board := (rb_board x)\<lparr>lk := l'\<rparr>\<rparr>)"
| hands_over: "internal_payload (rb_pool x) = Some b \<Longrightarrow> frame_ok (buffer_pool (rb_pool x) ! b) \<Longrightarrow>
    internal_round x = Some (Some y) \<Longrightarrow> ring_board_step x y"
| sibling_takes: "sibling_take x = Some y \<Longrightarrow> ring_board_step x y"
| sibling_works: "sibling_work x = Some y \<Longrightarrow> ring_board_step x y"
| board_moves: "board_step (rb_board x) d \<Longrightarrow> sibling_message_queue d = sibling_message_queue (rb_board x) \<Longrightarrow>
    ring_board_step x (x\<lparr>rb_board := d\<rparr>)"

inductive ring_board_reachable :: "ring_board \<Rightarrow> bool" where
  begins: "board_wf d \<Longrightarrow> sibling_message_queue d = [] \<Longrightarrow>
    ring_board_reachable \<lparr>rb_pool = pool_start (env (lk d)), rb_board = d, rb_message = None\<rparr>"
| goes_on: "ring_board_reachable x \<Longrightarrow> ring_board_step x y \<Longrightarrow> ring_board_reachable y"

text \<open>The halves make a round of \<open>Callbacks\<close>, and a round of the internal task is one of the pool.\<close>

lemma sibling_round_halves:
  assumes "rb_message x = None"
  shows "sibling_message_task (rb_board x) =
    (case sibling_take x of None \<Rightarrow> Some None | Some y \<Rightarrow> map_option (\<lambda>z. Some (rb_board z)) (sibling_work y))"
  using assms
  by (cases "sibling_message_queue (rb_board x)")
     (auto simp: sibling_message_task_def sibling_take_def sibling_work_def sibling_callback_def Let_def
       map_option_case split: siblings_callback.splits option.splits)

lemma give_messages_link: "give_messages ms d = Some (Some d') \<Longrightarrow> lk d' = lk d"
proof (induction ms arbitrary: d)
  case (Cons x ms)
  then show ?case
    by (cases x) (fastforce simp: node_on_sibling_message_def split: option.splits Option.bind_splits)
qed simp

lemma internal_round_pool:
  assumes "internal_round x = Some (Some y)"
  shows "internal_process_work (lk (rb_board x)) (rb_pool x) = Some (rb_pool y, lk (rb_board y))"
    "rb_message y = rb_message x"
  using assms give_messages_link
  by (fastforce simp: internal_round_def internal_process_work_def board_internal_handler_def Let_def case_prod_unfold
      split: option.splits)+

section \<open>The invariant\<close>

definition ring_board_inv :: "ring_board \<Rightarrow> bool" where
  "ring_board_inv x \<longleftrightarrow> pool_inv (rb_pool x) \<and> board_wf (rb_board x) \<and>
     (\<forall>m. rb_message x = Some m \<longrightarrow> sibling_ok m)"

lemma callback_kept:
  assumes "board_wf d" "sibling_ok m" "sibling_callback m d = Some d'"
  shows "board_wf d' \<and> sibling_message_queue d' = sibling_message_queue d"
proof (cases "sb_callback d")
  case RingShareOnSibling
  with assms have "board_on_sibling_message m d = Some d'" by (simp add: sibling_callback_def)
  from board_message_wf [OF _ _ assms(2) this] assms(1)
  have "rt_wf d' \<and> im_ok (im d')" and m: "im_sys.more d' = im_sys.more d" by (simp_all add: board_wf_def)
  moreover have "cb_sys.sibling_message_queue d' = sibling_message_queue d" using m by (cases d; cases d') simp
  ultimately show ?thesis using more_messages [OF m] assms(1) by (simp add: board_wf_def)
qed (use assms in \<open>simp add: sibling_callback_def\<close>)

lemma sibling_take_iff:
  "sibling_take x = Some y \<longleftrightarrow> rb_message x = None \<and> (\<exists>m q. sibling_message_queue (rb_board x) = m # q \<and>
     y = x\<lparr>rb_board := (rb_board x)\<lparr>sibling_message_queue := q\<rparr>, rb_message := Some m\<rparr>)"
  by (cases "sibling_message_queue (rb_board x)") (auto simp: sibling_take_def)

lemma sibling_work_iff:
  "sibling_work x = Some y \<longleftrightarrow> (\<exists>m d. rb_message x = Some m \<and> sibling_callback m (rb_board x) = Some d \<and>
     y = x\<lparr>rb_board := d, rb_message := None\<rparr>)"
  by (auto simp: sibling_work_def split: Option.bind_splits)

text \<open>A frame hands over at most one message, and it is stored as \<open>store_message\<close> says.\<close>

lemma handled_list:
  "sibling_messages (new_effects l (snd (ring_link_internal_handler p l))) \<in> {[], [(pl_buffer p, pl_len p)]}"
proof -
  obtain es where es: "trace (snd (ring_link_lowlevel_forward_payload p l)) = trace l @ es" "sibling_messages es = []"
    using forward_gives_nothing by blast
  show ?thesis
  proof (cases "ring_link_payload_is_broadcast p \<and> \<not> ring_link_payload_is_from_device p l")
    case True
    then show ?thesis by (simp add: foreign_broadcast_given)
  next
    case False
    with es show ?thesis
      by (auto simp: ring_link_internal_handler_def broadcast_handler_def ring_link_internal_process_def
          new_effects_def)
  qed
qed

lemma internal_handler_result:
  "board_internal_handler p d = Some (Some d') \<Longrightarrow>
    length (sibling_message_queue d') \<le> Suc (length (sibling_message_queue d))"
  using handled_list [of "lk d" p]
  by (auto simp: board_internal_handler_def Let_def node_on_sibling_message_def q_send_def
      split: option.splits Option.bind_splits if_splits)

lemma internal_handler_defined:
  assumes "store_message (pl_buffer p) (pl_len p) \<noteq> None" "length (sibling_message_queue d) < SIBLING_QUEUE_LENGTH"
  shows "\<exists>d'. board_internal_handler p d = Some (Some d')"
  using handled_list [of "lk d" p] assms
  by (auto simp: board_internal_handler_def Let_def node_on_sibling_message_def q_send_def)

lemma sibling_work_result:
  assumes "sibling_work x = Some y" "ring_board_inv x"
  shows "board_wf (rb_board y) \<and> sibling_message_queue (rb_board y) = sibling_message_queue (rb_board x) \<and>
    rb_pool y = rb_pool x \<and> (\<exists>m. rb_message x = Some m) \<and> rb_message y = None"
proof -
  obtain m d where w: "rb_message x = Some m" "sibling_callback m (rb_board x) = Some d"
      "y = x\<lparr>rb_board := d, rb_message := None\<rparr>"
    using assms(1) by (auto simp: sibling_work_iff)
  with callback_kept [OF _ _ w(2)] assms(2) show ?thesis by (simp add: ring_board_inv_def)
qed

lemma ring_board_step_inv: "ring_board_step x y \<Longrightarrow> ring_board_inv x \<Longrightarrow> ring_board_inv y"
proof (induction rule: ring_board_step.induct)
  case (pool_moves x s' l')
  from pool_step_inv [OF pool_moves(1)] pool_moves(3) show ?case
    by (auto simp: ring_board_inv_def board_wf_def messages_ok_def)
next
  case (hands_over x b y)
  note pool = internal_round_pool [OF hands_over(3)]
  from pool_step_inv [OF internal_work [OF pool(1)]] hands_over(4)
  have "pool_inv (rb_pool y)" by (simp add: ring_board_inv_def)
  moreover have "board_step (rb_board x) (rb_board y)"
    using hands_over(1,2,3)
    by (auto simp: internal_round_def intro: board_step.ring_frame split: option.splits)
  ultimately show ?case using board_step_wf pool(2) hands_over(4) by (auto simp: ring_board_inv_def)
next
  case (sibling_takes x y)
  then show ?case
    by (auto simp: sibling_take_iff ring_board_inv_def board_wf_def rt_wf_def names_ok_def messages_ok_def)
next
  case (sibling_works x y)
  with sibling_work_result [OF sibling_works(1)] show ?case by (simp add: ring_board_inv_def)
next
  case (board_moves x d)
  then show ?case using board_step_wf by (auto simp: ring_board_inv_def)
qed

lemma ring_board_reachable_inv: "ring_board_reachable x \<Longrightarrow> ring_board_inv x"
  by (induction rule: ring_board_reachable.induct)
     (simp_all add: ring_board_step_inv, simp add: ring_board_inv_def pool_inv_init)

section \<open>The work left\<close>

definition ring_board_work :: "ring_board \<Rightarrow> nat" where
  "ring_board_work x = 3 * pool_work (rb_pool x) + 2 * length (sibling_message_queue (rb_board x)) +
     length (var_list (rb_message x))"

text \<open>Only a frame that comes in brings new work to the pool.\<close>

lemma pool_work_step:
  assumes "pool_step (s, l) (s', l')" "pool_inv s"
  shows "pool_work s' \<le> pool_work s + 4 * (length (spi_rx_queue s') - length (spi_rx_queue s))"
  using assms(1)
proof (cases rule: pool_step.cases)
  case polling_take
  then show ?thesis by (auto simp: take_steps pool_work_def)
next
  case (polling_received p)
  then obtain b where "polling_payload s = Some b" using work_steps_need(1) by blast
  with polling_received assms(2) show ?thesis by (auto simp: polling_received_ok pool_work_def)
next
  case polling_failed
  then obtain b where "polling_payload s = Some b" using work_steps_need(2) by blast
  with polling_failed assms(2) show ?thesis by (auto simp: polling_failed_ok pool_work_def)
next
  case process_take
  then show ?thesis by (auto simp: take_steps pool_work_def)
next
  case process_work
  then obtain b where "ring_link_payload_var s = Some b" using work_steps_need(3) by blast
  with process_work assms(2) show ?thesis
    by (auto simp: process_work_ok pool_work_def split: option.splits rx_queue.splits)
next
  case internal_take
  then show ?thesis by (auto simp: take_steps pool_work_def)
next
  case internal_work
  then obtain b where "internal_payload s = Some b" using work_steps_need(4) by blast
  with internal_work assms(2) show ?thesis by (auto simp: internal_work_ok pool_work_def)
next
  case netif_take
  then show ?thesis by (auto simp: take_steps pool_work_def)
next
  case (netif_work ok rc)
  then obtain b where b: "netif_payload_var s = Some b" using work_steps_need(5) by blast
  then have "s' = s\<lparr>netif_payload_var := None, free_buf_queue := free_buf_queue s @ [b]\<rparr>"
    using netif_work netif_work_SomeD [of s b ok rc l s' l'] assms(2) by simp
  with b show ?thesis by (simp add: pool_work_def)
next
  case link_moves
  then show ?thesis by simp
qed

lemma hand_over_works:
  assumes "internal_round x = Some (Some y)" "pool_inv (rb_pool x)"
  shows "Suc (pool_work (rb_pool y)) = pool_work (rb_pool x)" "spi_rx_queue (rb_pool y) = spi_rx_queue (rb_pool x)"
    "length (sibling_message_queue (rb_board y)) \<le> Suc (length (sibling_message_queue (rb_board x)))"
    "internal_payload (rb_pool y) = None"
proof -
  note pool = internal_round_pool(1) [OF assms(1)]
  then obtain b where b: "internal_payload (rb_pool x) = Some b" using work_steps_need(4) by blast
  with pool assms(2) have s: "rb_pool y = (rb_pool x)\<lparr>internal_payload := None,
      free_buf_queue := free_buf_queue (rb_pool x) @ [b]\<rparr>"
    by (auto simp: internal_work_ok)
  with b show "Suc (pool_work (rb_pool y)) = pool_work (rb_pool x)"
    "spi_rx_queue (rb_pool y) = spi_rx_queue (rb_pool x)" "internal_payload (rb_pool y) = None"
    by (simp_all add: pool_work_def)
  show "length (sibling_message_queue (rb_board y)) \<le> Suc (length (sibling_message_queue (rb_board x)))"
    using assms(1) b internal_handler_result
    by (auto simp: internal_round_def split: option.splits)
qed

lemma ring_board_work_step:
  "ring_board_step x y \<Longrightarrow> ring_board_inv x \<Longrightarrow> ring_board_work y \<le> ring_board_work x +
     12 * (length (spi_rx_queue (rb_pool y)) - length (spi_rx_queue (rb_pool x)))"
proof (induction rule: ring_board_step.induct)
  case (pool_moves x s' l')
  from pool_work_step [OF pool_moves(1)] pool_moves(3) show ?case
    by (simp add: ring_board_work_def ring_board_inv_def)
next
  case (hands_over x b y)
  from hand_over_works [OF hands_over(3)] internal_round_pool(2) [OF hands_over(3)] hands_over(4) show ?case
    by (simp add: ring_board_work_def ring_board_inv_def)
next
  case (sibling_takes x y)
  then show ?case by (auto simp: sibling_take_iff ring_board_work_def)
next
  case (sibling_works x y)
  with sibling_work_result [OF sibling_works(1)] show ?case by (auto simp: ring_board_work_def)
next
  case (board_moves x d)
  then show ?case by (simp add: ring_board_work_def)
qed

text \<open>A hand-over that has room, and the steps of the task of the siblings.\<close>

definition storable :: "ring_link_payload \<Rightarrow> bool" where
  "storable p \<longleftrightarrow> frame_ok p \<and> unat (pl_len p) \<le> length (pl_buffer p) \<and> unat (pl_len p) \<le> MAX_MESSAGE_SIZE + 2"

lemma hand_over_possible:
  assumes "internal_payload (rb_pool x) = Some b" "storable (buffer_pool (rb_pool x) ! b)"
    and "length (sibling_message_queue (rb_board x)) < SIBLING_QUEUE_LENGTH"
  shows "\<exists>y. internal_round x = Some (Some y) \<and> ring_board_step x y"
proof -
  let ?p = "buffer_pool (rb_pool x) ! b"
  have "store_message (pl_buffer ?p) (pl_len ?p) \<noteq> None"
    using assms(2) by (auto simp: storable_def store_message_def Let_def)
  from internal_handler_defined [OF this assms(3)] obtain y where "internal_round x = Some (Some y)"
    using assms(1) by (auto simp: internal_round_def)
  with hands_over [OF assms(1) _ this] assms(2) show ?thesis by (auto simp: storable_def)
qed

lemma sibling_moves:
  assumes "ring_board_inv x" "\<forall>m. rb_message x = Some m \<longrightarrow> message_fits (rb_board x) m"
    and "sibling_message_queue (rb_board x) \<noteq> [] \<or> rb_message x \<noteq> None"
  shows "\<exists>y. ring_board_step x y \<and> ring_board_work y < ring_board_work x"
proof (cases "rb_message x")
  case None
  with assms(3) obtain m q where "sibling_message_queue (rb_board x) = m # q"
    by (cases "sibling_message_queue (rb_board x)") auto
  with None sibling_takes [of x] show ?thesis by (fastforce simp: sibling_take_iff ring_board_work_def)
next
  case (Some m)
  with assms(1,2) have "\<exists>d. sibling_callback m (rb_board x) = Some d"
    using board_message_defined [of "rb_board x" m]
    by (simp add: sibling_callback_def ring_board_inv_def board_wf_def split: siblings_callback.split)
  then obtain d where d: "sibling_callback m (rb_board x) = Some d" ..
  with Some assms(1) callback_kept [OF _ _ d]
  have "sibling_message_queue d = sibling_message_queue (rb_board x)" by (simp add: ring_board_inv_def)
  moreover have "ring_board_step x (x\<lparr>rb_board := d, rb_message := None\<rparr>)"
    using Some d by (intro sibling_works) (simp add: sibling_work_iff)
  ultimately show ?thesis using Some by (fastforce simp: ring_board_work_def)
qed

text \<open>A pool with work left whose internal task holds nothing: one of the other tasks can move.\<close>

lemma pool_task_moves:
  assumes "pool_inv s" "0 < pool_work s" "internal_payload s = None"
    and "\<forall>b. netif_payload_var s = Some b \<longrightarrow> readable_payload (buffer_pool s ! b)"
  shows "\<exists>s' l'. pool_step (s, l) (s', l') \<and> pool_work s' < pool_work s"
proof -
  consider (ring) b where "ring_link_payload_var s = Some b" | (netif) b where "netif_payload_var s = Some b"
    | (rx) b q where "ring_link_payload_var s = None" "spi_rx_queue s = b # q"
    | (internal_q) b q where "ring_link_internal_queue s = b # q"
    | (netif_q) b q where "netif_payload_var s = None" "ring_link_netif_queue s = b # q"
    using assms(2,3)
    by (cases "spi_rx_queue s"; cases "ring_link_internal_queue s"; cases "ring_link_netif_queue s")
       (fastforce simp: pool_work_def)+
  then show ?thesis
  proof cases
    case ring
    from process_work [OF process_work_ok [OF assms(1) ring, of l]] ring show ?thesis
      by (fastforce simp: pool_work_def split: option.splits rx_queue.splits)
  next
    case netif
    obtain r l' where "ring_link_netif_handler True ESP_OK (buffer_pool s ! b) l = Some (r, l')"
      using readable_handled assms(4) netif by blast
    then have "netif_process_work True ESP_OK l s =
        Some (s\<lparr>netif_payload_var := None, free_buf_queue := free_buf_queue s @ [b]\<rparr>, l')"
      using netif_work_ok [OF assms(1) netif] by simp
    from netif_work [OF this] netif show ?thesis by (fastforce simp: pool_work_def)
  next
    case rx
    with process_take [of s _ l] show ?thesis by (fastforce simp: take_steps pool_work_def)
  next
    case internal_q
    with internal_take [of s _ l] assms(3) show ?thesis by (fastforce simp: take_steps pool_work_def)
  next
    case netif_q
    with netif_take [of s _ l] show ?thesis by (fastforce simp: take_steps pool_work_def)
  qed
qed

lemma ring_board_progress:
  assumes "ring_board_inv x" "0 < ring_board_work x"
    and "\<forall>b. netif_payload_var (rb_pool x) = Some b \<longrightarrow> readable_payload (buffer_pool (rb_pool x) ! b)"
    and "\<forall>b. internal_payload (rb_pool x) = Some b \<longrightarrow> storable (buffer_pool (rb_pool x) ! b)"
    and "\<forall>m. rb_message x = Some m \<longrightarrow> message_fits (rb_board x) m"
  shows "\<exists>y. ring_board_step x y \<and> ring_board_work y < ring_board_work x"
proof -
  have inv: "pool_inv (rb_pool x)" using assms(1) by (simp add: ring_board_inv_def)
  consider (siblings) "sibling_message_queue (rb_board x) \<noteq> [] \<or> rb_message x \<noteq> None"
    | (internal) b where "internal_payload (rb_pool x) = Some b" "sibling_message_queue (rb_board x) = []"
    | (others) "internal_payload (rb_pool x) = None" "0 < pool_work (rb_pool x)"
    using assms(2) by (fastforce simp: ring_board_work_def)
  then show ?thesis
  proof cases
    case siblings
    then show ?thesis by (rule sibling_moves [OF assms(1,5)])
  next
    case internal
    then obtain y where "internal_round x = Some (Some y)" "ring_board_step x y"
      using hand_over_possible [of x b] assms(4) by (auto simp: SIBLING_QUEUE_LENGTH_def)
    with hand_over_works [OF this(1) inv] internal_round_pool(2) [OF this(1)] show ?thesis
      by (auto simp: ring_board_work_def intro!: exI [of _ y])
  next
    case others
    then obtain s' l' where "pool_step (rb_pool x, lk (rb_board x)) (s', l')" "pool_work s' < pool_work (rb_pool x)"
      using pool_task_moves [OF inv _ _ assms(3)] by blast
    with pool_moves [of x s' l'] others show ?thesis by (fastforce simp: ring_board_work_def)
  qed
qed

section \<open>Property\<close>

text \<open>
  Property C35 (the receive pool and the queue of the siblings): the received buffers come back. While
  a buffer is on its way, or a message waits for the task of the siblings, one of the tasks can take
  a step that brings the work left down, and only a frame that comes in brings it up again; the
  internal task can always hand over its message while fewer than ten wait. When no work is left, all
  eight buffers are free or with the polling task. The conditions are on what the tasks hold: the
  length of a payload of the network is inside its buffer, that of a message for the siblings is inside its
  buffer and the 514 bytes of a message of the queue, and the message in the callback is none of those that
  \<open>Board_Defined\<close> names as undefined.
\<close>

theorem pool_buffers_return:
  assumes "ring_board_reachable x"
    and "\<forall>b. netif_payload_var (rb_pool x) = Some b \<longrightarrow> readable_payload (buffer_pool (rb_pool x) ! b)"
    and "\<forall>b. internal_payload (rb_pool x) = Some b \<longrightarrow> storable (buffer_pool (rb_pool x) ! b)"
    and "\<forall>m. rb_message x = Some m \<longrightarrow> message_fits (rb_board x) m"
  shows "(0 < ring_board_work x \<longrightarrow> (\<exists>y. ring_board_step x y \<and> ring_board_work y < ring_board_work x)) \<and>
    (\<forall>y. ring_board_step x y \<longrightarrow> ring_board_work y \<le> ring_board_work x +
      12 * (length (spi_rx_queue (rb_pool y)) - length (spi_rx_queue (rb_pool x)))) \<and>
    (internal_payload (rb_pool x) \<noteq> None \<and> length (sibling_message_queue (rb_board x)) < 10 \<longrightarrow>
      (\<exists>y. internal_round x = Some (Some y) \<and> ring_board_step x y \<and> internal_payload (rb_pool y) = None)) \<and>
    (ring_board_work x = 0 \<longrightarrow> sibling_message_queue (rb_board x) = [] \<and>
      length (free_buf_queue (rb_pool x)) + length (var_list (polling_payload (rb_pool x))) = NUM_BUFFERS)"
proof (intro conjI)
  note inv = ring_board_reachable_inv [OF assms(1)]
  then have pool: "pool_inv (rb_pool x)" by (simp add: ring_board_inv_def)
  show "0 < ring_board_work x \<longrightarrow> (\<exists>y. ring_board_step x y \<and> ring_board_work y < ring_board_work x)"
    using ring_board_progress [OF inv _ assms(2,3,4)] by blast
  show "\<forall>y. ring_board_step x y \<longrightarrow> ring_board_work y \<le> ring_board_work x +
      12 * (length (spi_rx_queue (rb_pool y)) - length (spi_rx_queue (rb_pool x)))"
    using ring_board_work_step [OF _ inv] by blast
  show "internal_payload (rb_pool x) \<noteq> None \<and> length (sibling_message_queue (rb_board x)) < 10 \<longrightarrow>
      (\<exists>y. internal_round x = Some (Some y) \<and> ring_board_step x y \<and> internal_payload (rb_pool y) = None)"
    using hand_over_possible [of x] hand_over_works(4) [OF _ pool] assms(3)
    by (fastforce simp: SIBLING_QUEUE_LENGTH_def)
  show "ring_board_work x = 0 \<longrightarrow> sibling_message_queue (rb_board x) = [] \<and>
      length (free_buf_queue (rb_pool x)) + length (var_list (polling_payload (rb_pool x))) = NUM_BUFFERS"
    using pool_inv_count [OF pool]
    by (auto simp: ring_board_work_def pool_work_def holders_of_buffers_def NUM_BUFFERS_def)
qed

text \<open>The witness: two frames with a message for the siblings and one of the network came in.\<close>

definition frame_of_siblings :: ring_link_payload where
  "frame_of_siblings = (zero_payload quiet_env)\<lparr>pl_type := RING_LINK_PAYLOAD_TYPE_INTERNAL, pl_ttl := 4,
     pl_src := 3, pl_dst := CONFIG_ID_ALL, pl_len := 3,
     pl_buffer := component_byte RS_PRIORITY_MANAGER # 2 # 200 # replicate 50 0\<rparr>"

definition frame_of_network :: ring_link_payload where
  "frame_of_network = (zero_payload quiet_env)\<lparr>pl_type := RING_LINK_PAYLOAD_TYPE_ESP_NETIF, pl_len := 20\<rparr>"

definition ring_listener :: board where
  "ring_listener = (board_start quiet_env)\<lparr>sb_callback := RingShareOnSibling,
     rsh := rs_register_component RS_PRIORITY_MANAGER (Some PriorityManagerOnSibling) (rsh (board_start quiet_env))\<rparr>"

lemma ring_listener_wf: "board_wf ring_listener"
  using board_start_wf [of quiet_env]
  by (simp add: ring_listener_def board_wf_def rt_wf_def names_ok_def messages_ok_def rs_registered)

lemma pool_moves_reachable:
  assumes "ring_board_reachable x" "pool_step (rb_pool x, lk (rb_board x)) (s', lk (rb_board x))"
    and "internal_payload (rb_pool x) = None \<or> internal_payload s' = internal_payload (rb_pool x)"
  shows "ring_board_reachable (x\<lparr>rb_pool := s'\<rparr>)"
  using goes_on [OF assms(1) pool_moves [OF assms(2,3)]] by simp

text \<open>A frame comes in on a pool where nothing waits, and is in the variable of the ring's task.\<close>

lemma frame_comes_in:
  assumes "ring_board_reachable x" "free_buf_queue (rb_pool x) = b # q" "b < length (buffer_pool (rb_pool x))"
    "polling_payload (rb_pool x) = None" "spi_rx_queue (rb_pool x) = []" "ring_link_payload_var (rb_pool x) = None"
  shows "ring_board_reachable (x\<lparr>rb_pool := (rb_pool x)\<lparr>buffer_pool := (buffer_pool (rb_pool x))[b := p],
    free_buf_queue := q, ring_link_payload_var := Some b\<rparr>\<rparr>)"
proof -
  let ?s = "rb_pool x" and ?l = "lk (rb_board x)"
  let ?s1 = "?s\<lparr>free_buf_queue := q, polling_payload := Some b\<rparr>"
  let ?s2 = "?s\<lparr>buffer_pool := (buffer_pool ?s)[b := p], free_buf_queue := q, spi_rx_queue := [b]\<rparr>"
  let ?s3 = "?s\<lparr>buffer_pool := (buffer_pool ?s)[b := p], free_buf_queue := q, ring_link_payload_var := Some b\<rparr>"
  have "spi_polling_take ?s = Some ?s1" using assms(2,4) by (simp add: take_steps)
  from pool_moves_reachable [OF assms(1) polling_take [OF this]]
  have 1: "ring_board_reachable (x\<lparr>rb_pool := ?s1\<rparr>)" by simp
  have "spi_polling_received p ?s1 = Some ?s2"
    using assms(3,4,5) by (simp add: pool_ops q_send_def NUM_BUFFERS_def aset_def)
  from pool_moves_reachable [OF 1, of ?s2] polling_received [OF this, of ?l]
  have 2: "ring_board_reachable (x\<lparr>rb_pool := ?s2\<rparr>)" by simp
  have "ring_link_process_take ?s2 = Some ?s3" using assms(5,6) by (simp add: take_steps)
  from pool_moves_reachable [OF 2, of ?s3] process_take [OF this, of ?l] show ?thesis by simp
qed

lemma frame_taken:
  assumes "ring_board_reachable x" "ring_link_payload_var (rb_pool x) = Some b"
  shows "payload_queue (lk (rb_board x)) (buffer_pool (rb_pool x) ! b) = Some InternalQueue \<Longrightarrow>
      ring_link_internal_queue (rb_pool x) = [] \<Longrightarrow> internal_payload (rb_pool x) = None \<Longrightarrow>
      ring_board_reachable (x\<lparr>rb_pool := (rb_pool x)\<lparr>ring_link_payload_var := None, internal_payload := Some b\<rparr>\<rparr>)"
    "payload_queue (lk (rb_board x)) (buffer_pool (rb_pool x) ! b) = Some NetifQueue \<Longrightarrow>
      ring_link_netif_queue (rb_pool x) = [] \<Longrightarrow> netif_payload_var (rb_pool x) = None \<Longrightarrow>
      ring_board_reachable (x\<lparr>rb_pool := (rb_pool x)\<lparr>ring_link_payload_var := None, netif_payload_var := Some b\<rparr>\<rparr>)"
proof -
  let ?s = "rb_pool x" and ?l = "lk (rb_board x)"
  assume i: "payload_queue ?l (buffer_pool ?s ! b) = Some InternalQueue" "ring_link_internal_queue ?s = []"
    "internal_payload ?s = None"
  let ?s1 = "?s\<lparr>ring_link_payload_var := None, ring_link_internal_queue := [b]\<rparr>"
  let ?s2 = "?s\<lparr>ring_link_payload_var := None, internal_payload := Some b\<rparr>"
  have "ring_link_process_work ?l ?s = Some ?s1"
    using assms(2) i by (simp add: pool_ops q_send_def RING_LINK_INTERNAL_QUEUE_SIZE_def)
  from pool_moves_reachable [OF assms(1) process_work [OF this]] i
  have 1: "ring_board_reachable (x\<lparr>rb_pool := ?s1\<rparr>)" by simp
  have "internal_process_take ?s1 = Some ?s2" using i by (simp add: take_steps)
  from pool_moves_reachable [OF 1, of ?s2] internal_take [OF this, of ?l] i
  show "ring_board_reachable (x\<lparr>rb_pool := ?s2\<rparr>)" by simp
next
  let ?s = "rb_pool x" and ?l = "lk (rb_board x)"
  assume i: "payload_queue ?l (buffer_pool ?s ! b) = Some NetifQueue" "ring_link_netif_queue ?s = []"
    "netif_payload_var ?s = None"
  let ?s1 = "?s\<lparr>ring_link_payload_var := None, ring_link_netif_queue := [b]\<rparr>"
  let ?s2 = "?s\<lparr>ring_link_payload_var := None, netif_payload_var := Some b\<rparr>"
  have "ring_link_process_work ?l ?s = Some ?s1"
    using assms(2) i by (simp add: pool_ops q_send_def RING_LINK_NETIF_QUEUE_SIZE_def)
  from pool_moves_reachable [OF assms(1) process_work [OF this]] i
  have 1: "ring_board_reachable (x\<lparr>rb_pool := ?s1\<rparr>)" by simp
  have "netif_process_take ?s1 = Some ?s2" using i by (simp add: take_steps)
  from pool_moves_reachable [OF 1, of ?s2] netif_take [OF this, of ?l] i
  show "ring_board_reachable (x\<lparr>rb_pool := ?s2\<rparr>)" by simp
qed

lemma frames_classified:
  "env l = quiet_env \<Longrightarrow> payload_queue l frame_of_siblings = Some InternalQueue"
  "env l = quiet_env \<Longrightarrow> payload_queue l frame_of_network = Some NetifQueue"
  by (simp_all add: payload_queue_def ring_link_compute_crc32_def quiet_env_def frame_of_siblings_def
      frame_of_network_def zero_payload_def ring_link_payload_is_internal_def ring_link_payload_is_esp_netif_def
      RING_LINK_PAYLOAD_TYPE_INTERNAL_def RING_LINK_PAYLOAD_TYPE_ESP_NETIF_def)

definition message_of_frame :: "byte list" where
  "message_of_frame = [component_byte RS_PRIORITY_MANAGER, 2, 200]"

lemma frame_of_siblings_stored:
  "store_message (pl_buffer frame_of_siblings) (pl_len frame_of_siblings) = Some message_of_frame"
  "storable frame_of_siblings" "readable_payload frame_of_network"
  by (simp_all add: frame_of_siblings_def store_message_def Let_def cb_consts message_of_frame_def storable_def
      frame_ok_def component_byte_def readable_payload_def frame_of_network_def zero_payload_def quiet_env_def
      ring_link_netif_mtu_def)

lemma listener_hands_over:
  "\<exists>d. board_internal_handler frame_of_siblings ring_listener = Some (Some d) \<and>
    sibling_message_queue d = [message_of_frame] \<and> env (lk d) = quiet_env"
proof -
  have "ring_link_payload_is_broadcast frame_of_siblings"
    "\<not> ring_link_payload_is_from_device frame_of_siblings (lk ring_listener)"
    by (simp_all add: frame_of_siblings_def zero_payload_def ring_link_payload_is_broadcast_def
        ring_link_payload_is_from_device_def ring_listener_def board_start_def hk_sys.extend_def hook_start_defs s_config_init_def config_get_id_def config_enums)
  note given = foreign_broadcast_given [OF this] and foreign = this
  have q: "sibling_message_queue ring_listener = []" "env (lk ring_listener) = quiet_env"
    by (simp_all add: ring_listener_def board_start_def hk_sys.extend_def hook_start_defs)
  have "env (snd (ring_link_internal_handler frame_of_siblings l)) = env l" for l
    by (simp add: ring_link_internal_handler_def broadcast_handler_def ring_link_internal_process_def
        ring_link_lowlevel_forward_payload_def ring_link_lowlevel_transmit_payload_def spi_transmit_def Let_def)
  with given q frame_of_siblings_stored(1) show ?thesis
    by (simp add: board_internal_handler_def Let_def node_on_sibling_message_def SIBLING_QUEUE_LENGTH_def)
qed

definition board_at_work :: "ring_board \<Rightarrow> bool" where
  "board_at_work x \<longleftrightarrow> ring_board_reachable x \<and> rb_message x = Some message_of_frame \<and>
     sibling_message_queue (rb_board x) = [] \<and>
     internal_payload (rb_pool x) = Some 1 \<and> buffer_pool (rb_pool x) ! 1 = frame_of_siblings \<and>
     netif_payload_var (rb_pool x) = Some 2 \<and> buffer_pool (rb_pool x) ! 2 = frame_of_network"

lemma board_at_work_reached: "\<exists>x. board_at_work x"
proof -
  let ?x0 = "\<lparr>rb_pool = pool_start quiet_env, rb_board = ring_listener, rb_message = None\<rparr>"
  let ?B = "(replicate 8 (zero_payload quiet_env))[0 := frame_of_siblings]"
  let ?P = "\<lambda>B q r i n. \<lparr>buffer_pool = B, free_buf_queue = q, spi_rx_queue = [], ring_link_internal_queue = [],
     ring_link_netif_queue = [], polling_payload = None, ring_link_payload_var = r, internal_payload = i,
     netif_payload_var = n\<rparr> :: rx_pool"
  have start: "pool_start quiet_env = ?P (replicate 8 (zero_payload quiet_env)) [0,1,2,3,4,5,6,7] None None None"
    by (simp add: pool_start_def pool_consts upt_rec eval_nat_numeral)
  have l: "env (lk ring_listener) = quiet_env" "sibling_message_queue ring_listener = []"
    by (simp_all add: ring_listener_def board_start_def hk_sys.extend_def hook_start_defs)
  have "ring_board_reachable ?x0" using begins [OF ring_listener_wf l(2)] l(1) by simp
  from frame_comes_in [OF this, of 0 "[1,2,3,4,5,6,7]" frame_of_siblings]
  have "ring_board_reachable (?x0\<lparr>rb_pool := ?P ?B [1,2,3,4,5,6,7] (Some 0) None None\<rparr>)" by (simp add: start)
  from frame_taken(1) [OF this, of 0] l(1)
  have 1: "ring_board_reachable (?x0\<lparr>rb_pool := ?P ?B [1,2,3,4,5,6,7] None (Some 0) None\<rparr>)"
    by (simp add: frames_classified)
  obtain d where d: "board_internal_handler frame_of_siblings ring_listener = Some (Some d)"
      "sibling_message_queue d = [message_of_frame]" "env (lk d) = quiet_env"
    using listener_hands_over by blast
  let ?x2 = "\<lparr>rb_pool = ?P ?B [1,2,3,4,5,6,7,0] None None None, rb_board = d, rb_message = None\<rparr>"
  have "internal_round (?x0\<lparr>rb_pool := ?P ?B [1,2,3,4,5,6,7] None (Some 0) None\<rparr>) = Some (Some ?x2)"
    using d(1) by (simp add: internal_round_def ring_link_lowlevel_free_rx_buffer_def spi_free_rx_buffer_def NUM_BUFFERS_def)
  from goes_on [OF 1 hands_over [OF _ _ this, of 0]] frame_of_siblings_stored(2)
  have 2: "ring_board_reachable ?x2" by (simp add: storable_def)
  let ?d = "d\<lparr>sibling_message_queue := []\<rparr>"
  let ?x3 = "\<lparr>rb_pool = ?P ?B [1,2,3,4,5,6,7,0] None None None, rb_board = ?d, rb_message = Some message_of_frame\<rparr>"
  have "sibling_take ?x2 = Some ?x3" using d(2) by (simp add: sibling_take_iff)
  note 3 = goes_on [OF 2 sibling_takes [OF this]]
  have "ring_board_reachable (?x3\<lparr>rb_pool := ?P (?B[1 := frame_of_siblings]) [2,3,4,5,6,7,0] (Some 1) None None\<rparr>)"
    using frame_comes_in [OF 3, of 1 "[2,3,4,5,6,7,0]" frame_of_siblings] by simp
  from frame_taken(1) [OF this, of 1] d(3)
  have 4: "ring_board_reachable (?x3\<lparr>rb_pool := ?P (?B[1 := frame_of_siblings]) [2,3,4,5,6,7,0] None (Some 1) None\<rparr>)"
    by (simp add: frames_classified)
  have "ring_board_reachable (?x3\<lparr>rb_pool := ?P (?B[1 := frame_of_siblings, 2 := frame_of_network]) [3,4,5,6,7,0]
      (Some 2) (Some 1) None\<rparr>)"
    using frame_comes_in [OF 4, of 2 "[3,4,5,6,7,0]" frame_of_network] by simp
  from frame_taken(2) [OF this, of 2] d(3)
  have "ring_board_reachable (?x3\<lparr>rb_pool := ?P (?B[1 := frame_of_siblings, 2 := frame_of_network]) [3,4,5,6,7,0]
      None (Some 1) (Some 2)\<rparr>)" by (simp add: frames_classified)
  then have "board_at_work (?x3\<lparr>rb_pool := ?P (?B[1 := frame_of_siblings, 2 := frame_of_network]) [3,4,5,6,7,0]
      None (Some 1) (Some 2)\<rparr>)" by (simp add: board_at_work_def)
  then show ?thesis ..
qed

theorem pool_buffers_return_witness:
  "\<exists>x. board_at_work x \<and> (\<exists>y. ring_board_step x y \<and> ring_board_work y < ring_board_work x) \<and>
    (\<exists>y. internal_round x = Some (Some y) \<and> ring_board_step x y \<and> internal_payload (rb_pool y) = None)"
proof -
  obtain x where x: "board_at_work x" using board_at_work_reached by blast
  note w = x [unfolded board_at_work_def]
  have "message_fits (rb_board x) message_of_frame"
    by (simp add: message_fits_def message_of_frame_def component_byte_def)
  with pool_buffers_return [of x] w frame_of_siblings_stored
  have P: "(0 < ring_board_work x \<longrightarrow> (\<exists>y. ring_board_step x y \<and> ring_board_work y < ring_board_work x)) \<and>
      (\<exists>y. internal_round x = Some (Some y) \<and> ring_board_step x y \<and> internal_payload (rb_pool y) = None)"
    by simp
  moreover have "0 < ring_board_work x" using w by (simp add: ring_board_work_def)
  ultimately show ?thesis using x by blast
qed

end
