(* ===== verification/Table_Agreement.thy ===== *)
theory Table_Agreement
  imports Board_Defined
begin

text \<open>
  The boards of a node hold one routing table. A board changes its table only in the critical section
  of the routing, with a token of the lock; what it puts on the ring meanwhile is heard by the
  others. Here the messages of a whole turn are compared with the table that it leaves: each change
  is followed by the table it made, and the handlers of the other boards take it over.
\<close>

section \<open>What a board tells the others\<close>

text \<open>The messages that a board has put on the ring, oldest first.\<close>

definition told :: "'a sys_scheme \<Rightarrow> byte list list" where
  "told d = map frame_message (sent_frames (trace (lk d)))"

text \<open>The table that a message brings.\<close>

definition table_message :: "byte list \<Rightarrow> rt_routing_table option" where
  "table_message m = (case m of
     c # r # bs \<Rightarrow> if c = component_byte RS_SHARED_STATE \<and> r = component_byte RS_ROUTING \<and>
                      length bs = SIZEOF_ROUTING_TABLE
                   then Some (table_of_bytes bs) else None
   | _ \<Rightarrow> None)"

definition heard_table :: "byte list list \<Rightarrow> rt_routing_table \<Rightarrow> rt_routing_table" where
  "heard_table ms t = foldl (\<lambda>t m. case table_message m of None \<Rightarrow> t | Some t' \<Rightarrow> t') t ms"

lemma heard_table_append: "heard_table (ms @ ns) t = heard_table ns (heard_table ms t)"
  by (simp add: heard_table_def)

lemma heard_nothing: "\<forall>m \<in> set ms. table_message m = None \<Longrightarrow> heard_table ms t = t"
  unfolding heard_table_def by (induction ms) simp_all

text \<open>A message of a turn: an event of the routing, or a well-formed table.\<close>

definition turn_message :: "byte list \<Rightarrow> bool" where
  "turn_message m \<longleftrightarrow> (\<exists>raw. m = component_byte RS_ROUTING # raw) \<or>
     (\<exists>t. table_wf t \<and> m = component_byte RS_SHARED_STATE # component_byte RS_ROUTING # table_bytes 0 t)"

lemma component_bytes_differ:
  "component_byte RS_ROUTING \<noteq> component_byte RS_SHARED_STATE" "component_byte RS_ROUTING \<noteq> component_byte RS_SYNC"
  "component_byte RS_SHARED_STATE \<noteq> component_byte RS_SYNC"
  by (simp_all add: component_byte_def rs_consts)

lemma table_message_simps:
  "table_message (component_byte RS_ROUTING # raw) = None"
  "table_wf t \<Longrightarrow> table_message (component_byte RS_SHARED_STATE # component_byte RS_ROUTING # table_bytes 0 t) = Some t"
  using component_bytes_differ rt_wire.length_enc [of t 0] rt_wire.dec_enc [of t 0]
  by (simp_all add: table_message_def split: list.splits)

text \<open>The ring takes every frame, and a frame has room for the table.\<close>

definition ring_ok :: "environment \<Rightarrow> bool" where
  "ring_ok e \<longleftrightarrow> reliable e \<and> 202 \<le> ring_link_netif_mtu e"

lemma rs_broadcast_told:
  assumes "ring_ok (env l)" "length msg \<le> 201"
  shows "map frame_message (sent_frames (trace (snd (rs_broadcast c msg l)))) =
    map frame_message (sent_frames (trace l)) @ [component_byte c # msg]"
proof -
  have "reliable (env l)" "Suc (length msg) \<le> ring_link_netif_mtu (env l)" "length msg \<le> 512"
    using assms by (auto simp: ring_ok_def)
  from reliable_broadcast [OF this, of c] obtain l' where l': "rs_broadcast c msg l = (True, l')" "link_step l l'"
    "bus_messages l l' = [component_byte c # msg]" by blast
  then show ?thesis using trace_new_effects [OF l'(2)] by (simp add: bus_messages_def)
qed

section \<open>The operations of a turn\<close>

text \<open>
  A board that has told what makes its table out of the table \<open>t0\<close>; \<open>c\<close> tells whether it has to be
  in the critical section.
\<close>

definition tells_table :: "bool \<Rightarrow> environment \<Rightarrow> rt_routing_table \<Rightarrow> byte list list \<Rightarrow> 'a rt_sys_scheme \<Rightarrow> bool" where
  "tells_table c e0 t0 before d \<longleftrightarrow>
     (\<exists>ms. told d = before @ ms \<and> heard_table ms t0 = node_table d \<and> list_all turn_message ms) \<and>
     table_wf (node_table d) \<and> env (lk d) = e0 \<and> ring_ok e0 \<and> watches_table d \<and>
     (c \<longrightarrow> sync_is_inside_critical_section (sy d) RS_ROUTING)"

lemma tells_cong:
  assumes "told d' = told d" "node_table d' = node_table d" "env (lk d') = env (lk d)" "ss d' = ss d" "sy d' = sy d"
  shows "tells_table c e0 t0 b d' = tells_table c e0 t0 b d"
  using assms by (simp add: tells_table_def watches_table_def)

lemma tells_upd [simp]:
  "tells_table c e0 t0 b (upd_rt f d) = tells_table c e0 t0 b d" "tells_table c e0 t0 b (upd_fw g d) = tells_table c e0 t0 b d"
  "tells_table c e0 t0 b (set_root s d) = tells_table c e0 t0 b d"
  "tells_table c e0 t0 b (node_set_network_settings n m d) = tells_table c e0 t0 b d"
  by (rule tells_cong; simp add: told_def upd_rt_def upd_fw_def set_root_def node_set_network_settings_def upd_nd_def)+

lemma tells_panic [simp]: "tells_table c e0 t0 b (board_panic m d) = tells_table c e0 t0 b d"
  by (rule tells_cong) (simp_all add: told_def board_panic_def os_panic_def)

lemma sent_frames_socket: "socket_send m d = (ok, d') \<Longrightarrow> told d' = told d"
  by (auto simp: socket_send_def Let_def told_def)

lemma told_send_retry:
  assumes f: "\<And>d ok d'. f d = (ok, d') \<Longrightarrow> told d' = told d" and w: "\<And>d. told (wait d) = told d"
  shows "send_retry n f wait d = (ok, d') \<Longrightarrow> told d' = told d"
proof (induction n arbitrary: d)
  case (Suc n)
  obtain ok1 d1 where "f d = (ok1, d1)" by (cases "f d")
  with Suc f w show ?case by (cases ok1) fastforce+
qed simp

lemma tells_send [simp]: "tells_table c e0 t0 b (snd (wl_send_peer_message e d)) = tells_table c e0 t0 b d"
proof -
  have dev: "told x' = told x" if "device_send_wireless_message m x = (ok, x')" for m ok and x x' :: "'a rt_sys_scheme"
    using that by (auto simp: device_send_wireless_message_def server_send_message_def
        client_send_message_def intro: sent_frames_socket split: device_mode.splits if_splits)
  have w: "told (delay_ms RETRY_DELAY_MS x) = told x" for x :: "'a rt_sys_scheme"
    by (simp add: told_def delay_ms_def vTaskDelay_ms_def)
  have "told (snd (wl_send_peer_message e d)) = told d"
    using told_send_retry [OF dev w]
    by (cases "send_retry MAX_RETRIES (device_send_wireless_message (peer_event_bytes e)) (delay_ms RETRY_DELAY_MS) d")
      (simp add: wl_send_peer_message_def node_send_wireless_message_def)
  then show ?thesis
    using only_link_fields [OF only_link_send [of d e]] only_link_env [OF only_link_send [of d e]]
    by (intro tells_cong) simp_all
qed

lemma tells_more:
  assumes "tells_table c e0 t0 b d" "told d' = told d @ ms" "heard_table ms (node_table d) = node_table d'"
    and "list_all turn_message ms" "table_wf (node_table d')" "env (lk d') = env (lk d)" "ss d' = ss d" "sy d' = sy d"
  shows "tells_table c e0 t0 b d'"
proof -
  obtain ns where "told d = b @ ns" "heard_table ns t0 = node_table d" "list_all turn_message ns"
    using assms(1) by (auto simp: tells_table_def)
  with assms have "told d' = b @ ns @ ms" "heard_table (ns @ ms) t0 = node_table d'" "list_all turn_message (ns @ ms)"
    by (simp_all add: heard_table_append)
  with assms show ?thesis unfolding tells_table_def watches_table_def by metis
qed

lemma sent_frames_attempts: "set (sent_frames es) \<subseteq> set (spi_attempts es)"
  by (induction es rule: sent_frames.induct) auto

lemma tells_broadcast: "tells_table c e0 t0 b d \<Longrightarrow> tells_table c e0 t0 b (snd (rt_broadcast e d))"
proof -
  assume d: "tells_table c e0 t0 b d"
  let ?d = "snd (rt_broadcast e d)" and ?new = "sent_frames (new_effects (lk d) (lk (snd (rt_broadcast e d))))"
  have only: "only_link d ?d" by (rule only_link_rt_broadcast)
  have ms: "\<forall>m \<in> set (map frame_message ?new). m = component_byte RS_ROUTING # sibl_event_bytes e"
    using sent_frames_attempts rt_broadcast_frames [of _ d e] by fastforce
  have "trace (lk ?d) = trace (lk d) @ new_effects (lk d) (lk ?d)"
    using only by (intro trace_new_effects) (simp add: only_link_def)
  then have t: "told ?d = told d @ map frame_message ?new"
    by (simp add: told_def)
  then have "list_all turn_message (map frame_message ?new)"
    using ms unfolding list_all_iff turn_message_def by blast
  moreover have "heard_table (map frame_message ?new) (node_table d) = node_table ?d"
    using ms table_message_simps(1) only_link_fields(7) [OF only] by (metis heard_nothing)
  moreover have "table_wf (node_table ?d)"
    using d only_link_fields(7) [OF only] by (simp add: tells_table_def)
  ultimately show ?thesis
    using tells_more [OF d t] only_link_fields [OF only] only_link_env [OF only] by blast
qed

lemma tells_refresh:
  assumes "tells_table True e0 t0 b d" "ss_refresh RS_ROUTING d1 = Some d'" "table_wf (node_table d1)"
    and "told d1 = told d" "env (lk d1) = env (lk d)" "ss d1 = ss d" "sy d1 = sy d"
  shows "tells_table True e0 t0 b d'"
proof -
  let ?t = "node_table d1"
  have d1: "watches_table d1" "sync_is_inside_critical_section (sy d1) RS_ROUTING" "ring_ok (env (lk d1))"
    using assms(1,5-7) by (simp_all add: tells_table_def watches_table_def)
  have d': "d' = d1\<lparr>lk := snd (rs_broadcast RS_SHARED_STATE (component_byte RS_ROUTING # table_bytes 0 ?t) (lk d1))\<rparr>"
    using refresh_watched [OF d1(1) assms(3) d1(2)] assms(2) by simp
  have "told d' = told d1 @ [component_byte RS_SHARED_STATE # component_byte RS_ROUTING # table_bytes 0 ?t]"
    using rs_broadcast_told [OF d1(3), of "component_byte RS_ROUTING # table_bytes 0 ?t"] rt_wire.length_enc [OF assms(3), of 0]
    by (simp add: told_def d' SIZEOF_ROUTING_TABLE_def)
  moreover have "turn_message (component_byte RS_SHARED_STATE # component_byte RS_ROUTING # table_bytes 0 ?t)"
    using assms(3) unfolding turn_message_def by blast
  ultimately show ?thesis
    using tells_more [OF assms(1), of d'] assms(3-7) table_message_simps(2) [OF assms(3)]
    by (simp add: d' heard_table_def)
qed

lemma tells_add: "add_global_route n out d = Some d' \<Longrightarrow> tells_table True e0 t0 b d \<longrightarrow> tells_table True e0 t0 b d'"
proof
  assume a: "add_global_route n out d = Some d'" and d: "tells_table True e0 t0 b d"
  obtain t full where r: "routing_table_add (nw_addr n) (nw_mask n) out (node_table d) = (t, full)"
    by (cases "routing_table_add (nw_addr n) (nw_mask n) out (node_table d)")
  let ?d1 = "(if full then board_panic ''Routing table is full'' d else d)\<lparr>node_table := t\<rparr>"
  have 1: "ss_refresh RS_ROUTING ?d1 = Some d'" using a r by (simp add: add_global_route_def)
  have 2: "table_wf t"
    using table_wf_add [of "node_table d" "nw_addr n" "nw_mask n" out] r d by (simp add: tells_table_def)
  have 3: "told ?d1 = told d" "env (lk ?d1) = env (lk d)" "ss ?d1 = ss d" "sy ?d1 = sy d"
    by (simp_all add: told_def board_panic_def os_panic_def)
  show "tells_table True e0 t0 b d'" by (rule tells_refresh [OF d 1 _ 3]) (simp add: 2)
qed

lemma tells_remove: "remove_routes_by_output out d = Some d' \<Longrightarrow> tells_table True e0 t0 b d \<longrightarrow> tells_table True e0 t0 b d'"
proof
  assume a: "remove_routes_by_output out d = Some d'" and d: "tells_table True e0 t0 b d"
  let ?d1 = "d\<lparr>node_table := routing_table_remove_by_output out (node_table d)\<rparr>"
  have 1: "ss_refresh RS_ROUTING ?d1 = Some d'" using a by (simp add: remove_routes_by_output_def)
  show "tells_table True e0 t0 b d'"
    by (rule tells_refresh [OF d 1]) (use d table_wf_remove in \<open>simp_all add: tells_table_def told_def\<close>)
qed

lemma tells_hag: "add_hag_routes first ns d = Some d' \<Longrightarrow> tells_table True e0 t0 b d \<longrightarrow> tells_table True e0 t0 b d'"
proof (induction ns arbitrary: d)
  case (Cons n ns)
  then show ?case by (auto split: if_splits Option.bind_splits dest!: tells_add)
qed simp

lemma tells_ap: "wl_enable_ap_mode n d = Some d' \<Longrightarrow> tells_table True e0 t0 b d \<longrightarrow> tells_table True e0 t0 b d'"
  using node_set_as_ap_keeps [of "nw_addr n" "nw_mask n" d d'] tells_cong [of d' d True e0 t0 b]
  by (simp add: wl_enable_ap_mode_def keeps_routing_def told_def)

lemma tells_refreshed: "ss_refresh RS_ROUTING d = Some d' \<Longrightarrow> tells_table True e0 t0 b d \<longrightarrow> tells_table True e0 t0 b d'"
  using tells_refresh [of e0 t0 b d d d'] by (auto simp: tells_table_def)

lemmas tells_calls = tells_add tells_remove tells_hag tells_ap tells_refreshed

lemma sibl_handler_tells: "tells_table True e0 t0 b d \<Longrightarrow> sibl_handler e d = Some (Inr d') \<Longrightarrow> tells_table True e0 t0 b d'"
  by (cases e; cases "rt_role (rt d)")
     (auto simp: sibl_handler_def root_on_start_def home_on_start_def home_on_provision_def
       root_on_new_gateway_request_def fwd_on_sibl_update_dtr_def fwd_on_provision_def
       fwd_on_send_new_gateway_request_def fwd_on_new_gateway_winner_def Let_def case_prod_unfold
       intro: tells_broadcast dest!: tells_calls split: if_splits Option.bind_splits option.splits)

lemma peer_handler_tells: "tells_table True e0 t0 b d \<Longrightarrow> peer_handler e d = Some (Inr d') \<Longrightarrow> tells_table True e0 t0 b d'"
  by (cases e; cases "rt_role (rt d)")
     (auto simp: peer_handler_def fwd_on_peer_connected_def fwd_on_handshake_def
       fwd_on_peer_update_dtr_def fwd_on_new_gateway_request_def fwd_on_new_gateway_response_def
       fwd_on_peer_lost_def Let_def intro: tells_broadcast dest!: tells_calls split: if_splits Option.bind_splits)

lemma section_tells:
  fixes d :: "'a rt_sys_scheme"
  assumes "on_critical_section d = Some d'" "tells_table True e0 t0 b d"
  shows "tells_table True e0 t0 b d'"
proof -
  have panic: "tells_table True e0 t0 b (board_panic m x)" if "tells_table True e0 t0 b x" for m and x :: "'a rt_sys_scheme"
    using that by simp
  have s: "tells_table True e0 t0 b x'" if "tells_table True e0 t0 b x" "sibl_handler e x = Some (Inr x')" for e and x x' :: "'a rt_sys_scheme"
    using that by (rule sibl_handler_tells)
  have p: "tells_table True e0 t0 b x'" if "tells_table True e0 t0 b x" "peer_handler e x = Some (Inr x')" for e and x x' :: "'a rt_sys_scheme"
    using that by (rule peer_handler_tells)
  obtain more d1 where 1: "dispatch_events sibl_handler (\<lambda>_. board_panic ''Unknown sibling message'')
      (internal_queue (rt d)) d = Some (more, d1)"
    using assms(1) by (auto simp: on_critical_section_def split: Option.bind_splits)
  have 2: "tells_table True e0 t0 b d1" by (rule dispatch_keeps [where P = "tells_table True e0 t0 b", OF s panic 1 assms(2)])
  show ?thesis
  proof (cases more)
    case True
    then obtain fin d2 where 3: "dispatch_events peer_handler (\<lambda>_. board_panic ''Unknown peer message'')
        (external_queue (rt d1)) d1 = Some (fin, d2)"
      using assms(1) 1 by (auto simp: on_critical_section_def split: Option.bind_splits)
    have "tells_table True e0 t0 b d2" by (rule dispatch_keeps [where P = "tells_table True e0 t0 b", OF p panic 3 2])
    with assms(1) 1 3 True show ?thesis by (auto simp: on_critical_section_def split: if_splits)
  qed (use assms(1) 1 2 in \<open>auto simp: on_critical_section_def\<close>)
qed

end
