(* ===== verification/Sync_System.thy ===== *)
theory Sync_System
  imports Sync
begin

text \<open>
  The lock of a whole node: five boards, each with the sync state and the link of \<open>Sync\<close>, and the
  messages on their way. A handler runs to its end, except that the callback of a critical
  section takes time: \<open>Enter\<close> is the handler of a grant up to the callback and \<open>Leave\<close> the rest
  (\<open>grant_enter_leave\<close> shows that they make up the handler), and other boards act in between.
  A message that a board broadcasts is delivered once to each of the others, in any order, for
  every frame that its link put on the bus; \<open>bus_messages\<close> reads the frames off the log.
\<close>

section \<open>The handler of a grant in two halves\<close>

definition enter_cs :: "nat \<Rightarrow> 'a sys_scheme \<Rightarrow> 'a sys_scheme option" where
  "enter_cs cs d =
     do { x \<leftarrow> aget (critical_sections (sy d)) cs;
          if cs_function x = None then Some d else set_inside cs True d }"

definition leave_cs :: "nat \<Rightarrow> 'a sys_scheme \<Rightarrow> 'a sys_scheme option" where
  "leave_cs cs d =
     do { x \<leftarrow> aget (critical_sections (sy d)) cs;
          d1 \<leftarrow> (if cs_function x = None then Some d else set_inside cs False d);
          case sync_impl (sy d) of
            LEADER_IMPL \<Rightarrow> leader_token_back cs d1
          | FOLLOWER_IMPL \<Rightarrow> Some (follower_pass_token (of_nat cs) d1) }"

lemma grant_enter_leave:
  assumes "unat cs < length (critical_sections (sy d))"
    and "\<And>cb d1 d2. cs_function (critical_sections (sy d) ! unat cs) = Some cb \<Longrightarrow>
      enter_cs (unat cs) d = Some d1 \<Longrightarrow> run cb d1 = Some d2 \<Longrightarrow>
      map cs_function (critical_sections (sy d2)) = map cs_function (critical_sections (sy d1)) \<and>
      sync_impl (sy d2) = sync_impl (sy d1)"
  shows "sync_on_sibling_message run (sync_msg_bytes (TokenGrant (sync_orientation (sy d)) cs)) d =
    do { d1 \<leftarrow> enter_cs (unat cs) d;
         d2 \<leftarrow> (case cs_function (critical_sections (sy d) ! unat cs) of
                 None \<Rightarrow> Some d1 | Some cb \<Rightarrow> run cb d1);
         leave_cs (unat cs) d2 }"
proof (cases "cs_function (critical_sections (sy d) ! unat cs)")
  case None
  with assms(1) show ?thesis
    by (simp add: sync_on_sibling_message_def sync_msg_consts sync_msg_of_bytes_def enter_cs_def
        leave_cs_def run_callback_def leader_on_token_grant_def follower_on_token_grant_def
        split: sync_impl.splits)
next
  case (Some cb)
  define d1 where "d1 = the (set_inside (unat cs) True d)"
  have d1: "set_inside (unat cs) True d = Some d1" "sync_impl (sy d1) = sync_impl (sy d)"
    "map cs_function (critical_sections (sy d1)) = map cs_function (critical_sections (sy d))"
    using assms(1) by (simp_all add: d1_def set_inside_Some map_update list_update_same_conv)
  have enter: "enter_cs (unat cs) d = Some d1" using d1(1) Some assms(1) by (simp add: enter_cs_def)
  show ?thesis
  proof (cases "run cb d1")
    case None
    with Some d1 assms(1) show ?thesis
      by (simp add: sync_on_sibling_message_def sync_msg_consts sync_msg_of_bytes_def enter_cs_def
          run_callback_def leader_on_token_grant_def follower_on_token_grant_def
          split: sync_impl.splits)
  next
    case run: (Some d2)
    then have d2: "map cs_function (critical_sections (sy d2)) = map cs_function (critical_sections (sy d))"
      "sync_impl (sy d2) = sync_impl (sy d)"
      using assms(2) [OF Some _ run] d1 enter by auto
    then have len: "unat cs < length (critical_sections (sy d2))"
      using assms(1) by (metis length_map)
    have "cs_function (critical_sections (sy d2) ! unat cs) = Some cb"
      using d2(1) assms(1) len Some by (metis nth_map)
    with Some d1 d2 run len assms(1) show ?thesis
      by (auto simp: sync_on_sibling_message_def sync_msg_consts sync_msg_of_bytes_def enter_cs_def
          leave_cs_def run_callback_def leader_on_token_grant_def follower_on_token_grant_def
          set_inside_Some split: sync_impl.splits)
  qed
qed

section \<open>The node\<close>

type_synonym delivery = "u8 \<times> byte list"  \<comment> \<open>the receiver and the message\<close>

record node =
  boards :: "u8 \<Rightarrow> sys"
  busy :: "u8 \<Rightarrow> nat option"  \<comment> \<open>the critical section whose grant the board is handling\<close>
  flight :: "delivery list"

datatype event =
    Request u8 component_id  \<comment> \<open>\<open>sync_request_critical_section\<close> by a component of the board\<close>
  | Receive u8 "byte list"  \<comment> \<open>a message other than a grant for the receiver\<close>
  | Enter u8 nat
  | Leave u8
  | Traffic u8 link  \<comment> \<open>other components use the link\<close>

definition all_boards :: "u8 list" where "all_boards = [1, 2, 3, 4, 5]"

definition deliveries :: "u8 \<Rightarrow> byte list list \<Rightarrow> delivery list" where
  "deliveries ori msgs = concat (map (\<lambda>m. map (\<lambda>j. (j, m)) (filter (\<lambda>j. j \<noteq> ori) all_boards)) msgs)"

definition grant_bytes :: "u8 \<Rightarrow> nat \<Rightarrow> byte list" where
  "grant_bytes dst cs = component_byte RS_SYNC # sync_msg_bytes (TokenGrant dst (of_nat cs))"

definition grant_for :: "u8 \<Rightarrow> byte list \<Rightarrow> bool" where
  "grant_for i m = (case sync_msg_of_bytes (tl m) of Some (TokenGrant dst cs) \<Rightarrow> dst = i | _ \<Rightarrow> False)"

lemma grant_forI: "sync_msg_of_bytes (tl m) = Some (TokenGrant i cs) \<Longrightarrow> grant_for i m"
  by (simp add: grant_for_def)

text \<open>Other components may leave the link as they like, in the same environment.\<close>

definition other_traffic :: "link \<Rightarrow> link \<Rightarrow> link" where
  "other_traffic l' l = l'\<lparr>env := env l\<rparr>"

text \<open>Board \<open>i\<close> becomes \<open>d\<close>, and the messages that it broadcast meanwhile are under way.\<close>

definition put :: "u8 \<Rightarrow> sys \<Rightarrow> node \<Rightarrow> node" where
  "put i d n = n\<lparr>boards := (boards n)(i := d),
     flight := flight n @ deliveries i (bus_messages (lk (boards n i)) (lk d))\<rparr>"

fun fire :: "event \<Rightarrow> node \<Rightarrow> node option" where
  "fire (Request i c) n =
     (if i \<in> set all_boards then
        do { d \<leftarrow> sync_request_critical_section c (boards n i); Some (put i d n) }
      else None)"
| "fire (Receive i m) n =
     (if (i, m) \<in> set (flight n) \<and> busy n i = None \<and> m \<noteq> [] \<and>
         \<not> grant_for (sync_orientation (sy (boards n i))) m
      then do { d \<leftarrow> sync_on_sibling_message (\<lambda>_. Some) (tl m) (boards n i);
                Some (put i d (n\<lparr>flight := remove1 (i, m) (flight n)\<rparr>)) }
      else None)"
| "fire (Enter i cs) n =
     (if (i, grant_bytes i cs) \<in> set (flight n) \<and> busy n i = None \<and> cs < 7
      then do { d \<leftarrow> enter_cs cs (boards n i);
                Some (put i d (n\<lparr>flight := remove1 (i, grant_bytes i cs) (flight n),
                                 busy := (busy n)(i := Some cs)\<rparr>)) }
      else None)"
| "fire (Leave i) n =
     (case busy n i of
        None \<Rightarrow> None
      | Some cs \<Rightarrow>
          do { d \<leftarrow> leave_cs cs (boards n i);
               Some (put i d (n\<lparr>busy := (busy n)(i := None)\<rparr>)) })"
| "fire (Traffic i l) n =
     Some (n\<lparr>boards := (boards n)(i := (boards n i)\<lparr>lk := other_traffic l (lk (boards n i))\<rparr>)\<rparr>)"

text \<open>
  A node after \<open>sync_init\<close> on each board and some registrations, with a link whose environment
  satisfies \<open>ok\<close>.
\<close>

definition registered :: "(component_id \<times> cs_callback option) list \<Rightarrow> sync_t \<Rightarrow> sync_t" where
  "registered regs s = foldl (\<lambda>s (c, cb). sync_register_critical_section c cb s) s regs"

definition node_start :: "(environment \<Rightarrow> bool) \<Rightarrow> node \<Rightarrow> bool" where
  "node_start ok n \<longleftrightarrow> flight n = [] \<and> busy n = (\<lambda>_. None) \<and>
     (\<forall>i \<in> set all_boards. ok (env (lk (boards n i))) \<and>
        (\<exists>rs regs. sy (boards n i) = registered regs (fst (snd (sync_init rs i)))))"

inductive reachable :: "(environment \<Rightarrow> bool) \<Rightarrow> node \<Rightarrow> bool" for ok where
  start: "node_start ok n \<Longrightarrow> reachable ok n"
| step: "reachable ok n \<Longrightarrow> fire e n = Some n' \<Longrightarrow> reachable ok n'"

section \<open>Counting tokens\<close>

definition grants_in :: "nat \<Rightarrow> delivery list \<Rightarrow> nat" where
  "grants_in cs ms = length (filter (\<lambda>(j, m). m = grant_bytes j cs) ms)"

definition holders :: "node \<Rightarrow> nat \<Rightarrow> nat" where
  "holders n cs = length (filter (\<lambda>i. busy n i = Some cs) all_boards)"

definition tokens :: "node \<Rightarrow> nat \<Rightarrow> nat" where
  "tokens n cs = grants_in cs (flight n) + holders n cs"

abbreviation token_is_out :: "node \<Rightarrow> nat \<Rightarrow> bool" where
  "token_is_out n cs \<equiv> is_token_out (leader_st (sy (boards n ORIENTATION_CENTER))) ! cs"

abbreviation waiting :: "node \<Rightarrow> nat \<Rightarrow> u8" where
  "waiting n cs \<equiv> requested_tokens (leader_st (sy (boards n ORIENTATION_CENTER))) ! cs"

lemma grants_in_append [simp]: "grants_in cs (ms @ ns) = grants_in cs ms + grants_in cs ns"
  by (simp add: grants_in_def)

lemma grants_in_remove1:
  "x \<in> set ms \<Longrightarrow> grants_in cs ms = grants_in cs (remove1 x ms) + grants_in cs [x]"
  by (induction ms) (auto simp: grants_in_def)

lemma unat_cs_byte [simp]: "a < 7 \<Longrightarrow> unat (of_nat a :: u8) = a"
  by (simp add: unat_of_nat)

lemma cs_byte_eq:
  assumes "a < 7" "b < 7"
  shows "(of_nat a :: u8) = of_nat b \<longleftrightarrow> a = b"
  using unat_cs_byte [OF assms(1)] unat_cs_byte [OF assms(2)] by metis

lemma grant_bytes_inject:
  "a < 7 \<Longrightarrow> b < 7 \<Longrightarrow> grant_bytes i a = grant_bytes j b \<longleftrightarrow> i = j \<and> a = b"
  using cs_byte_eq [of a b] by (auto simp: grant_bytes_def)

lemma grants_in_none [simp]: "grants_in cs (deliveries i []) = 0"
  by (simp add: deliveries_def grants_in_def)

lemma grants_in_grant:
  "a < 7 \<Longrightarrow> b < 7 \<Longrightarrow> i \<in> set all_boards \<Longrightarrow> j \<in> set all_boards \<Longrightarrow> i \<noteq> j \<Longrightarrow>
   grants_in b (deliveries i [grant_bytes j a]) = (if a = b then 1 else 0)"
  by (auto simp: deliveries_def grants_in_def grant_bytes_inject all_boards_def)

lemma grants_in_request:
  "grants_in cs (deliveries i [component_byte RS_SYNC # sync_msg_bytes (TokenRequest r)]) = 0"
  by (simp add: deliveries_def grants_in_def grant_bytes_def sync_msg_consts)

lemma grants_in_single:
  "a < 7 \<Longrightarrow> b < 7 \<Longrightarrow> grants_in b [(i, grant_bytes i a)] = (if a = b then 1 else 0)"
  by (simp add: grants_in_def grant_bytes_inject)

lemma holders_set:
  "i \<in> set all_boards \<Longrightarrow> busy n i = None \<Longrightarrow>
   holders (n\<lparr>busy := (busy n)(i := Some a)\<rparr>) cs = holders n cs + (if a = cs then 1 else 0)"
  by (auto simp: holders_def all_boards_def)

lemma holders_clear:
  "i \<in> set all_boards \<Longrightarrow> busy n i = Some a \<Longrightarrow>
   holders n cs = holders (n\<lparr>busy := (busy n)(i := None)\<rparr>) cs + (if a = cs then 1 else 0)"
  by (auto simp: holders_def all_boards_def)

lemma put_simps [simp]:
  "boards (put i d n) = (boards n)(i := d)" "busy (put i d n) = busy n"
  "flight (put i d n) = flight n @ deliveries i (bus_messages (lk (boards n i)) (lk d))"
  "holders (put i d n) cs = holders n cs"
  by (simp_all add: put_def holders_def)

lemma holders_flight [simp]: "holders (n\<lparr>flight := f, busy := b\<rparr>) cs = holders (n\<lparr>busy := b\<rparr>) cs"
  "holders (n\<lparr>flight := f\<rparr>) cs = holders n cs" "holders (n\<lparr>boards := g\<rparr>) cs = holders n cs"
  by (simp_all add: holders_def)

section \<open>The effect of each operation on a board\<close>

definition board_ok :: "u8 \<Rightarrow> sys \<Rightarrow> bool" where
  "board_ok i d \<longleftrightarrow> sync_wf (sy d) \<and> sync_orientation (sy d) = i \<and> reliable (env (lk d)) \<and>
     (sync_impl (sy d) = LEADER_IMPL \<longleftrightarrow> i = ORIENTATION_CENTER) \<and>
     (i = ORIENTATION_CENTER \<longrightarrow> first_device_to_get_token (leader_st (sy d)) = ORIENTATION_NORTH)"

lemma board_ok_frame:
  "board_ok i d \<Longrightarrow> env (lk d') = env (lk d) \<Longrightarrow> sync_wf (sy d') \<Longrightarrow>
   sync_orientation (sy d') = sync_orientation (sy d) \<Longrightarrow> sync_impl (sy d') = sync_impl (sy d) \<Longrightarrow>
   first_device_to_get_token (leader_st (sy d')) = first_device_to_get_token (leader_st (sy d)) \<Longrightarrow>
   board_ok i d'"
  by (simp add: board_ok_def)

lemma bus_messages_refl [simp]: "bus_messages l l = []"
  by (simp add: bus_messages_def)

lemma follower_request_effect:
  assumes "board_ok i d" "i \<noteq> ORIENTATION_CENTER"
  shows "\<exists>d'. sync_request_critical_section c d = Some d' \<and> board_ok i d' \<and> sy d' = sy d \<and>
    bus_messages (lk d) (lk d') = [component_byte RS_SYNC # sync_msg_bytes (TokenRequest (component_byte c))]"
proof -
  obtain l where l: "sync_broadcast (TokenRequest (component_byte c)) d = d\<lparr>lk := l\<rparr>" "link_step (lk d) l"
    "bus_messages (lk d) l = [component_byte RS_SYNC # sync_msg_bytes (TokenRequest (component_byte c))]"
    using sync_broadcast_reliable [of d] assms(1) unfolding board_ok_def by blast
  have "sync_impl (sy d) = FOLLOWER_IMPL"
    using assms by (cases "sync_impl (sy d)") (auto simp: board_ok_def)
  moreover have "board_ok i (d\<lparr>lk := l\<rparr>)"
    using assms(1) l(2) by (simp add: board_ok_def link_step_def)
  ultimately show ?thesis
    using l by (simp add: sync_request_critical_section_def follower_request_critical_section_def
        component_byte_def)
qed

lemma leader_st_inside [simp]:
  "leader_st (sy (d\<lparr>sy := (sy d)\<lparr>critical_sections := x\<rparr>\<rparr>)) = leader_st (sy d)"
  by simp

text \<open>How a step changes what the leader knows about one critical section.\<close>

definition leader_view :: "sys \<Rightarrow> nat \<Rightarrow> bool \<times> u8" where
  "leader_view d cs =
     (is_token_out (leader_st (sy d)) ! cs, requested_tokens (leader_st (sy d)) ! cs)"

lemma issue_effect:
  assumes "board_ok ORIENTATION_CENTER d" "cs < 7"
  shows "\<exists>d'. issue_new_token cs d = Some d' \<and> board_ok ORIENTATION_CENTER d' \<and>
    critical_sections (sy d') = critical_sections (sy d) \<and>
    leader_view d' = (leader_view d)(cs := (True, snd (leader_view d cs))) \<and>
    bus_messages (lk d) (lk d') = [grant_bytes ORIENTATION_NORTH cs]"
proof -
  have d: "sync_wf (sy d)" "reliable (env (lk d))"
    "first_device_to_get_token (leader_st (sy d)) = ORIENTATION_NORTH"
    using assms(1) by (simp_all add: board_ok_def)
  obtain l where l: "issue_new_token cs d = Some ((token_goes_out cs d)\<lparr>lk := l\<rparr>)" "link_step (lk d) l"
    "bus_messages (lk d) l = [grant_bytes ORIENTATION_NORTH cs]"
    using issue_reliable [OF d(1) assms(2) d(2)] d(3) by (auto simp: grant_bytes_def)
  have "board_ok ORIENTATION_CENTER ((token_goes_out cs d)\<lparr>lk := l\<rparr>)"
    using assms(1) l(2) sync_wf_lengths [OF d(1)]
    by (auto simp: board_ok_def token_goes_out_def link_step_def intro!: sync_wf_on_leader)
  then show ?thesis
    using l sync_wf_lengths [OF d(1)] assms(2)
    by (auto simp: token_goes_out_def leader_view_def nth_list_update fun_eq_iff)
qed

lemma leader_request_effect:
  assumes "board_ok ORIENTATION_CENTER d" "cs < 7"
  shows "\<exists>d'. leader_request_critical_section cs d = Some d' \<and> board_ok ORIENTATION_CENTER d' \<and>
    critical_sections (sy d') = critical_sections (sy d) \<and>
    (case leader_view d cs of (out, n) \<Rightarrow>
       leader_view d' = (leader_view d)(cs := (True, if out \<and> n < 255 then n + 1 else n)) \<and>
       bus_messages (lk d) (lk d') = (if out then [] else [grant_bytes ORIENTATION_NORTH cs]))"
proof -
  have wf: "sync_wf (sy d)" using assms(1) by (simp add: board_ok_def)
  show ?thesis
  proof (cases "is_token_out (leader_st (sy d)) ! cs")
    case True
    have "board_ok ORIENTATION_CENTER (on_leader (\<lambda>s. s\<lparr>requested_tokens := (requested_tokens s)
        [cs := requested_tokens s ! cs + 1]\<rparr>) d)"
      using assms(1) sync_wf_lengths [OF wf] by (auto simp: board_ok_def intro!: sync_wf_on_leader)
    with True assms sync_wf_lengths [OF wf] show ?thesis
      by (auto simp: leader_request_cases [OF wf assms(2)] leader_view_def nth_list_update fun_eq_iff)
  next
    case False
    with issue_effect [OF assms] show ?thesis
      by (auto simp: leader_request_cases [OF wf assms(2)] leader_view_def)
  qed
qed

lemma leader_token_back_effect:
  assumes "board_ok ORIENTATION_CENTER d" "cs < 7"
  shows "\<exists>d'. leader_token_back cs d = Some d' \<and> board_ok ORIENTATION_CENTER d' \<and>
    critical_sections (sy d') = critical_sections (sy d) \<and>
    (case leader_view d cs of (out, n) \<Rightarrow>
       leader_view d' = (leader_view d)(cs := if n > 0 then (True, n - 1) else (False, n)) \<and>
       bus_messages (lk d) (lk d') = (if n > 0 then [grant_bytes ORIENTATION_NORTH cs] else []))"
proof -
  have wf: "sync_wf (sy d)" using assms(1) by (simp add: board_ok_def)
  note len = sync_wf_lengths [OF wf]
  show ?thesis
  proof (cases "requested_tokens (leader_st (sy d)) ! cs > 0")
    case True
    let ?d = "on_leader (\<lambda>s. s\<lparr>requested_tokens := (requested_tokens s)[cs := requested_tokens s ! cs - 1]\<rparr>) d"
    have "board_ok ORIENTATION_CENTER ?d"
      using assms(1) len by (auto simp: board_ok_def intro!: sync_wf_on_leader)
    moreover have "leader_view ?d = (leader_view d)(cs := (fst (leader_view d cs), snd (leader_view d cs) - 1))"
      using len assms(2) by (auto simp: leader_view_def nth_list_update fun_eq_iff)
    ultimately show ?thesis
      using issue_effect [of ?d, OF _ assms(2)] True
      by (auto simp: leader_token_back_cases [OF wf assms(2)] leader_view_def)
  next
    case False
    have "board_ok ORIENTATION_CENTER (on_leader (\<lambda>s. s\<lparr>is_token_out := (is_token_out s)[cs := False]\<rparr>) d)"
      using assms(1) len by (auto simp: board_ok_def intro!: sync_wf_on_leader)
    with False len assms(2) show ?thesis
      by (auto simp: leader_token_back_cases [OF wf assms(2)] leader_view_def nth_list_update fun_eq_iff)
  qed
qed

definition inside_ok :: "sys \<Rightarrow> nat option \<Rightarrow> bool" where
  "inside_ok d b \<longleftrightarrow> (\<forall>k < 7. is_inside (critical_sections (sy d) ! k) \<longrightarrow>
     b = Some k \<and> cs_function (critical_sections (sy d) ! k) \<noteq> None)"

lemma enter_effect:
  assumes "board_ok i d" "cs < 7" "inside_ok d None"
  shows "\<exists>d'. enter_cs cs d = Some d' \<and> board_ok i d' \<and> leader_st (sy d') = leader_st (sy d) \<and>
    lk d' = lk d \<and> inside_ok d' (Some cs) \<and>
    (is_inside (critical_sections (sy d') ! cs) \<longleftrightarrow> cs_function (critical_sections (sy d) ! cs) \<noteq> None)"
proof -
  have len: "length (critical_sections (sy d)) = 7"
    using assms(1) by (simp add: board_ok_def sync_wf_lengths)
  show ?thesis
  proof (cases "cs_function (critical_sections (sy d) ! cs)")
    case None
    with assms len show ?thesis by (auto simp: enter_cs_def inside_ok_def)
  next
    case (Some cb)
    let ?d = "d\<lparr>sy := (sy d)\<lparr>critical_sections := (critical_sections (sy d))
      [cs := (critical_sections (sy d) ! cs)\<lparr>is_inside := True\<rparr>]\<rparr>\<rparr>"
    have "board_ok i ?d" using assms(1) by (auto simp: board_ok_def sync_wf_def)
    moreover have "inside_ok ?d (Some cs)"
      using assms(2,3) Some len by (auto simp: inside_ok_def nth_list_update)
    moreover have "enter_cs cs d = Some ?d"
      using Some len assms(2) by (simp add: enter_cs_def set_inside_Some)
    ultimately show ?thesis using Some len assms(2) by auto
  qed
qed

text \<open>The board after the callback has returned, before the token goes on.\<close>

lemma callback_returns:
  assumes "board_ok i d" "cs < 7" "inside_ok d (Some cs)"
  shows "\<exists>d1. (if cs_function (critical_sections (sy d) ! cs) = None then Some d else set_inside cs False d) =
      Some d1 \<and> board_ok i d1 \<and> leader_st (sy d1) = leader_st (sy d) \<and> lk d1 = lk d \<and> inside_ok d1 None"
proof -
  have len: "length (critical_sections (sy d)) = 7"
    using assms(1) by (simp add: board_ok_def sync_wf_lengths)
  show ?thesis
  proof (cases "cs_function (critical_sections (sy d) ! cs)")
    case None
    with assms show ?thesis by (auto simp: inside_ok_def)
  next
    case (Some cb)
    let ?d = "d\<lparr>sy := (sy d)\<lparr>critical_sections := (critical_sections (sy d))
      [cs := (critical_sections (sy d) ! cs)\<lparr>is_inside := False\<rparr>]\<rparr>\<rparr>"
    have "board_ok i ?d" using assms(1) by (auto simp: board_ok_def sync_wf_def)
    moreover have "inside_ok ?d None"
      using assms(2,3) Some len by (auto simp: inside_ok_def nth_list_update)
    ultimately show ?thesis using Some len assms(2) by (simp add: set_inside_Some)
  qed
qed

lemma inside_ok_cong:
  "critical_sections (sy d') = critical_sections (sy d) \<Longrightarrow> inside_ok d' b = inside_ok d b"
  by (simp add: inside_ok_def)

lemma follower_leave_effect:
  assumes "board_ok i d" "i \<noteq> ORIENTATION_CENTER" "cs < 7" "inside_ok d (Some cs)"
  shows "\<exists>d'. leave_cs cs d = Some d' \<and> board_ok i d' \<and> inside_ok d' None \<and>
    bus_messages (lk d) (lk d') = [grant_bytes (next_device i) cs]"
proof -
  obtain d1 where d1: "(if cs_function (critical_sections (sy d) ! cs) = None then Some d
      else set_inside cs False d) = Some d1" "board_ok i d1" "lk d1 = lk d" "inside_ok d1 None"
    using callback_returns [OF assms(1,3,4)] by blast
  obtain l where l: "sync_broadcast (TokenGrant (next_device i) (of_nat cs)) d1 = d1\<lparr>lk := l\<rparr>"
    "link_step (lk d1) l"
    "bus_messages (lk d1) l = [grant_bytes (next_device i) cs]"
    using sync_broadcast_reliable [of d1] d1(2) unfolding board_ok_def grant_bytes_def by blast
  have impl: "sync_impl (sy d) = FOLLOWER_IMPL"
    using assms(1,2) by (cases "sync_impl (sy d)") (simp_all add: board_ok_def)
  have ori: "sync_orientation (sy d1) = i" "cs < length (critical_sections (sy d))"
    using assms(1,3) d1(2) by (simp_all add: board_ok_def sync_wf_lengths)
  have "board_ok i (d1\<lparr>lk := l\<rparr>)"
    using d1(2) l(2) by (simp add: board_ok_def link_step_def)
  moreover have "inside_ok (d1\<lparr>lk := l\<rparr>) None"
    using d1(4) by (simp add: inside_ok_def)
  moreover have "leave_cs cs d = Some (d1\<lparr>lk := l\<rparr>)"
    by (simp add: leave_cs_def follower_pass_token_def d1(1) ori impl l(1))
  moreover have "bus_messages (lk d) (lk (d1\<lparr>lk := l\<rparr>)) = [grant_bytes (next_device i) cs]"
    using l(3) d1(3) by simp
  ultimately show ?thesis by blast
qed

lemma leader_leave_effect:
  assumes "board_ok ORIENTATION_CENTER d" "cs < 7" "inside_ok d (Some cs)"
  shows "\<exists>d'. leave_cs cs d = Some d' \<and> board_ok ORIENTATION_CENTER d' \<and> inside_ok d' None \<and>
    (case leader_view d cs of (out, n) \<Rightarrow>
       leader_view d' = (leader_view d)(cs := if n > 0 then (True, n - 1) else (False, n)) \<and>
       bus_messages (lk d) (lk d') = (if n > 0 then [grant_bytes ORIENTATION_NORTH cs] else []))"
proof -
  obtain d1 where d1: "(if cs_function (critical_sections (sy d) ! cs) = None then Some d
      else set_inside cs False d) = Some d1" "board_ok ORIENTATION_CENTER d1" "lk d1 = lk d"
    "leader_st (sy d1) = leader_st (sy d)" "inside_ok d1 None"
    using callback_returns [OF assms] by blast
  have v: "leader_view d1 = leader_view d" by (simp add: leader_view_def fun_eq_iff d1(4))
  from leader_token_back_effect [OF d1(2) assms(2), unfolded v d1(3)]
  obtain d2 where d2: "leader_token_back cs d1 = Some d2" "board_ok ORIENTATION_CENTER d2"
    "critical_sections (sy d2) = critical_sections (sy d1)"
    "case leader_view d cs of (out, n) \<Rightarrow>
       leader_view d2 = (leader_view d)(cs := if n > 0 then (True, n - 1) else (False, n)) \<and>
       bus_messages (lk d) (lk d2) = (if n > 0 then [grant_bytes ORIENTATION_NORTH cs] else [])"
    by (elim exE conjE)
  have "sync_impl (sy d) = LEADER_IMPL" "cs < length (critical_sections (sy d))"
    using assms(1,2) by (simp_all add: board_ok_def sync_wf_lengths)
  then have "leave_cs cs d = Some d2"
    using d2(1) by (simp add: leave_cs_def d1(1))
  then show ?thesis
    using d2(2,4) d1(5) inside_ok_cong [OF d2(3), of None] by (intro exI [of _ d2] conjI) simp_all
qed

section \<open>The invariant of the node\<close>

definition msg_ok :: "delivery \<Rightarrow> bool" where
  "msg_ok x \<longleftrightarrow> fst x \<in> set all_boards \<and>
     (\<exists>cs < 7. (\<exists>dst. snd x = grant_bytes dst cs) \<or>
        snd x = component_byte RS_SYNC # sync_msg_bytes (TokenRequest (of_nat cs)))"

definition leader_inv :: "node \<Rightarrow> bool" where
  "leader_inv n \<longleftrightarrow> (\<forall>cs < 7. case leader_view (boards n ORIENTATION_CENTER) cs of (out, w) \<Rightarrow>
     tokens n cs = (if out then 1 else 0) \<and> (out \<or> w = 0))"

definition boards_inv :: "node \<Rightarrow> bool" where
  "boards_inv n \<longleftrightarrow>
     (\<forall>i \<in> set all_boards. board_ok i (boards n i) \<and> inside_ok (boards n i) (busy n i)) \<and>
     (\<forall>i cs. busy n i = Some cs \<longrightarrow> cs < 7 \<and> i \<in> set all_boards) \<and>
     list_all msg_ok (flight n)"

definition node_inv :: "node \<Rightarrow> bool" where
  "node_inv n \<longleftrightarrow> boards_inv n \<and> leader_inv n"

lemma center_board [simp]: "ORIENTATION_CENTER \<in> set all_boards"
  by (simp add: orientations all_boards_def)

lemma msg_ok_deliveries_grant:
  "cs < 7 \<Longrightarrow> list_all msg_ok (deliveries i [grant_bytes dst cs])"
  by (auto simp: deliveries_def msg_ok_def list_all_iff)

lemma msg_ok_deliveries_request:
  "list_all msg_ok (deliveries i [component_byte RS_SYNC # sync_msg_bytes (TokenRequest (component_byte c))])"
  using component_num_less [of c]
  by (auto simp: deliveries_def msg_ok_def list_all_iff rs_consts component_byte_def
      intro!: exI [of _ "component_num c"])

lemma msg_ok_deliveries_nil [simp]: "list_all msg_ok (deliveries i [])"
  by (simp add: deliveries_def)

lemma boards_inv_put:
  assumes "boards_inv n" "i \<in> set all_boards" "board_ok i d" "inside_ok d (busy n i)"
    and "list_all msg_ok (deliveries i (bus_messages (lk (boards n i)) (lk d)))"
  shows "boards_inv (put i d n)"
  using assms by (auto simp: boards_inv_def)

lemma boards_inv_take:
  "boards_inv n \<Longrightarrow> boards_inv (n\<lparr>flight := remove1 x (flight n)\<rparr>)"
  by (auto simp: boards_inv_def list_all_iff dest: notin_set_remove1 in_set_takeD
      intro: notin_set_remove1 elim: in_set_remove1 [THEN iffD1])

lemma tokens_put:
  "tokens (put i d n) cs = tokens n cs + grants_in cs (deliveries i (bus_messages (lk (boards n i)) (lk d)))"
  by (simp add: tokens_def)

lemma tokens_take:
  assumes "x \<in> set (flight n)"
  shows "tokens n cs = tokens (n\<lparr>flight := remove1 x (flight n)\<rparr>) cs + grants_in cs [x]"
  using grants_in_remove1 [OF assms, of cs] by (simp add: tokens_def)

text \<open>A request that reaches the leader, its own or one from the ring.\<close>

lemma leader_request_inv:
  assumes "node_inv n" "cs < 7"
    and "leader_request_critical_section cs (boards n ORIENTATION_CENTER) = Some d"
  shows "node_inv (put ORIENTATION_CENTER d n)"
proof -
  let ?c = "ORIENTATION_CENTER"
  have ok: "board_ok ?c (boards n ?c)" "inside_ok (boards n ?c) (busy n ?c)"
    and bi: "boards_inv n" and li: "leader_inv n"
    using assms(1) center_board by (auto simp: node_inv_def boards_inv_def)
  obtain out w where v: "leader_view (boards n ?c) cs = (out, w)"
    by (cases "leader_view (boards n ?c) cs")
  from leader_request_effect [OF ok(1) assms(2)] assms(3) v
  have d: "board_ok ?c d" "critical_sections (sy d) = critical_sections (sy (boards n ?c))"
    and view: "leader_view d = (leader_view (boards n ?c))(cs := (True, if out \<and> w < 255 then w + 1 else w))"
    and msgs: "bus_messages (lk (boards n ?c)) (lk d) = (if out then [] else [grant_bytes ORIENTATION_NORTH cs])"
    by simp_all
  have "boards_inv (put ?c d n)"
    using boards_inv_put [OF bi center_board d(1)] ok(2) inside_ok_cong [OF d(2)] assms(2)
    by (simp add: msgs msg_ok_deliveries_grant)
  moreover have "leader_inv (put ?c d n)"
    unfolding leader_inv_def
  proof (intro allI impI)
    fix k :: nat
    assume k: "k < 7"
    have "grants_in k (deliveries ?c [grant_bytes ORIENTATION_NORTH cs]) = (if cs = k then 1 else 0)"
      using assms(2) k by (intro grants_in_grant) (simp_all add: orientations all_boards_def)
    with li k v show "case leader_view (boards (put ?c d n) ?c) k of (out, w) \<Rightarrow>
        tokens (put ?c d n) k = (if out then 1 else 0) \<and> (out \<or> w = 0)"
      by (auto simp: leader_inv_def tokens_put view msgs)
  qed
  ultimately show ?thesis by (simp add: node_inv_def)
qed

lemma inv_boards:
  assumes "node_inv n" "i \<in> set all_boards"
  shows "board_ok i (boards n i)" "inside_ok (boards n i) (busy n i)" "boards_inv n" "leader_inv n"
  using assms by (auto simp: node_inv_def boards_inv_def)

lemma leader_inv_cong:
  assumes "leader_inv n" "leader_st (sy (boards n' ORIENTATION_CENTER)) = leader_st (sy (boards n ORIENTATION_CENTER))"
    and "\<And>cs. cs < 7 \<Longrightarrow> tokens n' cs = tokens n cs"
  shows "leader_inv n'"
  using assms by (simp add: leader_inv_def leader_view_def)

lemma inv_request:
  assumes "node_inv n" "fire (Request i c) n = Some n'"
  shows "node_inv n'"
proof -
  from assms(2) obtain d where i: "i \<in> set all_boards"
    and d: "sync_request_critical_section c (boards n i) = Some d" "n' = put i d n"
    by (auto split: if_splits simp: bind_eq_Some_conv)
  note inv = inv_boards [OF assms(1) i]
  show ?thesis
  proof (cases "i = ORIENTATION_CENTER")
    case True
    then have "leader_request_critical_section (component_num c) (boards n ORIENTATION_CENTER) = Some d"
      using d inv(1) by (simp add: sync_request_critical_section_def board_ok_def)
    with leader_request_inv [OF assms(1)] True d(2) component_num_less [of c] show ?thesis
      by (simp add: rs_consts)
  next
    case False
    from follower_request_effect [OF inv(1) False, of c] d(1)
    have e: "board_ok i d" "sy d = sy (boards n i)"
      and m: "bus_messages (lk (boards n i)) (lk d) =
        [component_byte RS_SYNC # sync_msg_bytes (TokenRequest (component_byte c))]"
      by simp_all
    have "boards_inv n'"
      unfolding d(2) using boards_inv_put [OF inv(3) i e(1)] inv(2)
      by (simp add: m msg_ok_deliveries_request [unfolded sync_msg_bytes.simps] e(2) inside_ok_def)
    moreover have "leader_inv n'"
      unfolding d(2) using False m
      by (intro leader_inv_cong [OF inv(4)]) (simp_all add: tokens_put grants_in_request [unfolded sync_msg_bytes.simps])
    ultimately show ?thesis by (simp add: node_inv_def)
  qed
qed

lemma in_flight_ok: "node_inv n \<Longrightarrow> x \<in> set (flight n) \<Longrightarrow> msg_ok x"
  by (simp add: node_inv_def boards_inv_def list_all_iff)

lemma inv_take:
  assumes "node_inv n" "x \<in> set (flight n)" "\<And>cs. cs < 7 \<Longrightarrow> grants_in cs [x] = 0"
  shows "node_inv (n\<lparr>flight := remove1 x (flight n)\<rparr>)"
proof -
  have "tokens (n\<lparr>flight := remove1 x (flight n)\<rparr>) cs = tokens n cs" if "cs < 7" for cs
    using tokens_take [OF assms(2), of cs] assms(3) [OF that] by linarith
  then have "leader_inv (n\<lparr>flight := remove1 x (flight n)\<rparr>)"
    using assms(1) leader_inv_cong [of n "n\<lparr>flight := remove1 x (flight n)\<rparr>"] by (simp add: node_inv_def)
  then show ?thesis
    using assms(1) boards_inv_take by (simp add: node_inv_def)
qed

lemma put_same: "sy d = sy (boards n i) \<Longrightarrow> lk d = lk (boards n i) \<Longrightarrow> put i d n = n\<lparr>boards := (boards n)(i := d)\<rparr>"
  by (simp add: put_def deliveries_def)

lemma put_self [simp]: "put i (boards n i) n = n"
  by (simp add: put_def deliveries_def)

text \<open>
  What a board takes off the bus that is not a grant for it: a grant for another board and a request
  at a follower leave it as it is, a request at the leader is counted.
\<close>

lemma receive_cases:
  assumes "node_inv n" "fire (Receive i m) n = Some n'"
  obtains (foreign) dst cs where "cs < 7" "m = grant_bytes dst cs" "dst \<noteq> i"
      "n' = n\<lparr>flight := remove1 (i, m) (flight n)\<rparr>"
    | (request) cs d where "cs < 7" "m = component_byte RS_SYNC # sync_msg_bytes (TokenRequest (of_nat cs))"
      "i = ORIENTATION_CENTER" "leader_request_critical_section cs (boards n ORIENTATION_CENTER) = Some d"
      "n' = put i d (n\<lparr>flight := remove1 (i, m) (flight n)\<rparr>)"
    | (ignored) cs where "m = component_byte RS_SYNC # sync_msg_bytes (TokenRequest (of_nat cs))"
      "i \<noteq> ORIENTATION_CENTER" "n' = n\<lparr>flight := remove1 (i, m) (flight n)\<rparr>"
proof -
  let ?n = "n\<lparr>flight := remove1 (i, m) (flight n)\<rparr>" and ?b = "boards n i"
  from assms(2) obtain d where x: "(i, m) \<in> set (flight n)" and other: "\<not> grant_for (sync_orientation (sy ?b)) m"
    and d: "sync_on_sibling_message (\<lambda>_. Some) (tl m) ?b = Some d" "n' = put i d ?n"
    by (auto split: if_splits simp: bind_eq_Some_conv)
  obtain cs where i: "i \<in> set all_boards" and cs: "cs < 7" and m: "(\<exists>dst. m = grant_bytes dst cs) \<or>
      m = component_byte RS_SYNC # sync_msg_bytes (TokenRequest (of_nat cs))"
    using in_flight_ok [OF assms(1) x] by (auto simp: msg_ok_def)
  have ok: "board_ok i ?b" using inv_boards(1) [OF assms(1) i] .
  then have ori: "sync_orientation (sy ?b) = i" by (simp add: board_ok_def)
  have same: "n' = ?n" if "d = ?b" using d(2) that put_self [of i ?n] by simp
  from m consider (g) dst where "m = grant_bytes dst cs"
    | (r) "m = component_byte RS_SYNC # sync_msg_bytes (TokenRequest (of_nat cs))" by blast
  then show thesis
  proof cases
    case g
    then have dst: "dst \<noteq> i"
      using other ori by (auto simp: grant_bytes_def grant_for_def simp del: sync_msg_bytes.simps)
    then have "d = ?b"
      using d(1) g ori
      by (simp add: grant_bytes_def sync_on_sibling_message_def sync_msg_consts sync_msg_of_bytes_def
          leader_on_token_grant_def follower_on_token_grant_def split: sync_impl.splits)
    then show thesis using foreign [OF cs g dst] same by blast
  next
    case r
    show thesis
    proof (cases "i = ORIENTATION_CENTER")
      case True
      with d(1) ok cs have "leader_request_critical_section cs (boards n ORIENTATION_CENTER) = Some d"
        by (simp add: r board_ok_def sync_on_sibling_message_def sync_msg_consts
            sync_msg_of_bytes_def leader_on_token_request_def)
      then show thesis using request [OF cs r True _ d(2)] by blast
    next
      case False
      then have "sync_impl (sy ?b) = FOLLOWER_IMPL" using ok by (cases "sync_impl (sy ?b)") (simp_all add: board_ok_def)
      then have "d = ?b" using d(1) by (simp add: r sync_on_sibling_message_def sync_msg_consts sync_msg_of_bytes_def)
      then show thesis using ignored [OF r False] same by blast
    qed
  qed
qed

lemma receive_in_flight: "fire (Receive i m) n = Some n' \<Longrightarrow> (i, m) \<in> set (flight n)"
  by (auto split: if_splits)

lemma inv_receive:
  assumes "node_inv n" "fire (Receive i m) n = Some n'"
  shows "node_inv n'"
proof -
  let ?n = "n\<lparr>flight := remove1 (i, m) (flight n)\<rparr>"
  note x = receive_in_flight [OF assms(2)]
  from assms show ?thesis
  proof (cases rule: receive_cases)
    case (foreign dst cs)
    then show ?thesis using inv_take [OF assms(1) x] by (simp add: grants_in_def grant_bytes_inject)
  next
    case (request cs d)
    have "node_inv ?n"
      using request(2) by (intro inv_take [OF assms(1) x]) (simp add: grants_in_def grant_bytes_def sync_msg_consts)
    from leader_request_inv [OF this request(1)] request(3-5) show ?thesis by simp
  next
    case (ignored cs)
    then show ?thesis
      using inv_take [OF assms(1) x] by (simp add: grants_in_def grant_bytes_def sync_msg_consts)
  qed
qed

lemma inv_enter:
  assumes "node_inv n" "fire (Enter i cs) n = Some n'"
  shows "node_inv n'"
proof -
  let ?x = "(i, grant_bytes i cs)"
  let ?n = "n\<lparr>flight := remove1 ?x (flight n), busy := (busy n)(i := Some cs)\<rparr>"
  from assms(2) obtain d where x: "?x \<in> set (flight n)" and idle: "busy n i = None" and cs: "cs < 7"
    and d: "enter_cs cs (boards n i) = Some d" "n' = put i d ?n"
    by (auto split: if_splits simp: bind_eq_Some_conv)
  have i: "i \<in> set all_boards" using in_flight_ok [OF assms(1) x] by (simp add: msg_ok_def)
  note inv = inv_boards [OF assms(1) i]
  from enter_effect [OF inv(1) cs] inv(2) idle d(1)
  have e: "board_ok i d" "leader_st (sy d) = leader_st (sy (boards n i))" "lk d = lk (boards n i)"
    "inside_ok d (Some cs)"
    by auto
  have "tokens n' k = tokens n k" if "k < 7" for k
    using tokens_take [OF x, of k] grants_in_single [OF cs that, of i] holders_set [OF i idle, of cs k]
    by (simp add: d(2) tokens_put e(3) tokens_def)
  then have "leader_inv n'"
    using leader_inv_cong [OF inv(4)] e(2) by (simp add: d(2))
  moreover have "boards_inv n'"
    using boards_inv_take [OF inv(3), of ?x] e(1,4) i cs unfolding d(2)
    by (auto simp: boards_inv_def e(3))
  ultimately show ?thesis by (simp add: node_inv_def)
qed

lemma next_board:
  "i \<in> set all_boards \<Longrightarrow> i \<noteq> ORIENTATION_CENTER \<Longrightarrow>
   next_device i = i + 1 \<and> next_device i \<in> set all_boards \<and> next_device i \<noteq> i"
  by (auto simp: next_device_def all_boards_def orientations)

text \<open>
  At the end of a critical section the leader takes the token back, and gives it out again when
  boards wait for it; a follower passes it on.
\<close>

lemma leader_leave_tokens:
  assumes inv: "node_inv n" and b: "busy n ORIENTATION_CENTER = Some cs" and cs: "cs < 7"
    and v: "leader_view (boards n ORIENTATION_CENTER) cs = (out, w)"
    and view: "leader_view d = (leader_view (boards n ORIENTATION_CENTER))(cs := if w > 0 then (True, w - 1) else (False, w))"
    and m: "bus_messages (lk (boards n ORIENTATION_CENTER)) (lk d) = (if w > 0 then [grant_bytes ORIENTATION_NORTH cs] else [])"
  shows "leader_inv (put ORIENTATION_CENTER d (n\<lparr>busy := (busy n)(ORIENTATION_CENTER := None)\<rparr>))"
    (is "leader_inv ?n'")
  unfolding leader_inv_def
proof (intro allI impI)
  let ?n = "n\<lparr>busy := (busy n)(ORIENTATION_CENTER := None)\<rparr>"
  fix k :: nat
  assume k: "k < 7"
  have T: "tokens n k = tokens ?n k + (if cs = k then 1 else 0)"
    using holders_clear [OF center_board b, of k] by (simp add: tokens_def)
  have "grants_in k (deliveries ORIENTATION_CENTER [grant_bytes ORIENTATION_NORTH cs]) = (if cs = k then 1 else 0)"
    using cs k by (intro grants_in_grant) (simp_all add: orientations all_boards_def)
  then have N: "tokens ?n' k = tokens ?n k + (if w > 0 \<and> cs = k then 1 else 0)"
    by (cases "cs = k") (simp_all add: tokens_put m)
  have L: "case leader_view (boards n ORIENTATION_CENTER) k of (out, w) \<Rightarrow>
      tokens n k = (if out then 1 else 0) \<and> (out \<or> w = 0)"
    using inv k by (simp add: node_inv_def leader_inv_def)
  show "case leader_view (boards ?n' ORIENTATION_CENTER) k of (out, w) \<Rightarrow>
      tokens ?n' k = (if out then 1 else 0) \<and> (out \<or> w = 0)"
  proof (cases "cs = k")
    case True
    with L T v show ?thesis by (auto simp: N view word_gt_0 split: if_splits)
  next
    case False
    with L T show ?thesis by (auto simp: N view)
  qed
qed

lemma inv_leave:
  assumes "node_inv n" "fire (Leave i) n = Some n'"
  shows "node_inv n'"
proof -
  let ?n = "n\<lparr>busy := (busy n)(i := None)\<rparr>"
  from assms(2) obtain cs d where b: "busy n i = Some cs"
    and d: "leave_cs cs (boards n i) = Some d" "n' = put i d ?n"
    by (auto split: option.splits simp: bind_eq_Some_conv)
  have i: "i \<in> set all_boards" and cs: "cs < 7"
    using assms(1) b unfolding node_inv_def boards_inv_def by blast+
  note inv = inv_boards [OF assms(1) i]
  have ins: "inside_ok (boards n i) (Some cs)" using inv(2) b by simp
  have B: "boards_inv n'" if "board_ok i d" "inside_ok d None"
    "\<And>m. m \<in> set (bus_messages (lk (boards n i)) (lk d)) \<Longrightarrow> \<exists>dst. m = grant_bytes dst cs"
    using inv(3) that i cs unfolding d(2)
    by (auto simp: boards_inv_def deliveries_def msg_ok_def list_all_iff)
  show ?thesis
  proof (cases "i = ORIENTATION_CENTER")
    case True
    obtain out w where v: "leader_view (boards n i) cs = (out, w)"
      by (cases "leader_view (boards n i) cs")
    from leader_leave_effect [OF _ cs ins] inv(1) v d(1) True
    have e: "board_ok i d" "inside_ok d None"
      and view: "leader_view d = (leader_view (boards n i))(cs := if w > 0 then (True, w - 1) else (False, w))"
      and m: "bus_messages (lk (boards n i)) (lk d) = (if w > 0 then [grant_bytes ORIENTATION_NORTH cs] else [])"
      by auto
    have "leader_inv n'"
      using leader_leave_tokens [OF assms(1) _ cs, of out w d] b v view m True by (simp add: d(2))
    moreover have "boards_inv n'" using e by (rule B) (auto simp: m split: if_splits)
    ultimately show ?thesis by (simp add: node_inv_def)
  next
    case False
    from follower_leave_effect [OF inv(1) False cs ins] d(1)
    have e: "board_ok i d" "inside_ok d None"
      and m: "bus_messages (lk (boards n i)) (lk d) = [grant_bytes (next_device i) cs]"
      by auto
    have nb: "next_device i \<in> set all_boards" "i \<noteq> next_device i"
      using next_board [OF i False] by auto
    have "tokens n' k = tokens n k" if "k < 7" for k
      using holders_clear [OF i b, of k] grants_in_grant [OF cs that i nb]
      by (cases "cs = k") (simp_all add: d(2) tokens_put m tokens_def)
    then have "leader_inv n'" using leader_inv_cong [OF inv(4)] False by (simp add: d(2))
    moreover have "boards_inv n'" using e by (rule B) (auto simp: m)
    ultimately show ?thesis by (simp add: node_inv_def)
  qed
qed

lemma inv_traffic:
  assumes "node_inv n" "fire (Traffic i l) n = Some n'"
  shows "node_inv n'"
proof -
  let ?d = "(boards n i)\<lparr>lk := other_traffic l (lk (boards n i))\<rparr>"
  have n': "n' = n\<lparr>boards := (boards n)(i := ?d)\<rparr>" "env (lk ?d) = env (lk (boards n i))"
    using assms(2) by (auto simp: other_traffic_def)
  have "board_ok j (boards n' j) \<and> inside_ok (boards n' j) (busy n j)" if "j \<in> set all_boards" for j
    using inv_boards(1,2) [OF assms(1) that] board_ok_frame [of j "boards n i" ?d] n'(2)
    by (cases "j = i") (simp_all add: n'(1) board_ok_def inside_ok_def)
  then have "boards_inv n'"
    using assms(1) by (simp add: node_inv_def boards_inv_def n'(1))
  moreover have "leader_inv n'"
    by (rule leader_inv_cong [of n]) (use assms(1) in \<open>simp_all add: node_inv_def n'(1) tokens_def\<close>)
  ultimately show ?thesis by (simp add: node_inv_def)
qed

lemma registered_sync:
  "sync_wf s \<Longrightarrow> (\<forall>k < 7. \<not> is_inside (critical_sections s ! k)) \<Longrightarrow>
   sync_wf (registered regs s) \<and> (\<forall>k < 7. \<not> is_inside (critical_sections (registered regs s) ! k)) \<and>
   sync_orientation (registered regs s) = sync_orientation s \<and>
   sync_impl (registered regs s) = sync_impl s \<and> leader_st (registered regs s) = leader_st s"
proof (induction regs arbitrary: s)
  case Nil
  then show ?case by (simp add: registered_def)
next
  case (Cons x regs)
  obtain c cb where x: "x = (c, cb)" by (cases x)
  let ?s = "sync_register_critical_section c cb s"
  have "sync_wf ?s" using Cons.prems(1) by (simp add: sync_wf_def sync_register_critical_section_def)
  moreover have "\<forall>k < 7. \<not> is_inside (critical_sections ?s ! k)"
    using Cons.prems component_num_less [of c] sync_wf_lengths [OF Cons.prems(1)]
    by (auto simp: sync_register_critical_section_def nth_list_update rs_consts)
  ultimately show ?case
    using Cons.IH [of ?s] x by (simp add: registered_def sync_register_critical_section_def)
qed

lemma inv_start:
  assumes "node_start reliable n"
  shows "node_inv n"
proof -
  have b: "board_ok i (boards n i) \<and> inside_ok (boards n i) None \<and>
      (\<forall>cs < 7. i = ORIENTATION_CENTER \<longrightarrow> leader_view (boards n i) cs = (False, 0))"
    if "i \<in> set all_boards" for i
  proof -
    from assms that obtain rs regs where s: "sy (boards n i) = registered regs (fst (snd (sync_init rs i)))"
      and r: "reliable (env (lk (boards n i)))"
      unfolding node_start_def by blast
    let ?s = "fst (snd (sync_init rs i))"
    have wf: "sync_wf ?s" and o: "\<forall>k < 7. \<not> is_inside (critical_sections ?s ! k)"
      "sync_orientation ?s = i" "sync_impl ?s = LEADER_IMPL \<longleftrightarrow> i = ORIENTATION_CENTER"
      "i = ORIENTATION_CENTER \<longrightarrow> first_device_to_get_token (leader_st ?s) = ORIENTATION_NORTH \<and>
         (\<forall>cs < 7. is_token_out (leader_st ?s) ! cs = False \<and> requested_tokens (leader_st ?s) ! cs = 0)"
      using sync_init_wf by (auto simp: sync_init_def sync_zero_def sync_leader_init_def
          sync_follower_init_def Let_def rs_consts)
    from registered_sync [OF wf o(1), of regs] show ?thesis
      using s r o by (auto simp: board_ok_def inside_ok_def leader_view_def)
  qed
  then have "boards_inv n"
    using assms by (auto simp: boards_inv_def node_start_def)
  moreover have "tokens n cs = 0" for cs
    using assms by (simp add: tokens_def node_start_def grants_in_def holders_def all_boards_def)
  then have "leader_inv n"
    using b [OF center_board] by (simp add: leader_inv_def)
  ultimately show ?thesis by (simp add: node_inv_def)
qed

lemma reachable_inv: "reachable reliable n \<Longrightarrow> node_inv n"
proof (induction rule: reachable.induct)
  case (step n e n')
  then show ?case
    by (cases e) (auto intro: inv_request inv_receive inv_enter inv_leave inv_traffic simp del: fire.simps)
qed (rule inv_start)

section \<open>How far the token has to go\<close>

text \<open>
  A grant on its way to board \<open>i\<close> is \<open>2 * (6 - i)\<close> steps from the end of its round, a board that
  handles it one step less, and every waiting request is a whole round of ten steps.
\<close>

definition flight_work :: "nat \<Rightarrow> delivery list \<Rightarrow> nat" where
  "flight_work cs ms = sum_list (map (\<lambda>(j, m). if m = grant_bytes j cs then 2 * (6 - unat j) else 0) ms)"

definition holder_work :: "node \<Rightarrow> nat \<Rightarrow> nat" where
  "holder_work n cs =
     sum_list (map (\<lambda>i. if busy n i = Some cs then 2 * (6 - unat i) - 1 else 0) all_boards)"

definition work :: "node \<Rightarrow> nat \<Rightarrow> nat" where
  "work n cs = 10 * unat (waiting n cs) + flight_work cs (flight n) + holder_work n cs"

definition moves :: "event \<Rightarrow> node \<Rightarrow> nat \<Rightarrow> bool" where
  "moves e n cs \<longleftrightarrow> (case e of Enter i k \<Rightarrow> k = cs | Leave i \<Rightarrow> busy n i = Some cs | _ \<Rightarrow> False)"

definition asks :: "event \<Rightarrow> nat \<Rightarrow> bool" where
  "asks e cs \<longleftrightarrow> (case e of
       Request i c \<Rightarrow> i = ORIENTATION_CENTER \<and> component_num c = cs
     | Receive i m \<Rightarrow> i = ORIENTATION_CENTER \<and>
         m = component_byte RS_SYNC # sync_msg_bytes (TokenRequest (of_nat cs))
     | _ \<Rightarrow> False)"

text \<open>What a request adds: a round, unless 255 requests wait already.\<close>

definition asked_work :: "node \<Rightarrow> nat \<Rightarrow> nat" where
  "asked_work n cs = (if token_is_out n cs \<and> \<not> waiting n cs < 255 then 0 else 10)"

lemma flight_work_append [simp]: "flight_work cs (ms @ ns) = flight_work cs ms + flight_work cs ns"
  by (simp add: flight_work_def)

lemma flight_work_nil [simp]: "flight_work cs (deliveries i []) = 0"
  by (simp add: deliveries_def flight_work_def)

lemma flight_work_remove1:
  "x \<in> set ms \<Longrightarrow> flight_work cs ms = flight_work cs (remove1 x ms) + flight_work cs [x]"
  by (induction ms) (auto simp: flight_work_def)

lemma flight_work_grant:
  "a < 7 \<Longrightarrow> b < 7 \<Longrightarrow> i \<in> set all_boards \<Longrightarrow> j \<in> set all_boards \<Longrightarrow> i \<noteq> j \<Longrightarrow>
   flight_work b (deliveries i [grant_bytes j a]) = (if a = b then 2 * (6 - unat j) else 0)"
  by (auto simp: deliveries_def flight_work_def grant_bytes_inject all_boards_def)

lemma flight_work_none: "grants_in cs ms = 0 \<Longrightarrow> flight_work cs ms = 0"
  by (induction ms) (auto simp: grants_in_def flight_work_def split: if_splits)

lemma flight_work_single:
  "a < 7 \<Longrightarrow> b < 7 \<Longrightarrow> flight_work b [(i, grant_bytes i a)] = (if a = b then 2 * (6 - unat i) else 0)"
  by (simp add: flight_work_def grant_bytes_inject)

lemma holder_work_set:
  "i \<in> set all_boards \<Longrightarrow> busy n i = None \<Longrightarrow>
   holder_work (n\<lparr>busy := (busy n)(i := Some a)\<rparr>) cs =
     holder_work n cs + (if a = cs then 2 * (6 - unat i) - 1 else 0)"
  by (auto simp: holder_work_def all_boards_def)

lemma holder_work_clear:
  "i \<in> set all_boards \<Longrightarrow> busy n i = Some a \<Longrightarrow>
   holder_work n cs = holder_work (n\<lparr>busy := (busy n)(i := None)\<rparr>) cs +
     (if a = cs then 2 * (6 - unat i) - 1 else 0)"
  by (auto simp: holder_work_def all_boards_def)

lemma holder_work_frame [simp]:
  "holder_work (put i d n) cs = holder_work n cs"
  "holder_work (n\<lparr>flight := f, busy := b\<rparr>) cs = holder_work (n\<lparr>busy := b\<rparr>) cs"
  "holder_work (n\<lparr>flight := f\<rparr>) cs = holder_work n cs"
  "holder_work (n\<lparr>boards := g\<rparr>) cs = holder_work n cs"
  by (simp_all add: holder_work_def put_def)

lemma work_put_same:
  assumes "leader_st (sy d) = leader_st (sy (boards n i))"
  shows "work (put i d n) cs =
    work n cs + flight_work cs (deliveries i (bus_messages (lk (boards n i)) (lk d)))"
  using assms by (auto simp: work_def)

lemma work_take:
  assumes "x \<in> set (flight n)"
  shows "work n cs = work (n\<lparr>flight := remove1 x (flight n)\<rparr>) cs + flight_work cs [x]"
  using flight_work_remove1 [OF assms, of cs] by (simp add: work_def)

lemma leader_request_work:
  assumes "node_inv n" "a < 7" "cs < 7"
    and "leader_request_critical_section a (boards n ORIENTATION_CENTER) = Some d"
  shows "work (put ORIENTATION_CENTER d n) cs = work n cs + (if a = cs then asked_work n cs else 0)"
proof -
  let ?c = "ORIENTATION_CENTER"
  note inv = inv_boards [OF assms(1) center_board]
  from leader_request_effect [OF inv(1) assms(2)] assms(4)
  have view: "leader_view d = (leader_view (boards n ?c))(a := (True,
        if token_is_out n a \<and> waiting n a < 255 then waiting n a + 1 else waiting n a))"
    and msgs: "bus_messages (lk (boards n ?c)) (lk d) =
        (if token_is_out n a then [] else [grant_bytes ORIENTATION_NORTH a])"
    by (simp_all add: leader_view_def)
  have w: "requested_tokens (leader_st (sy d)) ! cs = (if a = cs \<and> token_is_out n a \<and> waiting n a < 255
      then waiting n a + 1 else waiting n cs)"
    using arg_cong [OF view, of "\<lambda>f. snd (f cs)"] by (simp add: leader_view_def split: if_splits)
  have g: "flight_work cs (deliveries ?c [grant_bytes ORIENTATION_NORTH a]) = (if a = cs then 10 else 0)"
    using assms(2,3) flight_work_grant [of a cs ?c ORIENTATION_NORTH]
    by (simp add: orientations all_boards_def)
  show ?thesis
  proof (cases "token_is_out n a")
    case True
    have "unat (waiting n a + 1) = unat (waiting n a) + 1" if "waiting n a < 255"
      using that by (intro unat_inc_u8) (simp add: word_less_nat_alt)
    with True show ?thesis
      by (auto simp: work_def w msgs asked_work_def)
  next
    case False
    with g show ?thesis by (auto simp: work_def w msgs asked_work_def)
  qed
qed

lemma work_enter:
  assumes "node_inv n" "fire (Enter i a) n = Some n'" "cs < 7"
  shows "work n cs = work n' cs + (if a = cs then 1 else 0)"
proof -
  let ?x = "(i, grant_bytes i a)"
  let ?n = "n\<lparr>flight := remove1 ?x (flight n), busy := (busy n)(i := Some a)\<rparr>"
  from assms(2) obtain d where x: "?x \<in> set (flight n)" and idle: "busy n i = None" and a: "a < 7"
    and d: "enter_cs a (boards n i) = Some d" "n' = put i d ?n"
    by (auto split: if_splits simp: bind_eq_Some_conv)
  have i: "i \<in> set all_boards" using in_flight_ok [OF assms(1) x] by (simp add: msg_ok_def)
  note inv = inv_boards [OF assms(1) i]
  from enter_effect [OF inv(1) a] inv(2) idle d(1)
  have e: "leader_st (sy d) = leader_st (sy (boards n i))" "lk d = lk (boards n i)"
    by auto
  have "work n' cs = work ?n cs"
    using work_put_same [of d ?n i cs] e by (simp add: d(2))
  moreover have "2 * (6 - unat i) > 0" using i by (auto simp: all_boards_def)
  ultimately show ?thesis
    using flight_work_remove1 [OF x, of cs] flight_work_single [OF a assms(3), of i]
      holder_work_set [OF i idle, of a cs]
    by (cases "a = cs") (simp_all add: work_def)
qed

lemma leader_leave_work:
  assumes b: "busy n ORIENTATION_CENTER = Some a" and a: "a < 7" "cs < 7"
    and view: "leader_view d = (leader_view (boards n ORIENTATION_CENTER))(a :=
      if waiting n a > 0 then (True, waiting n a - 1) else (False, waiting n a))"
    and m: "bus_messages (lk (boards n ORIENTATION_CENTER)) (lk d) =
      (if waiting n a > 0 then [grant_bytes ORIENTATION_NORTH a] else [])"
  shows "work n cs = work (put ORIENTATION_CENTER d (n\<lparr>busy := (busy n)(ORIENTATION_CENTER := None)\<rparr>)) cs +
    (if a = cs then 1 else 0)"
proof -
  note H = holder_work_clear [OF center_board b, of cs]
  have w: "requested_tokens (leader_st (sy d)) ! cs =
      (if a = cs \<and> waiting n a > 0 then waiting n a - 1 else waiting n cs)"
    using arg_cong [OF view, of "\<lambda>f. snd (f cs)"] by (simp add: leader_view_def split: if_splits)
  have g: "flight_work cs (deliveries ORIENTATION_CENTER [grant_bytes ORIENTATION_NORTH a]) = (if a = cs then 10 else 0)"
    using a flight_work_grant [of a cs ORIENTATION_CENTER ORIENTATION_NORTH]
    by (simp add: orientations all_boards_def)
  have u: "unat (waiting n a - 1) = unat (waiting n a) - 1 \<and> unat (waiting n a) > 0" if "waiting n a > 0"
    using that unat_dec_u8 [of "waiting n a"] by (simp add: word_less_nat_alt)
  have five: "unat ORIENTATION_CENTER = 5" by (simp add: orientations)
  show ?thesis
  proof (cases "a = cs \<and> waiting n a > 0")
    case True
    with u H g five w m show ?thesis by (auto simp: work_def)
  next
    case False
    then have "flight_work cs (deliveries ORIENTATION_CENTER (bus_messages (lk (boards n ORIENTATION_CENTER)) (lk d))) = 0"
      using g m by auto
    with False H five w show ?thesis by (auto simp: work_def)
  qed
qed

lemma work_leave:
  assumes "node_inv n" "fire (Leave i) n = Some n'" "busy n i = Some a" "cs < 7"
  shows "work n cs = work n' cs + (if a = cs then 1 else 0)"
proof -
  let ?n = "n\<lparr>busy := (busy n)(i := None)\<rparr>"
  from assms(2,3) obtain d where d: "leave_cs a (boards n i) = Some d" "n' = put i d ?n"
    by (auto simp: bind_eq_Some_conv)
  have i: "i \<in> set all_boards" and a: "a < 7"
    using assms(1,3) unfolding node_inv_def boards_inv_def by blast+
  note inv = inv_boards [OF assms(1) i]
  have ins: "inside_ok (boards n i) (Some a)" using inv(2) assms(3) by simp
  show ?thesis
  proof (cases "i = ORIENTATION_CENTER")
    case True
    from leader_leave_effect [OF _ a ins] inv(1) d(1) True
    have "leader_view d = (leader_view (boards n i))(a :=
          if waiting n a > 0 then (True, waiting n a - 1) else (False, waiting n a))"
      and "bus_messages (lk (boards n i)) (lk d) =
          (if waiting n a > 0 then [grant_bytes ORIENTATION_NORTH a] else [])"
      by (auto simp: leader_view_def)
    then show ?thesis using leader_leave_work [OF _ a assms(4), of n d] assms(3) d(2) True by simp
  next
    case False
    from follower_leave_effect [OF inv(1) False a ins] d(1)
    have m: "bus_messages (lk (boards n i)) (lk d) = [grant_bytes (next_device i) a]"
      by auto
    have nb: "next_device i = i + 1" "next_device i \<in> set all_boards" "i \<noteq> next_device i"
      using next_board [OF i False] by auto
    have "2 * (6 - unat i) - 1 = Suc (2 * (6 - unat (next_device i)))"
      using i False unfolding nb(1) by (auto simp: all_boards_def orientations)
    moreover have "work n' cs = work ?n cs + flight_work cs (deliveries i [grant_bytes (next_device i) a])"
      using False by (simp add: work_def d(2) m)
    ultimately show ?thesis
      using holder_work_clear [OF i assms(3), of cs] flight_work_grant [OF a assms(4) i nb(2,3)]
      by (simp add: work_def)
  qed
qed

lemma work_request:
  assumes "node_inv n" "fire (Request i c) n = Some n'" "cs < 7"
  shows "work n' cs = work n cs + (if asks (Request i c) cs then asked_work n cs else 0)"
proof -
  from assms(2) obtain d where i: "i \<in> set all_boards"
    and d: "sync_request_critical_section c (boards n i) = Some d" "n' = put i d n"
    by (auto split: if_splits simp: bind_eq_Some_conv)
  note inv = inv_boards [OF assms(1) i]
  show ?thesis
  proof (cases "i = ORIENTATION_CENTER")
    case True
    then have "leader_request_critical_section (component_num c) (boards n ORIENTATION_CENTER) = Some d"
      using d inv(1) by (simp add: sync_request_critical_section_def board_ok_def)
    with leader_request_work [OF assms(1) _ assms(3)] True d(2) component_num_less [of c] show ?thesis
      by (simp add: rs_consts asks_def)
  next
    case False
    from follower_request_effect [OF inv(1) False, of c] d(1)
    have e: "sy d = sy (boards n i)" and m: "bus_messages (lk (boards n i)) (lk d) =
        [component_byte RS_SYNC # sync_msg_bytes (TokenRequest (component_byte c))]"
      by simp_all
    from e False show ?thesis
      unfolding d(2) by (simp add: work_put_same m asks_def flight_work_none
          grants_in_request [unfolded sync_msg_bytes.simps])
  qed
qed

lemma work_receive:
  assumes "node_inv n" "fire (Receive i m) n = Some n'" "cs < 7"
  shows "work n' cs = work n cs + (if asks (Receive i m) cs then asked_work n cs else 0)"
proof -
  let ?n = "n\<lparr>flight := remove1 (i, m) (flight n)\<rparr>"
  note x = receive_in_flight [OF assms(2)]
  have taken: "work n cs = work ?n cs" if "grants_in cs [(i, m)] = 0"
    using work_take [OF x, of cs] flight_work_none [OF that] by simp
  from assms(1,2) show ?thesis
  proof (cases rule: receive_cases)
    case (foreign dst a)
    then have "grants_in cs [(i, m)] = 0" using assms(3) by (simp add: grants_in_def grant_bytes_inject)
    moreover have "\<not> asks (Receive i m) cs" using foreign(2) by (simp add: asks_def grant_bytes_def sync_msg_consts)
    ultimately show ?thesis using taken foreign(4) by simp
  next
    case (request a d)
    have none: "grants_in k [(i, m)] = 0" for k
      using request(2) by (simp add: grants_in_def grant_bytes_def sync_msg_consts)
    have n: "node_inv ?n" by (intro inv_take [OF assms(1) x] none)
    have "leader_request_critical_section a (boards ?n ORIENTATION_CENTER) = Some d" using request(4) by simp
    from leader_request_work [OF n request(1) assms(3) this] request(3,5) taken [OF none] show ?thesis
      using cs_byte_eq [OF request(1) assms(3)] by (simp add: asks_def request(2) asked_work_def)
  next
    case (ignored a)
    then show ?thesis
      using taken by (simp add: asks_def grants_in_def grant_bytes_def sync_msg_consts)
  qed
qed

lemma work_traffic: "fire (Traffic i l) n = Some n' \<Longrightarrow> work n' cs = work n cs"
  by (auto simp: work_def split: if_splits)

lemma holder_bound:
  assumes "holders n cs \<le> 1" "i \<in> set all_boards" "j \<in> set all_boards"
    "busy n i = Some cs" "busy n j = Some cs"
  shows "i = j"
proof (rule ccontr)
  assume "i \<noteq> j"
  let ?f = "filter (\<lambda>i. busy n i = Some cs) all_boards"
  have "distinct ?f" by (simp add: all_boards_def)
  moreover have "{i, j} \<subseteq> set ?f" using assms by auto
  ultimately have "card {i, j} \<le> length ?f"
    by (metis card_mono distinct_card finite_set)
  with \<open>i \<noteq> j\<close> assms(1) show False by (simp add: holders_def)
qed

lemma tokens_cases:
  assumes "node_inv n" "cs < 7"
  shows "tokens n cs = (if token_is_out n cs then 1 else 0)" "token_is_out n cs \<or> waiting n cs = 0"
  using assms by (simp_all add: node_inv_def leader_inv_def leader_view_def)

lemma grant_found: "grants_in cs ms > 0 \<Longrightarrow> \<exists>j. (j, grant_bytes j cs) \<in> set ms"
  by (induction ms) (auto simp: grants_in_def split: if_splits)

lemma work_positive:
  assumes "node_inv n" "cs < 7"
  shows "work n cs = 0 \<longleftrightarrow> \<not> token_is_out n cs"
proof (cases "token_is_out n cs")
  case False
  then have "grants_in cs (flight n) = 0" "holders n cs = 0" "waiting n cs = 0"
    using tokens_cases [OF assms] by (auto simp: tokens_def)
  moreover from this(2) have "holder_work n cs = 0"
    by (auto simp: holders_def holder_work_def all_boards_def split: if_splits)
  ultimately show ?thesis using False by (simp add: work_def flight_work_none)
next
  case True
  then have "grants_in cs (flight n) > 0 \<or> holders n cs > 0"
    using tokens_cases [OF assms] by (auto simp: tokens_def)
  then have "work n cs > 0"
  proof
    assume "grants_in cs (flight n) > 0"
    then obtain j where j: "(j, grant_bytes j cs) \<in> set (flight n)"
      using grant_found by blast
    then have "j \<in> set all_boards" using in_flight_ok [OF assms(1)] by (fastforce simp: msg_ok_def)
    then have "flight_work cs [(j, grant_bytes j cs)] > 0"
      using assms(2) by (auto simp: flight_work_single all_boards_def)
    then show ?thesis using flight_work_remove1 [OF j, of cs] by (simp add: work_def)
  next
    assume "holders n cs > 0"
    then have "holder_work n cs > 0"
      by (auto simp: holders_def holder_work_def all_boards_def split: if_splits)
    then show ?thesis by (simp add: work_def)
  qed
  with True show ?thesis by simp
qed

lemma token_enabled:
  assumes "node_inv n" "cs < 7" "token_is_out n cs"
  shows "\<exists>i. fire (Enter i cs) n \<noteq> None \<or> fire (Leave i) n \<noteq> None"
proof (cases "\<exists>i a. busy n i = Some a")
  case True
  then obtain i a where b: "busy n i = Some a" by blast
  then have i: "i \<in> set all_boards" and a: "a < 7"
    using assms(1) unfolding node_inv_def boards_inv_def by blast+
  note inv = inv_boards [OF assms(1) i]
  have "\<exists>d. leave_cs a (boards n i) = Some d"
    using leader_leave_effect [of "boards n i" a] follower_leave_effect [of i "boards n i" a] inv(1,2) a b
    by (cases "i = ORIENTATION_CENTER") auto
  with b show ?thesis by (intro exI [of _ i]) auto
next
  case False
  then have idle: "busy n i = None" for i by (cases "busy n i") auto
  then have "grants_in cs (flight n) = 1"
    using tokens_cases [OF assms(1,2)] assms(3) by (simp add: tokens_def holders_def)
  then obtain j where j: "(j, grant_bytes j cs) \<in> set (flight n)"
    using grant_found [of cs "flight n"] by auto
  then have "j \<in> set all_boards" using in_flight_ok [OF assms(1)] by (fastforce simp: msg_ok_def)
  from enter_effect [OF inv_boards(1) [OF assms(1) this] assms(2)] inv_boards(2) [OF assms(1) this] idle
  obtain d where "enter_cs cs (boards n j) = Some d" by auto
  with j idle assms(2) show ?thesis by (intro exI [of _ j]) auto
qed

section \<open>A board that does not take part\<close>

fun actor :: "event \<Rightarrow> u8" where
  "actor (Request i c) = i"
| "actor (Receive i m) = i"
| "actor (Enter i cs) = i"
| "actor (Leave i) = i"
| "actor (Traffic i l) = i"

inductive runs_without :: "u8 \<Rightarrow> node \<Rightarrow> node \<Rightarrow> bool" for j where
  refl: "runs_without j n n"
| step: "runs_without j n n' \<Longrightarrow> actor e \<noteq> j \<Longrightarrow> fire e n' = Some n'' \<Longrightarrow> runs_without j n n''"

lemma fire_keeps_delivery:
  "fire e n = Some n' \<Longrightarrow> actor e \<noteq> j \<Longrightarrow> (j, m) \<in> set (flight n) \<Longrightarrow> (j, m) \<in> set (flight n')"
  by (cases e) (auto simp: bind_eq_Some_conv split: if_splits option.splits)

lemma step_inv: "node_inv n \<Longrightarrow> fire e n = Some n' \<Longrightarrow> node_inv n'"
  by (cases e) (auto intro: inv_request inv_receive inv_enter inv_leave inv_traffic simp del: fire.simps)

lemma runs_without_keeps:
  "runs_without j n n' \<Longrightarrow> node_inv n \<Longrightarrow> (j, m) \<in> set (flight n) \<Longrightarrow>
   node_inv n' \<and> (j, m) \<in> set (flight n')"
  by (induction rule: runs_without.induct) (blast intro: step_inv fire_keeps_delivery)+

section \<open>Concrete runs\<close>

fun fires :: "event list \<Rightarrow> node \<Rightarrow> node option" where
  "fires [] n = Some n"
| "fires (e # es) n = do { n1 \<leftarrow> fire e n; fires es n1 }"

lemma reachable_fires: "fires es n = Some n' \<Longrightarrow> reachable ok n \<Longrightarrow> reachable ok n'"
  by (induction es arbitrary: n) (auto simp: bind_eq_Some_conv intro: reachable.step)

text \<open>A node whose boards all registered the routing callback, with the given environments.\<close>

definition routing_node :: "(u8 \<Rightarrow> environment) \<Rightarrow> node" where
  "routing_node e = \<lparr>boards = (\<lambda>i. \<lparr>lk = link_init (e i) (s_config_init\<lparr>cfg_id := i\<rparr>),
       sy = sync_register_critical_section RS_ROUTING (Some RoutingOnCriticalSection)
              (fst (snd (sync_init ring_share_zero i)))\<rparr>),
     busy = (\<lambda>_. None), flight = []\<rparr>"

lemma routing_node_start: "(\<And>i. ok (e i)) \<Longrightarrow> node_start ok (routing_node e)"
  unfolding node_start_def routing_node_def
  by (auto intro!: exI [of _ ring_share_zero] exI [of _ "[(RS_ROUTING, Some RoutingOnCriticalSection)]"]
      simp: registered_def)

lemma reliable_quiet: "reliable quiet_env"
  by (simp add: reliable_def quiet_env_def ring_link_netif_mtu_def)

definition quiet_node :: node where "quiet_node = routing_node (\<lambda>_. quiet_env)"

lemma reachable_quiet: "reachable reliable quiet_node"
  unfolding quiet_node_def by (intro reachable.start routing_node_start reliable_quiet)

text \<open>A request of the center, after which board 1 is in the critical section.\<close>

definition entered_node :: node where
  "entered_node = the (fires [Request 5 RS_ROUTING, Enter 1 1] quiet_node)"

lemma entered_fires: "fires [Request 5 RS_ROUTING, Enter 1 1] quiet_node = Some entered_node"
proof -
  have "fires [Request 5 RS_ROUTING, Enter 1 1] quiet_node \<noteq> None"
    unfolding quiet_node_def by code_simp
  then show ?thesis unfolding entered_node_def by (metis option.collapse)
qed

lemma entered_facts: "is_inside (critical_sections (sy (boards entered_node 1)) ! 1)"
  "token_is_out entered_node 1" "busy entered_node 1 = Some 1" "fire (Leave 1) entered_node \<noteq> None"
  unfolding entered_node_def quiet_node_def by code_simp+

lemma reachable_entered: "reachable reliable entered_node"
  by (rule reachable_fires [OF entered_fires reachable_quiet])

section \<open>One late notice\<close>

text \<open>
  The bus takes every frame, but the notice that the next frame of the link came round, which is
  waited for at the third answer from now, is late; every other answer is as it was.
\<close>

definition late_once :: "link \<Rightarrow> link" where
  "late_once l = l\<lparr>env := (env l)\<lparr>env_notify := (env_notify (env l))(now l + 3 := 0)\<rparr>\<rparr>"

definition late_notice :: "u8 \<Rightarrow> node \<Rightarrow> node" where
  "late_notice i n = n\<lparr>boards := (boards n)(i := (boards n i)\<lparr>lk := late_once (lk (boards n i))\<rparr>)\<rparr>"

lemma bus_messages_trans:
  assumes "link_step l l1" "link_step l1 l2"
  shows "bus_messages l l2 = bus_messages l l1 @ bus_messages l1 l2"
  by (simp add: bus_messages_def new_effects_trans [OF assms] sent_frames_append)

text \<open>An attempt puts the message on the bus, whether or not its notice comes in time.\<close>

lemma attempt_on_bus:
  assumes "\<forall>k. env_bcast_sem (env l) k \<and> env_tx_sem (env l) k \<and> env_spi_tx (env l) k = ESP_OK"
    and "length msg \<le> ring_link_netif_mtu (env l)" "length msg < 2 ^ 16"
  shows "\<exists>l'. broadcast_to_siblings msg l = (env_notify (env l) (now l + 3) = 1, l') \<and> link_step l l' \<and>
    bus_messages l l' = [msg] \<and> now l' = now l + 4"
proof -
  have "take (unat (of_nat (length msg) :: u16)) (fill_buffer (env l) msg) = msg"
    using assms(2,3) by (rule fill_buffer_take)
  with assms(1,2) show ?thesis
    by (simp add: broadcast_to_siblings_def send_broadcast_def Let_def
        ring_link_lowlevel_transmit_payload_def spi_transmit_def link_step_def bus_messages_def
        new_effects_def frame_message_def numeral_3_eq_3 numeral_eq_Suc)
qed

lemma late_broadcast:
  assumes "reliable (env l)" "length msg \<le> 3"
  shows "\<exists>l'. rs_broadcast c msg (late_once l) = (True, l') \<and> link_step (late_once l) l' \<and>
    bus_messages (late_once l) l' = [component_byte c # msg, component_byte c # msg]"
proof -
  let ?m = "component_byte c # msg" and ?l = "late_once l"
  have e: "\<forall>k. env_bcast_sem (env ?l) k \<and> env_tx_sem (env ?l) k \<and> env_spi_tx (env ?l) k = ESP_OK"
    "length ?m \<le> ring_link_netif_mtu (env ?l)" "length ?m < 2 ^ 16"
    using assms by (simp_all add: late_once_def reliable_def ring_link_netif_mtu_def)
  obtain l1 where l1: "broadcast_to_siblings ?m ?l = (False, l1)" "link_step ?l l1"
    "bus_messages ?l l1 = [?m]" "now l1 = now l + 4"
    using attempt_on_bus [OF e] by (auto simp: late_once_def)
  define l2 where "l2 = vTaskDelay_ms RETRY_DELAY_MS l1"
  have l2: "link_step l1 l2" "bus_messages l1 l2 = []" "env l2 = env ?l" "now l2 = now l + 4"
    using l1(2,4) by (simp_all add: l2_def vTaskDelay_ms_def link_step_def bus_messages_def new_effects_def)
  obtain l3 where l3: "broadcast_to_siblings ?m l2 = (True, l3)" "link_step l2 l3" "bus_messages l2 l3 = [?m]"
    using attempt_on_bus [of l2 ?m] e assms(1) unfolding l2(3,4) by (auto simp: late_once_def reliable_def)
  have "retry (Suc (Suc 3)) (broadcast_to_siblings ?m) ?l = (True, l3)"
    unfolding retry.simps using l1(1) l3(1) by (simp add: l2_def del: retry.simps)
  moreover have "MAX_RETRIES = Suc (Suc 3)" by (simp add: rs_consts)
  ultimately have "rs_broadcast c msg ?l = (True, l3)"
    using assms(2) by (simp only: rs_broadcast_def sb_broadcast_to_siblings_def node_broadcast_to_siblings_def)
      (simp add: rs_consts(1))
  moreover have "link_step ?l l3" using link_step_trans [OF link_step_trans [OF l1(2) l2(1)] l3(2)] .
  moreover have "bus_messages ?l l3 = [?m, ?m]"
    using bus_messages_trans [OF link_step_trans [OF l1(2) l2(1)] l3(2)] bus_messages_trans [OF l1(2) l2(1)] l1(3) l2(2) l3(3)
    by simp
  ultimately show ?thesis by blast
qed

text \<open>A follower that leaves its critical section then grants the token twice.\<close>

lemma late_leave_effect:
  assumes "board_ok i d" "i \<noteq> ORIENTATION_CENTER" "cs < 7" "inside_ok d (Some cs)"
  shows "\<exists>d'. leave_cs cs (d\<lparr>lk := late_once (lk d)\<rparr>) = Some d' \<and>
    bus_messages (late_once (lk d)) (lk d') = [grant_bytes (next_device i) cs, grant_bytes (next_device i) cs]"
proof -
  let ?l = "late_once (lk d)"
  obtain d1 where d1: "(if cs_function (critical_sections (sy d) ! cs) = None then Some d
      else set_inside cs False d) = Some d1" "board_ok i d1" "lk d1 = lk d" "inside_ok d1 None"
    using callback_returns [OF assms(1,3,4)] by blast
  have late: "(if cs_function (critical_sections (sy d) ! cs) = None then Some (d\<lparr>lk := ?l\<rparr>)
      else set_inside cs False (d\<lparr>lk := ?l\<rparr>)) = Some (d1\<lparr>lk := ?l\<rparr>)"
    using d1(1) by (auto simp: set_inside_def split: if_splits Option.bind_splits)
  let ?m = "sync_msg_bytes (TokenGrant (next_device i) (of_nat cs))"
  obtain l' where l': "rs_broadcast RS_SYNC ?m ?l = (True, l')"
    "bus_messages ?l l' = [grant_bytes (next_device i) cs, grant_bytes (next_device i) cs]"
    using late_broadcast [of "lk d" ?m RS_SYNC] assms(1) unfolding grant_bytes_def by (auto simp: board_ok_def)
  have impl: "sync_impl (sy d) = FOLLOWER_IMPL"
    using assms(1,2) by (cases "sync_impl (sy d)") (simp_all add: board_ok_def)
  have ori: "sync_orientation (sy d1) = i" "cs < length (critical_sections (sy d))"
    using assms(1,3) d1(2) by (simp_all add: board_ok_def sync_wf_lengths)
  have "leave_cs cs (d\<lparr>lk := ?l\<rparr>) = Some (d1\<lparr>lk := l'\<rparr>)"
    using late l'(1) impl ori by (simp add: leave_cs_def follower_pass_token_def sync_broadcast_def board_broadcast_def
        del: sync_msg_bytes.simps)
  then show ?thesis using l'(2) by (intro exI [of _ "d1\<lparr>lk := l'\<rparr>"]) simp
qed

lemma callbacks_kept:
  "enter_cs cs d = Some d' \<Longrightarrow> map cs_function (critical_sections (sy d')) = map cs_function (critical_sections (sy d))"
  "leave_cs cs d = Some d' \<Longrightarrow> sync_impl (sy d) = FOLLOWER_IMPL \<Longrightarrow>
   map cs_function (critical_sections (sy d')) = map cs_function (critical_sections (sy d))"
  by (auto simp: enter_cs_def leave_cs_def set_inside_def aset_def aget_def follower_pass_token_def map_update
      list_update_same_conv split: if_splits Option.bind_splits)

lemma doubled_delivery:
  assumes "j \<in> set all_boards" "j \<noteq> i"
  shows "(j, m) \<in> set (f @ deliveries i [m, m])" "(j, m) \<in> set (remove1 (j, m) (f @ deliveries i [m, m]))"
proof -
  have d: "(j, m) \<in> set (deliveries i [m])" "deliveries i [m, m] = deliveries i [m] @ deliveries i [m]"
    using assms by (auto simp: deliveries_def)
  then show "(j, m) \<in> set (f @ deliveries i [m, m])" "(j, m) \<in> set (remove1 (j, m) (f @ deliveries i [m, m]))"
    by (auto simp: remove1_append)
qed

section \<open>Properties\<close>

text \<open>
  Property C1 (sync, mutual exclusion): on a bus that takes every frame and brings every notice
  in time, two boards of a node are never inside the same critical section at once, and a board
  that is inside is the one that handles the grant.
\<close>

theorem sync_mutual_exclusion:
  assumes "reachable reliable n" "cs < 7" "i \<in> set all_boards" "j \<in> set all_boards"
    and "is_inside (critical_sections (sy (boards n i)) ! cs)"
    and "is_inside (critical_sections (sy (boards n j)) ! cs)"
  shows "i = j \<and> busy n i = Some cs \<and> token_is_out n cs"
proof -
  note N = reachable_inv [OF assms(1)]
  have b: "busy n i = Some cs" "busy n j = Some cs"
    using inv_boards(2) [OF N assms(3)] inv_boards(2) [OF N assms(4)] assms(2,5,6)
    by (auto simp: inside_ok_def)
  have h: "holders n cs \<le> 1" using tokens_cases [OF N assms(2)] by (auto simp: tokens_def split: if_splits)
  have "holders n cs > 0" using b(1) assms(3) by (auto simp: holders_def filter_empty_conv)
  then have "token_is_out n cs"
    using tokens_cases [OF N assms(2)] by (auto simp: tokens_def split: if_splits)
  with holder_bound [OF h assms(3,4) b] b show ?thesis by simp
qed

theorem sync_mutual_exclusion_witness:
  "\<not> is_inside (critical_sections (sy (boards entered_node 2)) ! 1)"
  using sync_mutual_exclusion [OF reachable_entered, of 1 1 2] entered_facts(1)
  by (auto simp: all_boards_def)

text \<open>
  Property C14 (sync, tokens): on such a bus there is, for each critical section, exactly one token,
  as a grant on its way to its destination or with the board that handles it, while the leader
  has a token out, and none otherwise; requests wait only while a token is out.
\<close>

theorem sync_one_token:
  assumes "reachable reliable n" "cs < 7"
  shows "grants_in cs (flight n) + holders n cs = (if token_is_out n cs then 1 else 0) \<and>
    (token_is_out n cs \<or> waiting n cs = 0)"
  using tokens_cases [OF reachable_inv [OF assms(1)] assms(2)] by (simp add: tokens_def)

theorem sync_one_token_witness:
  "grants_in 1 (flight entered_node) + holders entered_node 1 = 1"
  using sync_one_token [OF reachable_entered, of 1] entered_facts(2) by simp

text \<open>
  Property C6 (sync, every request is served): \<open>work\<close> bounds what is left to do for a critical
  section. It is 0 exactly when no token is out; every entry into or exit from the section takes
  one step off it; a request that reaches the leader adds a round of ten steps, five boards
  entering and leaving, unless 255 requests wait; nothing else changes it. While a token is out
  some board can enter it or leave a section.
\<close>

theorem sync_progress:
  assumes "reachable reliable n" "cs < 7" "fire e n = Some n'"
  shows "(work n cs = 0 \<longleftrightarrow> \<not> token_is_out n cs) \<and>
    (token_is_out n cs \<longrightarrow> (\<exists>i. fire (Enter i cs) n \<noteq> None \<or> fire (Leave i) n \<noteq> None)) \<and>
    (if moves e n cs then work n cs = work n' cs + 1
     else work n' cs = work n cs + (if asks e cs then asked_work n cs else 0))"
proof -
  note N = reachable_inv [OF assms(1)]
  have "if moves e n cs then work n cs = work n' cs + 1
     else work n' cs = work n cs + (if asks e cs then asked_work n cs else 0)"
  proof (cases e)
    case (Request i c)
    then show ?thesis using work_request [OF N, of i c n' cs] assms(2,3)
      by (simp add: moves_def del: fire.simps)
  next
    case (Receive i m)
    then show ?thesis using work_receive [OF N, of i m n' cs] assms(2,3)
      by (simp add: moves_def del: fire.simps)
  next
    case (Enter i a)
    then show ?thesis using work_enter [OF N, of i a n' cs] assms(2,3)
      by (auto simp: moves_def asks_def simp del: fire.simps)
  next
    case (Leave i)
    then obtain a where "busy n i = Some a" using assms(3) by (auto split: option.splits)
    then show ?thesis using work_leave [OF N, of i n' a cs] assms(2,3) Leave
      by (auto simp: moves_def asks_def simp del: fire.simps)
  next
    case (Traffic i l)
    then show ?thesis using work_traffic [of i l n n' cs] assms(3)
      by (simp add: moves_def asks_def del: fire.simps)
  qed
  then show ?thesis using work_positive [OF N assms(2)] token_enabled [OF N assms(2)] by blast
qed

theorem sync_progress_witness:
  "\<exists>n'. fire (Leave 1) entered_node = Some n' \<and> work entered_node 1 = work n' 1 + 1"
proof -
  obtain n' where n': "fire (Leave 1) entered_node = Some n'" using entered_facts(4) by blast
  have "moves (Leave 1) entered_node 1" using entered_facts(3) by (simp add: moves_def)
  with sync_progress [OF reachable_entered _ n', of 1] n' show ?thesis
    by (intro exI [of _ n']) simp
qed

text \<open>
  Property C30 (sync, missing board): the token visits all five orientations. When the board of
  one of them is off, a token that is granted to it is never seen again: whatever the other
  boards do, none of them enters the critical section, and the leader holds on to its requests.
\<close>

theorem sync_missing_board_blocks:
  assumes "reachable reliable n" "cs < 7" "(j, grant_bytes j cs) \<in> set (flight n)"
    and "runs_without j n n'"
  shows "(j, grant_bytes j cs) \<in> set (flight n') \<and> token_is_out n' cs \<and>
    (\<forall>i. i \<noteq> j \<longrightarrow> fire (Enter i cs) n' = None \<and> busy n' i \<noteq> Some cs)"
proof -
  have N: "node_inv n'" and f: "(j, grant_bytes j cs) \<in> set (flight n')"
    using runs_without_keeps [OF assms(4) reachable_inv [OF assms(1)] assms(3)] by auto
  have j: "grants_in cs [(j, grant_bytes j cs)] = 1"
    using assms(2) by (simp add: grants_in_single)
  have one: "grants_in cs (remove1 (j, grant_bytes j cs) (flight n')) = 0" "holders n' cs = 0" "token_is_out n' cs"
    using tokens_cases [OF N assms(2)] grants_in_remove1 [OF f, of cs] j
    by (auto simp: tokens_def split: if_splits)
  have "fire (Enter i cs) n' = None \<and> busy n' i \<noteq> Some cs" if "i \<noteq> j" for i
  proof -
    have "(i, grant_bytes i cs) \<notin> set (flight n')"
    proof
      assume "(i, grant_bytes i cs) \<in> set (flight n')"
      then have "(i, grant_bytes i cs) \<in> set (remove1 (j, grant_bytes j cs) (flight n'))"
        using that by (simp add: in_set_remove1)
      from grants_in_remove1 [OF this, of cs] one(1) show False
        using assms(2) by (simp add: grants_in_single)
    qed
    moreover have "busy n' i \<noteq> Some cs"
    proof
      assume b: "busy n' i = Some cs"
      then have "i \<in> set all_boards" using N unfolding node_inv_def boards_inv_def by blast
      with b one(2) show False by (auto simp: holders_def filter_empty_conv)
    qed
    ultimately show ?thesis by simp
  qed
  with f one(3) show ?thesis by blast
qed

theorem sync_missing_board_blocks_witness:
  "\<exists>n. fires [Request 5 RS_ROUTING] quiet_node = Some n \<and> fire (Enter 2 1) n = None"
proof -
  have "case fires [Request 5 RS_ROUTING] quiet_node of None \<Rightarrow> False
    | Some n \<Rightarrow> (1, grant_bytes 1 1) \<in> set (flight n)"
    unfolding quiet_node_def by code_simp
  then obtain n where n: "fires [Request 5 RS_ROUTING] quiet_node = Some n"
    "(1, grant_bytes 1 1) \<in> set (flight n)"
    by (auto split: option.splits)
  from sync_missing_board_blocks [OF reachable_fires [OF n(1) reachable_quiet] _ n(2) runs_without.refl] n(1)
  show ?thesis by auto
qed

text \<open>
  Property C29 (sync, repeated grants): in whatever state a node has come to on a bus that takes every frame
  and brings every notice in time, one late notice is enough to break the lock. When the notice of
  the grant is late with which one of the first three outer boards leaves its critical section, and
  every frame and every other notice comes as before, the board sends the grant again: the next
  board has the token twice, enters, leaves and enters again, and the board behind it enters
  meanwhile. The two boards must have registered the section and not be handling a grant.
\<close>

theorem sync_late_notice_breaks_exclusion:
  assumes "reachable reliable n" "i \<in> {1, 2, 3}" "busy n i = Some cs" "busy n (i + 1) = None" "busy n (i + 2) = None"
    and "cs_function (critical_sections (sy (boards n (i + 1))) ! cs) \<noteq> None"
    and "cs_function (critical_sections (sy (boards n (i + 2))) ! cs) \<noteq> None"
  shows "\<exists>n'. fires [Leave i, Enter (i + 1) cs, Leave (i + 1), Enter (i + 1) cs, Enter (i + 2) cs] (late_notice i n) = Some n' \<and>
    is_inside (critical_sections (sy (boards n' (i + 1))) ! cs) \<and>
    is_inside (critical_sections (sy (boards n' (i + 2))) ! cs) \<and> 2 \<le> holders n' cs"
proof -
  let ?j = "i + 1" and ?k = "i + 2"
  have N: "node_inv n" by (rule reachable_inv [OF assms(1)])
  have cs: "cs < 7" using N assms(3) by (simp add: node_inv_def boards_inv_def)
  have B: "board_ok b (boards n b) \<and> inside_ok (boards n b) (busy n b)" if "b \<in> set all_boards" for b
    using N that by (simp add: node_inv_def boards_inv_def)
  have ijk: "i \<in> set all_boards" "?j \<in> set all_boards" "?k \<in> set all_boards" "i \<noteq> ?j" "i \<noteq> ?k" "?j \<noteq> ?k"
    "i \<noteq> ORIENTATION_CENTER" "?j \<noteq> ORIENTATION_CENTER" "next_device i = ?j" "next_device ?j = ?k"
    using assms(2) by (auto simp: all_boards_def orientations next_device_def)
  have nil: "deliveries x [] = []" for x by (simp add: deliveries_def)
  define g where "g = grant_bytes ?j cs"
  define h where "h = grant_bytes ?k cs"
  obtain di where di: "leave_cs cs ((boards n i)\<lparr>lk := late_once (lk (boards n i))\<rparr>) = Some di"
    "bus_messages (late_once (lk (boards n i))) (lk di) = [g, g]"
    using late_leave_effect [of i "boards n i" cs] B [OF ijk(1)] ijk(7,9) cs assms(3) by (auto simp: g_def)
  define f1 where "f1 = flight n @ deliveries i [g, g]"
  define n1 where "n1 = put i di ((late_notice i n)\<lparr>busy := (busy n)(i := None)\<rparr>)"
  have n1: "fire (Leave i) (late_notice i n) = Some n1" "flight n1 = f1" "busy n1 = (busy n)(i := None)"
    "boards n1 ?j = boards n ?j" "boards n1 ?k = boards n ?k"
    using di ijk assms(3) by (simp_all add: n1_def f1_def late_notice_def)
  have in1: "(?j, g) \<in> set f1" "(?j, g) \<in> set (remove1 (?j, g) f1)"
    unfolding f1_def by (rule doubled_delivery; use ijk in simp)+
  obtain dj where dj: "enter_cs cs (boards n ?j) = Some dj" "board_ok ?j dj" "lk dj = lk (boards n ?j)" "inside_ok dj (Some cs)"
    using enter_effect [of ?j "boards n ?j" cs] B [OF ijk(2)] cs assms(4) by auto
  have callback: "cs_function (critical_sections (sy d') ! cs) \<noteq> None"
    if "map cs_function (critical_sections (sy d')) = map cs_function (critical_sections (sy (boards n ?j)))" "sync_wf (sy d')" for d'
    using arg_cong [OF that(1), of "\<lambda>xs. xs ! cs"] that(2) B [OF ijk(2)] cs assms(6)
    by (simp add: board_ok_def sync_wf_lengths)
  define f2 where "f2 = remove1 (?j, g) f1"
  define n2 where "n2 = put ?j dj (n1\<lparr>flight := f2, busy := (busy n1)(?j := Some cs)\<rparr>)"
  have n2: "fire (Enter ?j cs) n1 = Some n2" "flight n2 = f2" "busy n2 = (busy n)(i := None, ?j := Some cs)"
    "boards n2 ?j = dj" "boards n2 ?k = boards n ?k"
    using dj n1 in1 ijk cs assms(4) by (simp_all add: n2_def f2_def g_def nil)
  obtain dl where dl: "leave_cs cs dj = Some dl" "board_ok ?j dl" "inside_ok dl None" "bus_messages (lk dj) (lk dl) = [h]"
    using follower_leave_effect [OF dj(2) ijk(8) cs dj(4)] ijk(10) by (auto simp: h_def)
  have "sync_impl (sy dj) = FOLLOWER_IMPL" using dj(2) ijk(8) by (cases "sync_impl (sy dj)") (simp_all add: board_ok_def)
  then have kept: "cs_function (critical_sections (sy dl) ! cs) \<noteq> None"
    using callbacks_kept(2) [OF dl(1)] callbacks_kept(1) [OF dj(1)] dl(2) by (intro callback) (simp_all add: board_ok_def)
  define f3 where "f3 = f2 @ deliveries ?j [h]"
  define n3 where "n3 = put ?j dl (n2\<lparr>busy := (busy n2)(?j := None)\<rparr>)"
  have n3: "fire (Leave ?j) n2 = Some n3" "flight n3 = f3" "busy n3 = (busy n)(i := None, ?j := None)"
    "boards n3 ?j = dl" "boards n3 ?k = boards n ?k"
    using dl n2 ijk by (simp_all add: n3_def f3_def)
  obtain de where de: "enter_cs cs dl = Some de" "lk de = lk dl" "is_inside (critical_sections (sy de) ! cs)"
    using enter_effect [OF dl(2) cs dl(3)] kept by auto
  define f4 where "f4 = remove1 (?j, g) f3"
  define n4 where "n4 = put ?j de (n3\<lparr>flight := f4, busy := (busy n3)(?j := Some cs)\<rparr>)"
  have n4: "fire (Enter ?j cs) n3 = Some n4" "flight n4 = f4" "busy n4 = (busy n)(i := None, ?j := Some cs)"
    "boards n4 ?j = de" "boards n4 ?k = boards n ?k"
    using de n3 in1(2) ijk cs by (simp_all add: n4_def f3_def f2_def f4_def g_def nil)
  have "(?k, h) \<in> set (deliveries ?j [h])" using ijk(3,6) by (auto simp: deliveries_def)
  then have in4: "(?k, h) \<in> set f4" using ijk(6) by (simp add: f4_def f3_def in_set_remove1)
  obtain dk where dk: "enter_cs cs (boards n ?k) = Some dk" "is_inside (critical_sections (sy dk) ! cs)"
    using enter_effect [of ?k "boards n ?k" cs] B [OF ijk(3)] cs assms(5,7) by auto
  define n5 where "n5 = put ?k dk (n4\<lparr>flight := remove1 (?k, h) f4, busy := (busy n4)(?k := Some cs)\<rparr>)"
  have n5: "fire (Enter ?k cs) n4 = Some n5" "boards n5 ?j = de" "boards n5 ?k = dk"
    "busy n5 = (busy n)(i := None, ?j := Some cs, ?k := Some cs)"
    using dk n4 in4 ijk cs assms(5) by (simp_all add: n5_def h_def)
  have "2 \<le> holders n5 cs"
    using assms(2) n5(4) by (auto simp: holders_def all_boards_def)
  moreover have "fires [Leave i, Enter ?j cs, Leave ?j, Enter ?j cs, Enter ?k cs] (late_notice i n) = Some n5"
    using n1(1) n2(1) n3(1) n4(1) n5(1) by (simp del: fire.simps)
  ultimately show ?thesis using de(3) dk(2) n5(2,3) by auto
qed

theorem sync_late_notice_breaks_exclusion_witness:
  "\<exists>n'. fires [Leave 1, Enter 2 1, Leave 2, Enter 2 1, Enter 3 1] (late_notice 1 entered_node) = Some n' \<and>
    is_inside (critical_sections (sy (boards n' 2)) ! 1) \<and> is_inside (critical_sections (sy (boards n' 3)) ! 1)"
proof -
  have "busy entered_node 2 = None \<and> busy entered_node 3 = None \<and>
      cs_function (critical_sections (sy (boards entered_node 2)) ! 1) \<noteq> None \<and>
      cs_function (critical_sections (sy (boards entered_node 3)) ! 1) \<noteq> None"
    unfolding entered_node_def quiet_node_def by code_simp
  with sync_late_notice_breaks_exclusion [OF reachable_entered, of 1 1] entered_facts(3) show ?thesis by auto
qed

end
