(* ===== verification/Node_Tables.thy ===== *)
theory Node_Tables
  imports Table_Agreement Sync_System
begin

text \<open>
  The boards of a node, their messages under way, and the routing table that they share. The boards
  are those of the whole program; each has an inbox of what its siblings broadcast, in the order in
  which it was broadcast. What the lock does in such a node is a run of \<open>Sync_System\<close>, so there
  is one token; from that and from \<open>Table_Agreement\<close> it follows that no change of the table is lost.
\<close>

section \<open>The lock of a board\<close>

definition lock_of :: "'a sys_scheme \<Rightarrow> sys" where
  "lock_of d = \<lparr>lk = lk d, sy = sy d\<rparr>"

lemma lock_of_simps [simp]:
  "lk (lock_of d) = lk d" "sy (lock_of d) = sy d" "lock_of (d\<lparr>lk := l\<rparr>) = (lock_of d)\<lparr>lk := l\<rparr>"
  "lock_of (d\<lparr>sy := s\<rparr>) = (lock_of d)\<lparr>sy := s\<rparr>"
  by (simp_all add: lock_of_def)

lemma lock_calls_of [simp]:
  "sync_broadcast m (lock_of d) = lock_of (sync_broadcast m d)" "on_leader f (lock_of d) = lock_of (on_leader f d)"
  "board_panic msg (lock_of d) = lock_of (board_panic msg d)"
  "follower_pass_token t (lock_of d) = lock_of (follower_pass_token t d)"
  by (simp_all add: lock_calls on_leader_def follower_pass_token_def)

lemma lock_of_if: "lock_of (if c then x else y) = (if c then lock_of x else lock_of y)"
  by simp

lemma issue_of [simp]: "issue_new_token cs (lock_of d) = map_option lock_of (issue_new_token cs d)"
  by (simp add: issue_new_token_def aset_def Let_def)

lemma leader_request_of [simp]:
  "leader_request_critical_section cs (lock_of d) = map_option lock_of (leader_request_critical_section cs d)"
  by (auto simp: leader_request_critical_section_def aset_def aget_def Let_def split: Option.bind_splits)

lemma request_of:
  "sync_request_critical_section c (lock_of d) = map_option lock_of (sync_request_critical_section c d)"
  by (simp add: sync_request_critical_section_def follower_request_critical_section_def split: sync_impl.splits)

lemma inside_of [simp]: "set_inside cs b (lock_of d) = map_option lock_of (set_inside cs b d)"
  by (simp add: set_inside_def aset_def aget_def)

lemma back_of [simp]: "leader_token_back cs (lock_of d) = map_option lock_of (leader_token_back cs d)"
  by (auto simp: leader_token_back_def aset_def aget_def Let_def)

lemma enter_of: "enter_cs cs (lock_of d) = map_option lock_of (enter_cs cs d)"
  by (simp add: enter_cs_def aget_def)

lemma leave_of: "leave_cs cs (lock_of d) = map_option lock_of (leave_cs cs d)"
  by (auto simp: leave_cs_def aget_def split: sync_impl.splits Option.bind_splits)

text \<open>A message that is not a grant for the board runs no callback.\<close>

lemma no_grant_of:
  assumes "\<not> grant_for (sync_orientation (sy d)) (b # raw)"
  shows "sync_on_sibling_message (\<lambda>_. Some) raw (lock_of d) = map_option lock_of (sync_on_sibling_message run raw d)"
    "sync_on_sibling_message (\<lambda>_. Some) raw d = sync_on_sibling_message run raw d"
  using assms
  by (auto simp: sync_on_sibling_message_def grant_for_def leader_on_token_grant_def follower_on_token_grant_def
      leader_on_token_request_def split: option.splits sync_msg.splits sync_impl.splits)

text \<open>What the operations of the lock change: the lock, and the log and the clock of the link.\<close>

definition only_lock :: "'a sys_scheme \<Rightarrow> 'a sys_scheme \<Rightarrow> bool" where
  "only_lock d0 d \<longleftrightarrow> sys.more d = sys.more d0 \<and> link_step (lk d0) (lk d) \<and> sync_wf (sy d) \<and>
     map cs_function (critical_sections (sy d)) = map cs_function (critical_sections (sy d0))"

interpretation lock_alone: lock_client "only_lock d0" "\<lambda>_. Some" for d0
proof unfold_locales
  fix d :: "'a sys_scheme" and m
  assume "only_lock d0 d"
  moreover have "link_step (lk d) (lk (sync_broadcast m d))" by (simp add: lock_calls)
  ultimately show "only_lock d0 (sync_broadcast m d)"
    using link_step_trans unfolding only_lock_def by (auto simp: lock_calls)
next
  fix d :: "'a sys_scheme" and msg
  assume "only_lock d0 d"
  moreover have "link_step (lk d) (lk (board_panic msg d))" by (simp add: lock_calls)
  ultimately show "only_lock d0 (board_panic msg d)"
    using link_step_trans unfolding only_lock_def by (auto simp: lock_calls)
qed (auto simp: only_lock_def)

lemma only_lock_refl: "sync_wf (sy d) \<Longrightarrow> only_lock d d"
  by (simp add: only_lock_def)

lemma only_lock_fields:
  fixes d d' :: "'a rt_sys_scheme"
  assumes "only_lock d d'"
  shows "rsh d' = rsh d" "node_table d' = node_table d" "ss d' = ss d" "rt d' = rt d" "rt_sys.more d' = rt_sys.more d"
proof -
  have m: "sys.more d' = sys.more d" using assms by (simp add: only_lock_def)
  then show "rsh d' = rsh d" "node_table d' = node_table d" "ss d' = ss d" "rt d' = rt d"
    "rt_sys.more d' = rt_sys.more d" by (cases d; cases d'; simp)+
qed

lemma enter_only_lock: "sync_wf (sy d) \<Longrightarrow> enter_cs cs d = Some d' \<Longrightarrow> only_lock d d' \<and> lk d' = lk d"
  using lock_alone.P_inside [OF only_lock_refl, of d cs True d']
  by (auto simp: enter_cs_def only_lock_refl set_inside_def split: Option.bind_splits if_splits)

lemma leave_only_lock:
  assumes "sync_wf (sy d)" "leave_cs cs d = Some d'"
  shows "only_lock d d'"
proof -
  obtain d1 where "d1 = d \<or> set_inside cs False d = Some d1"
    "leader_token_back cs d1 = Some d' \<or> d' = follower_pass_token (of_nat cs) d1"
    using assms(2) by (auto simp: leave_cs_def split: Option.bind_splits if_splits sync_impl.splits)
  then show ?thesis
    using lock_alone.P_inside [OF only_lock_refl [OF assms(1)], of cs False d1] only_lock_refl [OF assms(1)]
      lock_alone.P_back [of d d1 cs d'] lock_alone.P_broadcast [of d d1]
    by (auto simp: follower_pass_token_def)
qed

lemma told_link_step: "link_step (lk d) (lk d') \<Longrightarrow> told d' = told d @ bus_messages (lk d) (lk d')"
  using trace_new_effects [of "lk d" "lk d'"] by (simp add: told_def bus_messages_def)

section \<open>Runs of the lock\<close>

text \<open>What is on its way to a board.\<close>

definition post :: "u8 \<Rightarrow> delivery list \<Rightarrow> byte list list" where
  "post j f = map snd (filter (\<lambda>x. fst x = j) f)"

lemma post_append [simp]: "post j (f @ g) = post j f @ post j g"
  by (simp add: post_def)

lemma post_remove: "post j (remove1 (i, m) f) = (if j = i then remove1 m (post j f) else post j f)"
  by (induction f) (auto simp: post_def)

lemma post_deliveries: "j \<in> set all_boards \<Longrightarrow> post j (deliveries i ms) = (if j = i then [] else ms)"
  by (induction ms) (auto simp: post_def deliveries_def all_boards_def)

lemma post_in: "m \<in> set (post j f) \<longleftrightarrow> (j, m) \<in> set f"
  by (force simp: post_def)

text \<open>
  \<open>locks B Q\<close>: boards with the locks \<open>B\<close> and the messages of the lock \<open>Q\<close> on their way are a state
  that the lock of \<open>Sync_System\<close> can reach, with no handler in the middle.
\<close>

definition locks :: "(u8 \<Rightarrow> sys) \<Rightarrow> (u8 \<Rightarrow> byte list list) \<Rightarrow> bool" where
  "locks B Q \<longleftrightarrow> (\<exists>s. reachable reliable s \<and> (\<forall>i. busy s i = None) \<and>
     (\<forall>i \<in> set all_boards. boards s i = B i \<and> post i (flight s) = Q i))"

lemma locks_facts:
  assumes "locks B Q" "i \<in> set all_boards"
  shows "board_ok i (B i)" "inside_ok (B i) None" "m \<in> set (Q i) \<Longrightarrow> msg_ok (i, m)"
proof -
  obtain s where s: "reachable reliable s" "\<forall>i. busy s i = None" "boards s i = B i" "post i (flight s) = Q i"
    using assms unfolding locks_def by blast
  note N = reachable_inv [OF s(1)]
  show "board_ok i (B i)" "inside_ok (B i) None" using inv_boards(1,2) [OF N assms(2)] s(2,3) by simp_all
  assume "m \<in> set (Q i)"
  then have "(i, m) \<in> set (flight s)" using post_in s(4) by metis
  then show "msg_ok (i, m)" by (rule in_flight_ok [OF N])
qed

lemma locks_traffic:
  assumes "locks B Q" "env l = env (lk (B i))"
  shows "locks (B(i := (B i)\<lparr>lk := l\<rparr>)) Q"
proof (cases "i \<in> set all_boards")
  case True
  obtain s where s: "reachable reliable s" "\<forall>i. busy s i = None"
    "\<forall>i \<in> set all_boards. boards s i = B i \<and> post i (flight s) = Q i"
    using assms(1) unfolding locks_def by blast
  have "env l = env (lk (boards s i))" using s(3) True assms(2) by simp
  then have l: "other_traffic l (lk (boards s i)) = l" by (simp add: other_traffic_def)
  let ?s = "s\<lparr>boards := (boards s)(i := (boards s i)\<lparr>lk := l\<rparr>)\<rparr>"
  have "reachable reliable ?s" by (rule reachable.step [OF s(1), of "Traffic i l"]) (simp add: l)
  then show ?thesis using s(2,3) unfolding locks_def by (intro exI [of _ ?s]) simp
next
  case False
  then show ?thesis using assms(1) by (auto simp: locks_def)
qed

text \<open>Board \<open>i\<close> is now \<open>d\<close>, has \<open>q\<close> left to read, and has sent \<open>ms\<close> to the others.\<close>

definition sends :: "u8 \<Rightarrow> byte list list \<Rightarrow> byte list list \<Rightarrow> (u8 \<Rightarrow> byte list list) \<Rightarrow> u8 \<Rightarrow> byte list list" where
  "sends i q ms Q j = (if j = i then q else Q j @ ms)"

lemma locks_put:
  assumes "reachable reliable (put i d (s\<lparr>flight := f\<rparr>))" "\<forall>i. busy s i = None"
    and "\<forall>j \<in> set all_boards. boards s j = B j \<and> post j (flight s) = Q j"
    and "\<forall>j \<in> set all_boards. post j f = (if j = i then q else Q j)" "i \<in> set all_boards"
  shows "locks (B(i := d)) (sends i q (bus_messages (lk (B i)) (lk d)) Q)"
  unfolding locks_def
  by (intro exI [of _ "put i d (s\<lparr>flight := f\<rparr>)"]) (use assms in \<open>simp add: post_deliveries sends_def\<close>)

lemma locks_request:
  assumes "locks B Q" "i \<in> set all_boards" "sync_request_critical_section c (B i) = Some d"
  shows "locks (B(i := d)) (sends i (Q i) (bus_messages (lk (B i)) (lk d)) Q)"
proof -
  obtain s where s: "reachable reliable s" "\<forall>i. busy s i = None"
    "\<forall>i \<in> set all_boards. boards s i = B i \<and> post i (flight s) = Q i"
    using assms(1) unfolding locks_def by blast
  have "reachable reliable (put i d (s\<lparr>flight := flight s\<rparr>))"
    by (rule reachable.step [OF s(1), of "Request i c"]) (use assms(2,3) s(3) in simp)
  from locks_put [OF this s(2,3)] s(3) assms(2) show ?thesis by simp
qed

lemma locks_receive:
  assumes "locks B Q" "i \<in> set all_boards" "Q i = m # q" "m \<noteq> []"
    and "\<not> grant_for (sync_orientation (sy (B i))) m" "sync_on_sibling_message (\<lambda>_. Some) (tl m) (B i) = Some d"
  shows "locks (B(i := d)) (sends i q (bus_messages (lk (B i)) (lk d)) Q)"
proof -
  obtain s where s: "reachable reliable s" "\<forall>i. busy s i = None"
    "\<forall>i \<in> set all_boards. boards s i = B i \<and> post i (flight s) = Q i"
    using assms(1) unfolding locks_def by blast
  have f: "(i, m) \<in> set (flight s)" using post_in [of m i "flight s"] s(3) assms(2,3) by simp
  have "reachable reliable (put i d (s\<lparr>flight := remove1 (i, m) (flight s)\<rparr>))"
    by (rule reachable.step [OF s(1), of "Receive i m"]) (use assms(2,4-6) s(2,3) f in simp)
  from locks_put [OF this s(2,3)] s(3) assms(2,3) show ?thesis by (simp add: post_remove)
qed

lemma locks_grant:
  assumes "locks B Q" "i \<in> set all_boards" "Q i = grant_bytes i cs # q" "cs < 7"
    and d1: "enter_cs cs (B i) = Some d1" and l: "env l = env (lk (B i))" and d: "leave_cs cs (d1\<lparr>lk := l\<rparr>) = Some d"
  shows "locks (B(i := d)) (sends i q (bus_messages l (lk d)) Q)"
    and "\<forall>j \<in> set all_boards. grant_bytes j cs \<notin> set (if j = i then q else Q j)"
proof -
  obtain s where s: "reachable reliable s" "\<forall>i. busy s i = None"
    "\<forall>i \<in> set all_boards. boards s i = B i \<and> post i (flight s) = Q i"
    using assms(1) unfolding locks_def by blast
  define f where "f = remove1 (i, grant_bytes i cs) (flight s)"
  have g: "(i, grant_bytes i cs) \<in> set (flight s)"
    using post_in [of "grant_bytes i cs" i "flight s"] s(3) assms(2,3) by simp
  have b: "boards s i = B i" using s(3) assms(2) by simp
  have d1l: "lk d1 = lk (B i)"
    using enter_only_lock [OF _ d1] locks_facts(1) [OF assms(1,2)] by (simp add: board_ok_def)
  let ?s1 = "s\<lparr>boards := (boards s)(i := d1), flight := f, busy := (busy s)(i := Some cs)\<rparr>"
  have 1: "reachable reliable ?s1"
    by (rule reachable.step [OF s(1), of "Enter i cs"])
       (use assms(4) s(2) g d1 d1l b in \<open>simp add: put_def f_def deliveries_def\<close>)
  let ?s2 = "?s1\<lparr>boards := (boards s)(i := d1\<lparr>lk := l\<rparr>)\<rparr>"
  have 2: "reachable reliable ?s2"
    by (rule reachable.step [OF 1, of "Traffic i l"]) (simp add: other_traffic_def l [symmetric] d1l)
  let ?s3 = "put i d (?s2\<lparr>busy := (busy s)(i := None)\<rparr>)"
  have 3: "reachable reliable ?s3"
    by (rule reachable.step [OF 2, of "Leave i"]) (simp add: d)
  have f: "\<forall>j \<in> set all_boards. post j f = (if j = i then q else Q j)"
    using s(3) assms(2,3) by (simp add: f_def post_remove)
  show "locks (B(i := d)) (sends i q (bus_messages l (lk d)) Q)"
    unfolding locks_def
    by (intro exI [of _ ?s3]) (use 3 s(2,3) f assms(2) in \<open>simp add: post_deliveries sends_def\<close>)
  have h: "holders ?s1 cs > 0" using assms(2) by (auto simp: holders_def filter_empty_conv)
  have "grants_in cs f = 0"
    using tokens_cases [OF reachable_inv [OF 1] assms(4)] h by (auto simp: tokens_def split: if_splits)
  then have "(j, grant_bytes j cs) \<notin> set f" for j
    by (auto simp: grants_in_def filter_empty_conv)
  then have "grant_bytes j cs \<notin> set (post j f)" for j using post_in by metis
  then show "\<forall>j \<in> set all_boards. grant_bytes j cs \<notin> set (if j = i then q else Q j)" using f by metis
qed

section \<open>The node\<close>

record board_node =
  members :: "u8 \<Rightarrow> board"
  inbox :: "u8 \<Rightarrow> byte list list"

text \<open>What a board has put on the ring between two states; the others get it, in that order.\<close>

definition news :: "'a sys_scheme \<Rightarrow> 'a sys_scheme \<Rightarrow> byte list list" where
  "news d d' = drop (length (told d)) (told d')"

definition pass :: "u8 \<Rightarrow> board \<Rightarrow> board_node \<Rightarrow> board_node" where
  "pass i d n = \<lparr>members = (members n)(i := d),
     inbox = (\<lambda>j. if j = i then inbox n j else inbox n j @ news (members n i) d)\<rparr>"

text \<open>
  What a board does by itself: the rest of its start, the access point and the scan for one, the events of its
  peer, and the time.
\<close>

inductive board_does :: "board \<Rightarrow> board \<Rightarrow> bool" where
  starts: "rt_on_start d = Some d' \<Longrightarrow> board_does d d'"
| serves: "node_set_as_ap network msk d = Some d' \<Longrightarrow> board_does d d'"
| joins: "node_set_as_sta d = Some d' \<Longrightarrow> board_does d d'"
| peer_message: "rt_on_peer_message raw d = Some d' \<Longrightarrow> board_does d d'"
| peer_connected: "rt_on_peer_connected network msk d = Some d' \<Longrightarrow> board_does d d'"
| peer_lost: "rt_on_peer_lost network msk d = Some d' \<Longrightarrow> board_does d d'"
| time_passes: "board_does d (rt_on_tick dt_ms d)"

inductive node_goes :: "board_node \<Rightarrow> board_node \<Rightarrow> bool" where
  acts: "i \<in> set all_boards \<Longrightarrow> board_does (members n i) d \<Longrightarrow> node_goes n (pass i d n)"
| hears: "i \<in> set all_boards \<Longrightarrow> inbox n i = m # q \<Longrightarrow> board_on_sibling_message m (members n i) = Some d \<Longrightarrow>
    node_goes n (pass i d (n\<lparr>inbox := (inbox n)(i := q)\<rparr>))"

text \<open>The boards after \<open>main_create\<close>, on a ring that works, and nothing under way.\<close>

definition node_begins :: "board_node \<Rightarrow> bool" where
  "node_begins n \<longleftrightarrow> (\<forall>i \<in> set all_boards. inbox n i = [] \<and>
     (\<exists>s. board_wf s \<and> ring_ok (env (lk s)) \<and> node_orientation (nd s) + 1 = i \<and> members n i = main_create True True s))"

section \<open>What the boards keep\<close>

abbreviation routing_cs :: nat where "routing_cs \<equiv> component_num RS_ROUTING"

text \<open>The routing alone has a critical section.\<close>

definition sections_named :: "sync_t \<Rightarrow> bool" where
  "sections_named s \<longleftrightarrow> (\<forall>k < 7. k \<noteq> routing_cs \<longrightarrow> map cs_function (critical_sections s) ! k = None)"

definition listens :: "'a ss_sys_scheme \<Rightarrow> bool" where
  "listens d \<longleftrightarrow> watches_table d \<and> ring_ok (env (lk d)) \<and> sections_named (sy d) \<and>
     rs_components (rsh d) ! component_num RS_SYNC = Some SyncOnSibling \<and>
     rs_components (rsh d) ! component_num RS_SHARED_STATE = Some SharedStateOnSibling"

definition in_node :: "board \<Rightarrow> bool" where
  "in_node d \<longleftrightarrow> board_wf d \<and> listens d"

definition lock_message :: "byte list \<Rightarrow> bool" where
  "lock_message m \<longleftrightarrow> take 1 m = [component_byte RS_SYNC]"

text \<open>Behind a grant for the board in its inbox there is no table: whoever has the token sent all of his first.\<close>

fun fresh :: "u8 \<Rightarrow> byte list list \<Rightarrow> bool" where
  "fresh i [] \<longleftrightarrow> True"
| "fresh i (m # ms) \<longleftrightarrow> (m = grant_bytes i routing_cs \<longrightarrow> list_all (\<lambda>x. table_message x = None) ms) \<and> fresh i ms"

definition tables_ok :: "board_node \<Rightarrow> bool" where
  "tables_ok n \<longleftrightarrow> locks (\<lambda>i. lock_of (members n i)) (\<lambda>i. filter lock_message (inbox n i)) \<and>
     (\<forall>i \<in> set all_boards. in_node (members n i) \<and>
        list_all (\<lambda>m. lock_message m \<or> turn_message m) (inbox n i) \<and> fresh i (inbox n i)) \<and>
     (\<exists>t. \<forall>i \<in> set all_boards. heard_table (inbox n i) (node_table (members n i)) = t)"

abbreviation no_table :: "byte list list \<Rightarrow> bool" where
  "no_table ms \<equiv> list_all (\<lambda>m. table_message m = None) ms"

lemma fresh_none: "no_table ms \<Longrightarrow> fresh i ms"
  by (induction ms) auto

lemma fresh_more: "fresh i ms \<Longrightarrow> no_table ns \<Longrightarrow> fresh i (ms @ ns)"
  by (induction ms) (auto intro: fresh_none)

lemma fresh_later: "grant_bytes i routing_cs \<notin> set ms \<Longrightarrow> fresh i ns \<Longrightarrow> fresh i (ms @ ns)"
  by (induction ms) auto

lemma lock_message_no_table: "lock_message m \<Longrightarrow> table_message m = None"
  using component_bytes_differ(3) by (auto simp: lock_message_def table_message_def split: list.splits)

lemma turn_not_lock: "turn_message m \<Longrightarrow> \<not> lock_message m"
  using component_bytes_differ by (auto simp: turn_message_def lock_message_def)

lemma msg_ok_lock: "msg_ok (i, m) \<Longrightarrow> lock_message m"
  by (auto simp: msg_ok_def lock_message_def grant_bytes_def)

lemma grant_is_lock: "lock_message (grant_bytes i cs)"
  by (simp add: lock_message_def grant_bytes_def)

lemma heard_none: "no_table ms \<Longrightarrow> heard_table ms t = t"
  using heard_nothing [of ms t] by (simp add: list_all_iff)

lemma heard_nil [simp]: "heard_table [] t = t"
  by (simp add: heard_none)

lemma lock_message_iff: "lock_message m \<longleftrightarrow> (\<exists>raw. m = component_byte RS_SYNC # raw)"
  by (cases m) (simp_all add: lock_message_def)

lemma sends_lock_messages:
  assumes "locks B (sends i q ms Q)"
  shows "list_all lock_message ms"
proof -
  define j :: u8 where "j = (if i = 1 then 2 else 1)"
  have j: "j \<in> set all_boards" "j \<noteq> i" by (simp_all add: j_def all_boards_def)
  then have "msg_ok (j, m)" if "m \<in> set ms" for m
    using locks_facts(3) [OF assms j(1)] that by (simp add: sends_def)
  then show ?thesis using msg_ok_lock by (auto simp: list_all_iff)
qed

lemma locks_cong: "locks B Q \<Longrightarrow> (\<And>i. i \<in> set all_boards \<Longrightarrow> B' i = B i \<and> Q' i = Q i) \<Longrightarrow> locks B' Q'"
  unfolding locks_def by (elim exE) (rule exI, force)

text \<open>One board moves on: what is left in its inbox, what it sends, and what becomes of the tables.\<close>

lemma tables_ok_move:
  assumes n: "tables_ok n" and i: "i \<in> set all_boards"
    and L: "locks ((\<lambda>i. lock_of (members n i))(i := lock_of d))
      (sends i (filter lock_message q) ms2 (\<lambda>i. filter lock_message (inbox n i)))"
    and news: "news (members n i) d = ms1 @ ms2" "list_all turn_message ms1"
    and d: "in_node d" "list_all (\<lambda>m. lock_message m \<or> turn_message m) q" "fresh i q"
    and F: "\<And>j. j \<in> set all_boards \<Longrightarrow> j \<noteq> i \<Longrightarrow> list_all lock_message ms2 \<Longrightarrow> fresh j (inbox n j @ ms1 @ ms2)"
    and T: "heard_table ms1 (heard_table (inbox n i) (node_table (members n i))) = heard_table q (node_table d)"
  shows "tables_ok (pass i d (n\<lparr>inbox := (inbox n)(i := q)\<rparr>))"
proof -
  let ?n = "pass i d (n\<lparr>inbox := (inbox n)(i := q)\<rparr>)"
  have ms2: "list_all lock_message ms2" by (rule sends_lock_messages [OF L])
  have ms1: "filter lock_message ms1 = []" using news(2) turn_not_lock by (auto simp: list_all_iff filter_empty_conv)
  have m: "members ?n j = (if j = i then d else members n j)"
    and q: "inbox ?n j = (if j = i then q else inbox n j @ ms1 @ ms2)" for j
    by (simp_all add: pass_def news(1))
  have "locks (\<lambda>i. lock_of (members ?n i)) (\<lambda>i. filter lock_message (inbox ?n i))"
  proof (rule locks_cong [OF L])
    fix j
    have "filter lock_message ms2 = ms2" using ms2 by (simp add: list_all_iff filter_id_conv)
    with ms1 show "lock_of (members ?n j) = ((\<lambda>i. lock_of (members n i))(i := lock_of d)) j \<and>
        filter lock_message (inbox ?n j) = sends i (filter lock_message q) ms2 (\<lambda>i. filter lock_message (inbox n i)) j"
      by (simp add: m q sends_def)
  qed
  moreover have "in_node (members ?n j) \<and> list_all (\<lambda>m. lock_message m \<or> turn_message m) (inbox ?n j) \<and> fresh j (inbox ?n j)"
    if j: "j \<in> set all_boards" for j
  proof (cases "j = i")
    case True
    then show ?thesis using d by (simp add: m q)
  next
    case False
    have "in_node (members n j)" "list_all (\<lambda>m. lock_message m \<or> turn_message m) (inbox n j)"
      using n j by (simp_all add: tables_ok_def)
    moreover have "list_all (\<lambda>m. lock_message m \<or> turn_message m) (ms1 @ ms2)"
      using news(2) ms2 by (auto simp: list_all_iff)
    ultimately show ?thesis using F [OF j False ms2] False by (simp add: m q)
  qed
  moreover obtain t where t: "\<And>j. j \<in> set all_boards \<Longrightarrow> heard_table (inbox n j) (node_table (members n j)) = t"
    using n unfolding tables_ok_def by blast
  have "heard_table ms2 x = x" for x using ms2 lock_message_no_table by (intro heard_none) (auto simp: list_all_iff)
  then have "heard_table (inbox ?n j) (node_table (members ?n j)) = heard_table ms1 t" if "j \<in> set all_boards" for j
    using t [OF that] T t [OF i] by (cases "j = i") (simp_all add: m q heard_table_append)
  ultimately show ?thesis unfolding tables_ok_def by blast
qed

text \<open>A step outside the critical section: events for the others, and a request for the lock at its end.\<close>

lemma request_only_lock: "sync_wf (sy d) \<Longrightarrow> sync_request_critical_section c d = Some d' \<Longrightarrow> only_lock d d'"
  by (rule lock_alone.P_request [OF only_lock_refl])

lemma quiet_step:
  assumes n: "tables_ok n" and i: "i \<in> set all_boards"
    and d1: "sy d1 = sy (members n i)" "env (lk d1) = env (lk (members n i))" "told d1 = told (members n i) @ ms1"
      "\<forall>m \<in> set ms1. \<exists>raw. m = component_byte RS_ROUTING # raw"
    and d: "d = d1 \<or> sync_request_critical_section RS_ROUTING d1 = Some d" "in_node d"
    and q: "inbox n i = q \<or> (\<exists>m. inbox n i = m # q \<and> \<not> lock_message m)"
    and T: "heard_table q (node_table d) = heard_table (inbox n i) (node_table (members n i))"
  shows "tables_ok (pass i d (n\<lparr>inbox := (inbox n)(i := q)\<rparr>))"
proof -
  let ?B = "\<lambda>i. lock_of (members n i)" and ?Q = "\<lambda>i. filter lock_message (inbox n i)"
  have wf: "sync_wf (sy d1)" using n i d1(1) by (simp add: tables_ok_def in_node_def board_wf_def rt_wf_def)
  have e: "(?B i)\<lparr>lk := lk d1\<rparr> = lock_of d1" by (simp add: lock_of_def d1(1))
  have L1: "locks (?B(i := lock_of d1)) ?Q"
    using locks_traffic [of ?B ?Q "lk d1" i] n d1(2) unfolding tables_ok_def e by simp
  have Q: "filter lock_message q = ?Q i" using q by auto
  have "\<exists>ms2. told d = told d1 @ ms2 \<and> locks (?B(i := lock_of d)) (sends i (filter lock_message q) ms2 ?Q)"
    using d(1)
  proof
    assume "d = d1"
    then show ?thesis using locks_cong [OF L1, of "?B(i := lock_of d)" "sends i (filter lock_message q) [] ?Q"] Q
      by (intro exI [of _ "[]"]) (simp add: sends_def)
  next
    assume r: "sync_request_critical_section RS_ROUTING d1 = Some d"
    then have "link_step (lk d1) (lk d)" using request_only_lock [OF wf] by (simp add: only_lock_def)
    moreover have "locks (?B(i := lock_of d)) (sends i (?Q i) (bus_messages (lk d1) (lk d)) ?Q)"
      using locks_request [OF L1 i, of RS_ROUTING "lock_of d"] r by (simp add: request_of)
    ultimately show ?thesis using Q told_link_step by fastforce
  qed
  then obtain ms2 where ms2: "told d = told d1 @ ms2"
    "locks (?B(i := lock_of d)) (sends i (filter lock_message q) ms2 ?Q)" by blast
  have n1: "no_table ms1" using d1(4) table_message_simps(1) by (auto simp: list_all_iff)
  have q_ok: "list_all (\<lambda>m. lock_message m \<or> turn_message m) q \<and> fresh i q"
    using n i q by (fastforce simp: tables_ok_def)
  show ?thesis
  proof (rule tables_ok_move [OF n i ms2(2), of ms1])
    show "news (members n i) d = ms1 @ ms2" by (simp add: news_def ms2(1) d1(3))
    show "list_all turn_message ms1" using d1(4) by (auto simp: list_all_iff turn_message_def)
    show "in_node d" "list_all (\<lambda>m. lock_message m \<or> turn_message m) q" "fresh i q" using d(2) q_ok by simp_all
    show "heard_table ms1 (heard_table (inbox n i) (node_table (members n i))) = heard_table q (node_table d)"
      using T heard_none [OF n1] by simp
    fix j
    assume "j \<in> set all_boards" "list_all lock_message ms2"
    then have "fresh j (inbox n j)" "no_table (ms1 @ ms2)"
      using n n1 lock_message_no_table by (auto simp: tables_ok_def list_all_iff)
    then show "fresh j (inbox n j @ ms1 @ ms2)" by (rule fresh_more)
  qed
qed

section \<open>What a board hears\<close>

lemma hear_lock_message:
  assumes "listens d"
  shows "board_on_sibling_message (component_byte RS_SYNC # raw) d = sync_on_sibling_message run_cs raw d"
  using assms component_num_less [of RS_SYNC]
  by (simp add: board_on_sibling_message_def rs_on_sibling_message_def component_callback_def listens_def rs_consts not_le)

lemma hear_table:
  assumes "listens d" "table_wf (node_table d)" "table_wf t"
  shows "board_on_sibling_message (component_byte RS_SHARED_STATE # component_byte RS_ROUTING # table_bytes 0 t) d =
    Some (d\<lparr>node_table := t\<rparr>)"
  using assms receive_table [of d t] component_num_less [of RS_SHARED_STATE]
  by (simp add: board_on_sibling_message_def rs_on_sibling_message_def component_callback_def listens_def rs_consts not_le)

lemma hear_event:
  assumes "rs_ok (rsh d)" "board_on_sibling_message (component_byte RS_ROUTING # raw) d = Some d'"
  shows "d' = d \<or> rt_on_sibling_message raw d = Some d'"
proof (cases "rs_components (rsh d) ! routing_cs")
  case None
  then show ?thesis using assms(2) component_num_less [of RS_ROUTING]
    by (simp add: board_on_sibling_message_def rs_on_sibling_message_def rs_consts not_le)
next
  case (Some cb)
  have "routing_cs < RS_MAX_COMPONENTS" by (simp add: rs_consts)
  then have "case rs_components (rsh d) ! routing_cs of None \<Rightarrow> True
      | Some cb \<Rightarrow> routing_cs = component_num (callback_component cb)"
    using assms(1) unfolding rs_ok_def by blast
  then have "cb = RoutingOnSibling" unfolding Some by (cases cb) (simp_all add: rs_consts)
  then show ?thesis using Some assms(2) component_num_less [of RS_ROUTING]
    by (simp add: board_on_sibling_message_def rs_on_sibling_message_def component_callback_def rs_consts not_le)
qed

text \<open>An event of the routing is queued, and the lock is asked for.\<close>

definition lock_kept :: "'a rt_sys_scheme \<Rightarrow> 'a rt_sys_scheme \<Rightarrow> bool" where
  "lock_kept d d1 \<longleftrightarrow> sy d1 = sy d \<and> env (lk d1) = env (lk d) \<and> told d1 = told d \<and> node_table d1 = node_table d \<and>
     ss d1 = ss d \<and> (\<forall>k. k \<noteq> routing_cs \<longrightarrow> rs_components (rsh d1) ! k = rs_components (rsh d) ! k)"

lemma lock_kept_calls:
  "lock_kept d (board_panic m d)" "lock_kept d (upd_rt f d)" "lock_kept d d"
  by (simp_all add: lock_kept_def upd_rt_def told_def board_panic_def os_panic_def)

lemma queued_parts:
  assumes "rt_on_sibling_message raw d = Some d' \<or> queue_peer_message e d = Some d'"
  shows "\<exists>d1. lock_kept d d1 \<and> (d' = d1 \<or> sync_request_critical_section RS_ROUTING d1 = Some d')"
proof -
  have "(\<exists>m. d' = board_panic m d) \<or> (\<exists>f. sync_request_critical_section RS_ROUTING (upd_rt f d) = Some d')"
    using assms by (auto simp: rt_on_sibling_message_def queue_peer_message_def split: if_splits)
  then show ?thesis using lock_kept_calls by blast
qed

lemma kept_request:
  assumes "lock_kept d d1" "d' = d1 \<or> sync_request_critical_section RS_ROUTING d1 = Some d'" "sync_wf (sy d)"
  shows "node_table d' = node_table d" "listens d \<Longrightarrow> listens d'"
proof -
  have "only_lock d1 d'" using assms request_only_lock [of d1 RS_ROUTING d'] only_lock_refl [of d1]
    by (auto simp: lock_kept_def)
  note o = only_lock_fields [OF this] this
  show "node_table d' = node_table d" using o(2) assms(1) by (simp add: lock_kept_def)
  assume "listens d"
  with o assms(1) show "listens d'"
    by (simp add: listens_def lock_kept_def watches_table_def sections_named_def only_lock_def link_step_def rs_consts)
qed

section \<open>With the token\<close>

lemma section_part:
  fixes d1 :: "'a rt_sys_scheme"
  assumes "on_critical_section d1 = Some d2" "core_ok d1" "listens d1" "sync_is_inside_critical_section (sy d1) RS_ROUTING"
  shows "sy d2 = sy d1" "env (lk d2) = env (lk d1)" "listens d2"
    "\<exists>ms. told d2 = told d1 @ ms \<and> list_all turn_message ms \<and> heard_table ms (node_table d1) = node_table d2"
proof -
  have "tells_table True (env (lk d1)) (node_table d1) (told d1) d1"
    using assms(2-4) by (auto simp: tells_table_def listens_def core_ok_def heard_table_def intro!: exI [of _ "[]"])
  then have t: "tells_table True (env (lk d1)) (node_table d1) (told d1) d2" by (rule section_tells [OF assms(1)])
  then show "\<exists>ms. told d2 = told d1 @ ms \<and> list_all turn_message ms \<and> heard_table ms (node_table d1) = node_table d2"
    "env (lk d2) = env (lk d1)" by (auto simp: tells_table_def)
  have "sy d2 = sy d1 \<and> ss d2 = ss d1 \<and> rsh d2 = rsh d1"
    using critical_section_same [OF assms(1,2)] by (auto simp: rest_def upd_rt_def)
  then show "sy d2 = sy d1" "listens d2"
    using t assms(3) by (simp_all add: listens_def watches_table_def tells_table_def)
qed

text \<open>The handler of a grant for the board, up to where the token goes on.\<close>

lemma grant_parts:
  fixes d :: "'a im_sys_scheme"
  assumes d: "rt_wf d" "listens d" "cs < 7"
    and run: "sync_on_sibling_message run_cs (sync_msg_bytes (TokenGrant (sync_orientation (sy d)) (of_nat cs))) d = Some d'"
  shows "\<exists>d1 d2 ms. enter_cs cs d = Some d1 \<and> sy d2 = sy d1 \<and> env (lk d2) = env (lk d) \<and> leave_cs cs d2 = Some d' \<and>
     listens d2 \<and> told d2 = told d @ ms \<and> list_all turn_message ms \<and> heard_table ms (node_table d) = node_table d2 \<and>
     (cs \<noteq> routing_cs \<longrightarrow> ms = [])"
proof -
  have wf: "sync_wf (sy d)" and core: "core_ok d" using d(1) rt_wf_core by (auto simp: rt_wf_def)
  then have len: "cs < length (critical_sections (sy d))" using d(3) sync_wf_lengths by auto
  have cs: "unat (of_nat cs :: u8) = cs" using d(3) by (rule unat_cs_byte)
  have inside: "only_lock d d1 \<and> lk d1 = lk d" if "enter_cs cs d = Some d1" for d1
    using enter_only_lock [OF wf that] .
  then have enter: "core_ok d1 \<and> listens d1 \<and> told d1 = told d \<and> node_table d1 = node_table d" if "enter_cs cs d = Some d1" for d1
    using only_lock_fields [of d d1] that core d(2)
    by (simp add: core_ok_def listens_def watches_table_def sections_named_def only_lock_def told_def)
  have named: "cs = routing_cs" if "cs_function (critical_sections (sy d) ! cs) \<noteq> None"
    using that d(2,3) len by (auto simp: listens_def sections_named_def)
  have at_cs: "sync_is_inside_critical_section (sy d1) RS_ROUTING"
    if "enter_cs cs d = Some d1" "cs_function (critical_sections (sy d) ! cs) \<noteq> None" for d1
    using that named [OF that(2)] len
    by (auto simp: enter_cs_def set_inside_Some sync_is_inside_critical_section_def)
  have g: "sync_on_sibling_message run_cs (sync_msg_bytes (TokenGrant (sync_orientation (sy d)) (of_nat cs))) d =
    do { d1 \<leftarrow> enter_cs cs d;
         d2 \<leftarrow> (case cs_function (critical_sections (sy d) ! cs) of None \<Rightarrow> Some d1 | Some cb \<Rightarrow> run_cs cb d1);
         leave_cs cs d2 }"
  proof (rule grant_enter_leave [of "of_nat cs" d run_cs, unfolded cs, OF len])
    fix cb and d1 d2 :: "'a im_sys_scheme"
    assume a: "cs_function (critical_sections (sy d) ! cs) = Some cb" "enter_cs cs d = Some d1" "run_cs cb d1 = Some d2"
    then have "on_critical_section d1 = Some d2" by (cases cb) (simp add: run_cs_def)
    from section_part(1) [OF this _ _ at_cs] enter a
    show "map cs_function (critical_sections (sy d2)) = map cs_function (critical_sections (sy d1)) \<and>
        sync_impl (sy d2) = sync_impl (sy d1)" by auto
  qed
  obtain d1 d2 where d12: "enter_cs cs d = Some d1" "leave_cs cs d2 = Some d'"
    "(case cs_function (critical_sections (sy d) ! cs) of None \<Rightarrow> Some d1 | Some cb \<Rightarrow> run_cs cb d1) = Some d2"
    using run unfolding g by (auto split: Option.bind_splits)
  note E = enter [OF d12(1)] inside [OF d12(1)]
  show ?thesis
  proof (cases "cs_function (critical_sections (sy d) ! cs)")
    case None
    then have "d2 = d1" using d12(3) by simp
    then show ?thesis using d12(1,2) E by (intro exI [of _ d1] exI [of _ "[]"]) (simp add: heard_table_def)
  next
    case (Some cb)
    then have "on_critical_section d1 = Some d2" using d12(3) by (cases cb) (simp add: run_cs_def)
    from section_part [OF this _ _ at_cs [OF d12(1)]] E d12(1,2) named Some show ?thesis
      by (intro exI [of _ d1] exI [of _ d2]) auto
  qed
qed

section \<open>The steps of the node\<close>

lemma only_lock_listens:
  fixes d :: "'a rt_sys_scheme"
  shows "only_lock d d' \<Longrightarrow> listens d \<Longrightarrow> listens d'"
  using only_lock_fields [of d d']
  by (simp add: listens_def watches_table_def sections_named_def only_lock_def link_step_def)

lemma node_messages_ok:
  assumes "lock_message m \<or> turn_message m"
  shows "sibling_ok m"
  using assms
proof
  assume "lock_message m"
  then obtain raw where "m = component_byte RS_SYNC # raw"
    by (auto simp: lock_message_iff)
  then show ?thesis using component_bytes_differ(3) by (cases raw) auto
next
  assume "turn_message m"
  then show ?thesis
    unfolding turn_message_def
  proof (elim disjE exE conjE)
    fix raw assume "m = component_byte RS_ROUTING # raw"
    then show ?thesis using component_bytes_differ(1) by (cases raw) auto
  next
    fix t assume "table_wf t" "m = component_byte RS_SHARED_STATE # component_byte RS_ROUTING # table_bytes 0 t"
    then show ?thesis using rt_wire.dec_enc [of t 0] by simp
  qed
qed

lemma hears_wf:
  assumes "in_node d" "lock_message m \<or> turn_message m" "board_on_sibling_message m d = Some d'"
  shows "board_wf d'"
  using board_message_wf [of d m d'] more_messages [of d' d] node_messages_ok [OF assms(2)] assms
  by (auto simp: in_node_def board_wf_def)

text \<open>
  A grant that is taken off the inbox: the board is inside the critical section, tells its changes
  of the table, leaves, and no grant of that section is left in any inbox of the node.
\<close>

lemma grant_taken:
  assumes n: "tables_ok n" and i: "i \<in> set all_boards" and q: "inbox n i = grant_bytes i cs # q" and cs: "cs < 7"
    and run: "board_on_sibling_message (grant_bytes i cs) (members n i) = Some d"
  obtains d2 ms where "only_lock d2 d" "listens d2" "told d2 = told (members n i) @ ms" "list_all turn_message ms"
    "heard_table ms (node_table (members n i)) = node_table d2" "cs \<noteq> routing_cs \<longrightarrow> ms = []"
    "locks ((\<lambda>i. lock_of (members n i))(i := lock_of d))
      (sends i (filter lock_message q) (bus_messages (lk d2) (lk d)) (\<lambda>i. filter lock_message (inbox n i)))"
    "\<And>j. j \<in> set all_boards \<Longrightarrow> j \<noteq> i \<Longrightarrow> grant_bytes j cs \<notin> set (inbox n j)"
proof -
  let ?B = "\<lambda>i. lock_of (members n i)" and ?Q = "\<lambda>i. filter lock_message (inbox n i)" and ?d = "members n i"
  have L: "locks ?B ?Q" and mem: "rt_wf ?d" "listens ?d"
    using n i by (simp_all add: tables_ok_def in_node_def board_wf_def)
  have ori: "sync_orientation (sy ?d) = i" using locks_facts(1) [OF L i] by (simp add: board_ok_def)
  have "sync_on_sibling_message run_cs (sync_msg_bytes (TokenGrant (sync_orientation (sy ?d)) (of_nat cs))) ?d = Some d"
    using run mem(2) by (simp add: grant_bytes_def hear_lock_message ori)
  from grant_parts [OF mem cs this] obtain d1 d2 ms where
    enter: "enter_cs cs ?d = Some d1" and d2: "sy d2 = sy d1" "env (lk d2) = env (lk ?d)" and leave: "leave_cs cs d2 = Some d"
    and l2: "listens d2" and ms: "told d2 = told ?d @ ms" "list_all turn_message ms"
      "heard_table ms (node_table ?d) = node_table d2" "cs \<noteq> routing_cs \<longrightarrow> ms = []"
    by blast
  have "only_lock ?d d1" using enter_only_lock [OF _ enter] mem(1) by (simp add: rt_wf_def)
  then have "sync_wf (sy d2)" by (simp add: only_lock_def d2(1))
  then have o: "only_lock d2 d" by (rule leave_only_lock [OF _ leave])
  have e1: "enter_cs cs (?B i) = Some (lock_of d1)" using enter by (simp add: enter_of)
  have l: "(lock_of d1)\<lparr>lk := lk d2\<rparr> = lock_of d2" by (simp add: lock_of_def d2(1))
  have e2: "leave_cs cs ((lock_of d1)\<lparr>lk := lk d2\<rparr>) = Some (lock_of d)" using leave by (simp add: l leave_of)
  have Q: "?Q i = grant_bytes i cs # filter lock_message q" by (simp add: q grant_is_lock)
  note G = locks_grant [OF L i Q cs e1 _ e2]
  have "grant_bytes j cs \<notin> set (inbox n j)" if "j \<in> set all_boards" "j \<noteq> i" for j
    using G(2) d2(2) that grant_is_lock by auto
  with G(1) d2(2) that [OF o l2 ms] show thesis by simp
qed

lemma hears_grant:
  assumes n: "tables_ok n" and i: "i \<in> set all_boards" and q: "inbox n i = grant_bytes i cs # q" and cs: "cs < 7"
    and run: "board_on_sibling_message (grant_bytes i cs) (members n i) = Some d"
  shows "tables_ok (pass i d (n\<lparr>inbox := (inbox n)(i := q)\<rparr>))"
proof -
  let ?d = "members n i"
  obtain d2 ms where o: "only_lock d2 d" and l2: "listens d2" and ms: "told d2 = told ?d @ ms" "list_all turn_message ms"
      "heard_table ms (node_table ?d) = node_table d2" "cs \<noteq> routing_cs \<longrightarrow> ms = []"
    and L: "locks ((\<lambda>i. lock_of (members n i))(i := lock_of d))
      (sends i (filter lock_message q) (bus_messages (lk d2) (lk d)) (\<lambda>i. filter lock_message (inbox n i)))"
    and none: "\<And>j. j \<in> set all_boards \<Longrightarrow> j \<noteq> i \<Longrightarrow> grant_bytes j cs \<notin> set (inbox n j)"
    by (rule grant_taken [OF assms]) blast
  have f: "fresh i (inbox n i)" and mem: "in_node ?d" using n i by (simp_all add: tables_ok_def)
  show ?thesis
  proof (rule tables_ok_move [OF n i L, of ms])
    show "news ?d d = ms @ bus_messages (lk d2) (lk d)"
      using told_link_step [of d2 d] o by (simp add: news_def ms(1) only_lock_def)
    show "list_all turn_message ms" by (rule ms(2))
    show "in_node d"
      using hears_wf [OF mem _ run] grant_is_lock only_lock_listens [OF o l2] by (simp add: in_node_def)
    show "list_all (\<lambda>m. lock_message m \<or> turn_message m) q" "fresh i q"
      using n i q by (auto simp: tables_ok_def dest: bspec)
    have t: "node_table d = node_table d2" using only_lock_fields(2) [OF o] .
    have g: "heard_table (inbox n i) x = heard_table q x" for x
      using lock_message_no_table [OF grant_is_lock] by (simp add: q heard_table_def)
    have nq: "cs = routing_cs \<Longrightarrow> no_table q" using f by (simp add: q)
    show "heard_table ms (heard_table (inbox n i) (node_table ?d)) = heard_table q (node_table d)"
      using heard_none [OF nq] ms(3,4) by (cases "cs = routing_cs") (simp_all add: g t)
    fix j
    assume j: "j \<in> set all_boards" "j \<noteq> i" "list_all lock_message (bus_messages (lk d2) (lk d))"
    then have n2: "no_table (bus_messages (lk d2) (lk d))" using lock_message_no_table by (auto simp: list_all_iff)
    have fj: "fresh j (inbox n j)" using n j(1) by (simp add: tables_ok_def)
    show "fresh j (inbox n j @ ms @ bus_messages (lk d2) (lk d))"
    proof (cases "cs = routing_cs")
      case True
      have "grant_bytes j routing_cs \<notin> set ms"
        using ms(2) turn_not_lock grant_is_lock by (auto simp: list_all_iff)
      then show ?thesis using none [OF j(1,2)] True fresh_later fresh_none [OF n2] by blast
    next
      case False
      then show ?thesis using ms(4) fresh_more [OF fj n2] by simp
    qed
  qed
qed

lemma in_flight_lock:
  assumes "tables_ok n" "i \<in> set all_boards" "m \<in> set (inbox n i)" "lock_message m"
  shows "msg_ok (i, m)"
proof -
  have "locks (\<lambda>i. lock_of (members n i)) (\<lambda>i. filter lock_message (inbox n i))" using assms(1) by (simp add: tables_ok_def)
  from locks_facts(3) [OF this assms(2)] assms(3,4) show ?thesis by simp
qed

lemma hears_other_lock_message:
  assumes n: "tables_ok n" and i: "i \<in> set all_boards" and q: "inbox n i = m # q" "lock_message m" "\<not> grant_for i m"
    and run: "board_on_sibling_message m (members n i) = Some d"
  shows "tables_ok (pass i d (n\<lparr>inbox := (inbox n)(i := q)\<rparr>))"
proof -
  let ?B = "\<lambda>i. lock_of (members n i)" and ?Q = "\<lambda>i. filter lock_message (inbox n i)" and ?d = "members n i"
  have L: "locks ?B ?Q" and mem: "listens ?d" "in_node ?d" "sync_wf (sy ?d)" and f: "fresh i (inbox n i)"
    using n i by (simp_all add: tables_ok_def in_node_def board_wf_def rt_wf_def)
  have ori: "sync_orientation (sy ?d) = i" using locks_facts(1) [OF L i] by (simp add: board_ok_def)
  obtain raw where m: "m = component_byte RS_SYNC # raw" using q(2) by (auto simp: lock_message_iff)
  have "sync_on_sibling_message run_cs raw ?d = Some d" using run mem(1) by (simp add: m hear_lock_message)
  with no_grant_of [of ?d "component_byte RS_SYNC" raw run_cs] q(3)
  have s: "sync_on_sibling_message (\<lambda>_. Some) raw (lock_of ?d) = Some (lock_of d)"
    "sync_on_sibling_message (\<lambda>_. Some) raw ?d = Some d" by (simp_all add: ori m)
  have o: "only_lock ?d d" by (rule lock_alone.P_message [OF only_lock_refl [OF mem(3)] s(2)])
  have "?Q i = m # filter lock_message q" using q(1,2) by simp
  from locks_receive [OF L i this] s(1) q(3)
  have L': "locks (?B(i := lock_of d)) (sends i (filter lock_message q) (bus_messages (lk ?d) (lk d)) ?Q)"
    by (simp add: m ori)
  have msgs: "list_all (\<lambda>m. lock_message m \<or> turn_message m) q \<and> fresh i q"
    using n i q by (auto simp: tables_ok_def dest: bspec)
  show ?thesis
  proof (rule tables_ok_move [OF n i L', of "[]"])
    show "news ?d d = [] @ bus_messages (lk ?d) (lk d)"
      using told_link_step [of ?d d] o by (simp add: news_def only_lock_def)
    show "in_node d"
      using hears_wf [OF mem(2) _ run] q(2) only_lock_listens [OF o mem(1)] by (simp add: in_node_def)
    show "list_all (\<lambda>m. lock_message m \<or> turn_message m) q" "fresh i q" using msgs by simp_all
    show "heard_table [] (heard_table (inbox n i) (node_table ?d)) = heard_table q (node_table d)"
      using only_lock_fields(2) [OF o] lock_message_no_table [OF q(2)] by (simp add: q(1) heard_table_def)
    fix j
    assume j: "j \<in> set all_boards" "list_all lock_message (bus_messages (lk ?d) (lk d))"
    then have "fresh j (inbox n j)" "no_table (bus_messages (lk ?d) (lk d))"
      using n lock_message_no_table by (auto simp: tables_ok_def list_all_iff)
    then show "fresh j (inbox n j @ [] @ bus_messages (lk ?d) (lk d))" using fresh_more by simp
  qed simp
qed

lemma hears_turn_message:
  assumes n: "tables_ok n" and i: "i \<in> set all_boards" and q: "inbox n i = m # q" "turn_message m"
    and run: "board_on_sibling_message m (members n i) = Some d"
  shows "tables_ok (pass i d (n\<lparr>inbox := (inbox n)(i := q)\<rparr>))"
proof -
  let ?d = "members n i"
  have mem: "listens ?d" "in_node ?d" "sync_wf (sy ?d)" "table_wf (node_table ?d)" "rs_ok (rsh ?d)"
    using n i by (simp_all add: tables_ok_def in_node_def board_wf_def rt_wf_def)
  have q': "inbox n i = q \<or> (\<exists>m. inbox n i = m # q \<and> \<not> lock_message m)" using q turn_not_lock by blast
  note wf = hears_wf [OF mem(2) disjI2 [OF q(2)] run]
  from q(2) consider (event) raw where "m = component_byte RS_ROUTING # raw"
    | (table) t where "table_wf t" "m = component_byte RS_SHARED_STATE # component_byte RS_ROUTING # table_bytes 0 t"
    unfolding turn_message_def by blast
  then show ?thesis
  proof cases
    case event
    have "d = ?d \<or> rt_on_sibling_message raw ?d = Some d" using hear_event [OF mem(5)] run by (simp add: event)
    then obtain d1 where d1: "lock_kept ?d d1" "d = d1 \<or> sync_request_critical_section RS_ROUTING d1 = Some d"
      using queued_parts [of raw ?d d] lock_kept_calls(3) by blast
    note k = kept_request [OF d1 mem(3)]
    show ?thesis
      using quiet_step [OF n i _ _ _ _ d1(2) _ q', of "[]"] d1(1) wf k mem(1) table_message_simps(1) [of raw]
      by (simp add: lock_kept_def in_node_def q(1) event heard_table_def)
  next
    case table
    have d: "d = ?d\<lparr>node_table := t\<rparr>" using run hear_table [OF mem(1,4) table(1)] by (simp add: table(2))
    have "in_node d"
      using wf mem(1) by (simp add: in_node_def) (simp add: d listens_def watches_table_def)
    then show ?thesis
      using quiet_step [OF n i _ _ _ _ _ _ q', of d "[]" d] table_message_simps(2) [OF table(1)]
      by (simp add: d told_def q(1) table(2) heard_table_def)
  qed
qed

lemma grant_for_simps:
  "grant_for i (grant_bytes dst cs) \<longleftrightarrow> dst = i" "\<not> grant_for i (b # sync_msg_bytes (TokenRequest c))"
  unfolding grant_for_def grant_bytes_def list.sel sync_msg_roundtrip by simp_all

lemma tables_ok_hears:
  assumes n: "tables_ok n" and i: "i \<in> set all_boards" and q: "inbox n i = m # q"
    and run: "board_on_sibling_message m (members n i) = Some d"
  shows "tables_ok (pass i d (n\<lparr>inbox := (inbox n)(i := q)\<rparr>))"
proof (cases "lock_message m")
  case True
  then have ok: "msg_ok (i, m)" using in_flight_lock [OF n i, of m] q by simp
  show ?thesis
  proof (cases "grant_for i m")
    case True
    from ok consider (grant) cs dst where "cs < 7" "m = grant_bytes dst cs"
      | (request) cs where "m = component_byte RS_SYNC # sync_msg_bytes (TokenRequest (of_nat cs))"
      unfolding msg_ok_def snd_conv by blast
    then show ?thesis
    proof cases
      case grant
      then have "dst = i" using True grant_for_simps(1) by simp
      with grant hears_grant [OF n i] q run show ?thesis by simp
    next
      case request
      then show ?thesis using True grant_for_simps(2) by simp
    qed
  next
    case False
    show ?thesis by (rule hears_other_lock_message [OF n i q \<open>lock_message m\<close> False run])
  qed
next
  case False
  have "list_all (\<lambda>m. lock_message m \<or> turn_message m) (inbox n i)" using n i by (simp add: tables_ok_def)
  with False q have "turn_message m" by simp
  then show ?thesis by (rule hears_turn_message [OF n i q _ run])
qed

text \<open>A board that acts: what it does before it asks for the lock tells no table.\<close>

lemma tick_parts:
  assumes "ring_ok (env (lk d))"
  shows "\<exists>ms. told (rt_on_tick dt d) = told d @ ms \<and> (\<forall>m \<in> set ms. \<exists>raw. m = component_byte RS_ROUTING # raw)"
proof -
  have root: "told (set_root s d) = told d" for s by (simp add: told_def set_root_def upd_rt_def)
  have "told (snd (rt_broadcast (SiblNewGatewayWinner x 1) (set_root s d))) =
      told d @ [component_byte RS_ROUTING # sibl_event_bytes (SiblNewGatewayWinner x 1)]" for x s
    using rs_broadcast_told [of "lk d" "sibl_event_bytes (SiblNewGatewayWinner x 1)" RS_ROUTING] assms
      sibl_wire.length_enc [of "SiblNewGatewayWinner x 1"]
    by (simp add: told_def rt_broadcast_def board_broadcast_def case_prod_unfold Let_def set_root_def upd_rt_def
        SIZEOF_RT_EVENT_def)
  with root show ?thesis by (auto simp: rt_on_tick_def root_on_tick_def split: rt_role.splits)
qed

lemma keeps_lock_kept: "keeps_routing d d' \<Longrightarrow> lock_kept d d'"
  by (simp add: keeps_routing_def lock_kept_def told_def)

lemma starts_parts: "\<exists>d1. lock_kept d d1 \<and> rt_on_start d = sync_request_critical_section RS_ROUTING d1"
proof -
  have "lock_kept d (before_start d)"
    by (simp add: before_start_def lock_kept_def told_def upd_rt_def delay_ms_def vTaskDelay_ms_def rs_register_component_def)
  then show ?thesis using rt_on_start_split [of d] by blast
qed

lemma acts_parts:
  assumes "board_does d d'" "\<nexists>dt. d' = rt_on_tick dt d"
  shows "\<exists>d1. lock_kept d d1 \<and> (d' = d1 \<or> sync_request_critical_section RS_ROUTING d1 = Some d')"
  using assms(1)
proof cases
  case starts
  then show ?thesis using starts_parts [of d] by metis
next
  case (serves network msk)
  then show ?thesis using keeps_lock_kept [OF node_set_as_ap_keeps] by blast
next
  case joins
  then show ?thesis using keeps_lock_kept [OF node_set_as_sta_keeps] by blast
next
  case (peer_message raw)
  then have "d' = board_panic ''Invalid peer message received'' d \<or> queue_peer_message (peer_event_of_bytes raw) d = Some d'"
    by (auto simp: rt_on_peer_message_def split: if_splits)
  then show ?thesis using queued_parts [of _ d d'] lock_kept_calls(1) by blast
next
  case (peer_connected network msk)
  then show ?thesis using queued_parts [of _ d d'] unfolding rt_on_peer_connected_def by blast
next
  case (peer_lost network msk)
  then show ?thesis using queued_parts [of _ d d'] unfolding rt_on_peer_lost_def by blast
qed (use assms(2) in blast)

lemma acts_wf: "board_does d d' \<Longrightarrow> board_wf d \<Longrightarrow> board_wf d'"
proof (induction rule: board_does.induct)
  case (starts d d')
  show ?case by (rule on_start_wf [OF starts(2,1)])
next
  case (serves network msk d d')
  then show ?case using keeps_board [OF node_set_as_ap_keeps [of network msk d d']] by simp
next
  case (joins d d')
  then show ?case using keeps_board [OF node_set_as_sta_keeps [of d d']] by simp
next
  case (peer_message raw d d')
  then show ?case using peer_message_wf [of d raw d'] board_wf_keeps [of d d'] by (simp add: board_wf_def)
next
  case (peer_connected network msk d d')
  then show ?case using peer_event_wf(1) [of d network msk d'] board_wf_keeps [of d d'] by (simp add: board_wf_def)
next
  case (peer_lost network msk d d')
  then show ?case using peer_event_wf(2) [of d network msk d'] board_wf_keeps [of d d'] by (simp add: board_wf_def)
next
  case (time_passes d dt_ms)
  then show ?case using tick_wf(1) [of d dt_ms] tick_wf(2) [of dt_ms d] board_wf_keeps [of d "rt_on_tick dt_ms d"] by (simp add: board_wf_def)
qed

lemma tick_keeps:
  "sy (rt_on_tick dt d) = sy d" "env (lk (rt_on_tick dt d)) = env (lk d)" "node_table (rt_on_tick dt d) = node_table d"
  "ss (rt_on_tick dt d) = ss d" "rsh (rt_on_tick dt d) = rsh d"
proof -
  note o = only_link_rt_broadcast
  show "sy (rt_on_tick dt d) = sy d" "env (lk (rt_on_tick dt d)) = env (lk d)" "node_table (rt_on_tick dt d) = node_table d"
    "ss (rt_on_tick dt d) = ss d" "rsh (rt_on_tick dt d) = rsh d"
    by (simp_all add: rt_on_tick_def root_on_tick_def only_link_fields [OF o] only_link_env [OF o] set_root_def upd_rt_def
        split: rt_role.splits)
qed

lemma tables_ok_acts:
  assumes n: "tables_ok n" and i: "i \<in> set all_boards" and does: "board_does (members n i) d"
  shows "tables_ok (pass i d n)"
proof -
  let ?d = "members n i"
  have mem: "board_wf ?d" "listens ?d" "sync_wf (sy ?d)" "ring_ok (env (lk ?d))"
    using n i by (simp_all add: tables_ok_def in_node_def board_wf_def rt_wf_def listens_def)
  have same: "n\<lparr>inbox := (inbox n)(i := inbox n i)\<rparr> = n" by simp
  have wf: "board_wf d" by (rule acts_wf [OF does mem(1)])
  show ?thesis
  proof (cases "\<exists>dt. d = rt_on_tick dt ?d")
    case True
    then obtain dt where d: "d = rt_on_tick dt ?d" by blast
    obtain ms where ms: "told d = told ?d @ ms" "\<forall>m \<in> set ms. \<exists>raw. m = component_byte RS_ROUTING # raw"
      using tick_parts [OF mem(4)] unfolding d by blast
    have k: "sy d = sy ?d" "env (lk d) = env (lk ?d)" "node_table d = node_table ?d" "ss d = ss ?d" "rsh d = rsh ?d"
      by (rule tick_keeps [of dt ?d, folded d])+
    then have "in_node d" using wf mem(2) by (simp add: in_node_def listens_def watches_table_def)
    then show ?thesis using quiet_step [OF n i k(1,2) ms _ _ disjI1 [OF HOL.refl]] k(3) same by simp
  next
    case False
    then obtain d1 where d1: "lock_kept ?d d1" "d = d1 \<or> sync_request_critical_section RS_ROUTING d1 = Some d"
      using acts_parts [OF does] by blast
    note k = kept_request [OF d1 mem(3)]
    have "in_node d" using wf k(2) mem(2) by (simp add: in_node_def)
    then show ?thesis
      using quiet_step [OF n i _ _ _ _ d1(2) _ disjI1 [OF HOL.refl], of "[]"] d1(1) k(1) same by (simp add: lock_kept_def)
  qed
qed

lemma main_create_shares:
  "watches_table (main_create True True d)" "sections_named (sy (main_create True True d))"
  "env (lk (main_create True True d)) = env (lk d)"
  "sy (main_create True True d) = registered [(RS_ROUTING, Some RoutingOnCriticalSection)]
     (fst (snd (sync_init (rsh d) (node_orientation (nd d) + 1))))"
  by (simp_all add: main_create_def sync_init_def ss_init_def rt_create_def ss_watch_def watches_table_def
      sections_named_def sync_zero_def shared_state_zero_def node_set_routing_hook_def rt_init_root_def
      rt_init_home_def rt_init_forwarder_def create_root_core_def create_home_core_def create_forwarder_core_def
      set_root_def upd_rt_def sync_leader_init_def sync_follower_init_def sync_register_critical_section_def
      nth_list_update rs_consts registered_def ROUTING_ORIENTATION_OFFSET_def node_get_device_orientation_def Let_def)

lemma begins_ok:
  assumes "node_begins n"
  shows "tables_ok n"
proof -
  have b: "inbox n i = [] \<and> in_node (members n i) \<and> node_table (members n i) = routing_table_init ORIENTATION_CENTER \<and>
      reliable (env (lk (members n i))) \<and>
      sy (members n i) = registered [(RS_ROUTING, Some RoutingOnCriticalSection)] (fst (snd (sync_init (rsh s) i)))"
    if "i \<in> set all_boards" "inbox n i = []" "board_wf s" "ring_ok (env (lk s))" "node_orientation (nd s) + 1 = i"
      "members n i = main_create True True s" for i s
  proof -
    have len: "length (rs_components (rsh s)) = RS_MAX_COMPONENTS" using that(3) by (simp add: board_wf_def rt_wf_def rs_ok_def)
    have "listens (members n i)"
      using main_create_shares [of s] main_create_roles(6) [OF len] that(4) by (auto simp: listens_def that(6))
    then show ?thesis
      using main_create_shares(3,4) [of s] main_create_roles(2) [OF len] main_create_wf [OF that(3)] that
      by (simp add: in_node_def ring_ok_def)
  qed
  let ?s = "\<lparr>boards = (\<lambda>i. lock_of (members n i)), busy = (\<lambda>_. None), flight = []\<rparr>"
  have "node_start reliable ?s"
    using assms b unfolding node_start_def node_begins_def by fastforce
  then have "reachable reliable ?s" by (rule reachable.start)
  moreover have "filter lock_message (inbox n i) = post i []" if "i \<in> set all_boards" for i
    using assms that by (simp add: node_begins_def post_def)
  ultimately have "locks (\<lambda>i. lock_of (members n i)) (\<lambda>i. filter lock_message (inbox n i))"
    unfolding locks_def by (intro exI [of _ ?s]) simp
  then show ?thesis using assms b unfolding tables_ok_def node_begins_def by fastforce
qed

lemma goes_ok: "node_goes n n' \<Longrightarrow> tables_ok n \<Longrightarrow> tables_ok n'"
  by (induction rule: node_goes.induct) (blast intro: tables_ok_acts tables_ok_hears)+

section \<open>Property\<close>

text \<open>
  Property C7 (lock, shared table and routing together): no change of the routing table is lost. In a
  node of five boards, started by the program on a ring that takes every frame and brings every
  notice in time, each board works off the messages of its siblings in the order in which they were
  broadcast, while the others act, get events from their peers and broadcast themselves. At any time
  all boards are on the way to one table: whoever hears what is in its inbox ends with it, whatever
  the boards hold now. And a board that is about to enter the critical section holds it already: what
  it adds or removes is applied to the newest table. The order is that of the ring, where a broadcast
  waits until its frame has come round.
\<close>

theorem no_table_change_is_lost:
  assumes "node_begins n0" "node_goes\<^sup>*\<^sup>* n0 n"
  shows "\<exists>t. \<forall>i \<in> set all_boards. heard_table (inbox n i) (node_table (members n i)) = t \<and>
    (\<forall>q. inbox n i = grant_bytes i routing_cs # q \<longrightarrow> node_table (members n i) = t)"
proof -
  have ok: "tables_ok n"
    using assms(2,1) by (induction rule: rtranclp_induct) (auto intro: begins_ok goes_ok)
  then obtain t where t: "\<forall>i \<in> set all_boards. heard_table (inbox n i) (node_table (members n i)) = t"
    unfolding tables_ok_def by blast
  have "node_table (members n i) = t" if i: "i \<in> set all_boards" and q: "inbox n i = grant_bytes i routing_cs # q" for i q
  proof -
    have "no_table q" using ok i q by (auto simp: tables_ok_def dest!: bspec)
    then have "no_table (inbox n i)" using lock_message_no_table [OF grant_is_lock] by (simp add: q)
    then show ?thesis using heard_none t i by metis
  qed
  with t show ?thesis by blast
qed

text \<open>Five boards of a root that have just been created, with their interfaces; the center starts first.\<close>

definition wide_env :: environment where
  "wide_env = quiet_env\<lparr>env_spi_buffer_size := 512\<rparr>"

definition new_board :: "u8 \<Rightarrow> board" where
  "new_board i = (board_start wide_env)\<lparr>rsh := ring_share_zero,
     nd := (nd (board_start wide_env))\<lparr>node_orientation := i - 1, node_is_center_root := True,
       node_subnet := ROOT_NETWORK, node_mask := ROOT_MASK\<rparr>,
     dev := device_start\<lparr>dev_mode := AP, dev_ap := ap_zero\<lparr>ap_netif := True, ap_subnet := 1\<rparr>\<rparr>,
     nif := netifs_zero\<lparr>ring_link_tx_netif := Some fresh_netif\<rparr>\<rparr>"

definition new_node :: board_node where
  "new_node = \<lparr>members = (\<lambda>i. main_create True True (new_board i)), inbox = (\<lambda>_. [])\<rparr>"

lemma new_node_begins: "node_begins new_node"
proof -
  have "board_wf (new_board i)" if "i \<in> set all_boards" for i
  proof -
    have "unat (i - 1) < 5" using that by (auto simp: all_boards_def)
    then show ?thesis
      using board_start_wf [of wide_env] rs_ok_zero(1)
      by (simp add: new_board_def board_wf_def rt_wf_def names_ok_def messages_ok_def)
  qed
  moreover have "env (lk (new_board i)) = wide_env" for i
    by (simp add: new_board_def board_start_def hk_sys.extend_def hook_start_defs link_init_def)
  then have "ring_ok (env (lk (new_board i)))" for i
    by (simp add: ring_ok_def reliable_def wide_env_def quiet_env_def ring_link_netif_mtu_def)
  moreover have "node_orientation (nd (new_board i)) + 1 = i" for i by (simp add: new_board_def)
  ultimately show ?thesis unfolding node_begins_def by (simp add: new_node_def) blast
qed

text \<open>The center gives the token of its own request to the first board.\<close>

lemma center_starts:
  "\<exists>d. rt_on_start (members new_node 5) = Some d \<and> news (members new_node 5) d = [grant_bytes 1 routing_cs]"
proof -
  let ?d = "members new_node 5"
  have c: "(5 :: u8) \<in> set all_boards" by (simp add: all_boards_def)
  obtain d1 where d1: "lock_kept ?d d1" and start: "rt_on_start ?d = sync_request_critical_section RS_ROUTING d1"
    using starts_parts by blast
  have "locks (\<lambda>i. lock_of (members new_node i)) (\<lambda>i. filter lock_message (inbox new_node i))"
    using begins_ok [OF new_node_begins] by (simp add: tables_ok_def)
  from locks_facts(1) [OF this c] d1 have ok: "board_ok ORIENTATION_CENTER (lock_of d1)"
    by (simp add: board_ok_def lock_kept_def orientations)
  have "leader_view (lock_of d1) routing_cs = (False, 0)"
    using d1 main_create_shares(4) [of "new_board 5"]
    by (simp add: lock_kept_def new_node_def leader_view_def registered_def sync_init_def sync_zero_def
        sync_leader_init_def sync_register_critical_section_def new_board_def orientations rs_consts)
  then obtain l where l: "leader_request_critical_section routing_cs (lock_of d1) = Some l"
      "bus_messages (lk d1) (lk l) = [grant_bytes 1 routing_cs]"
    using leader_request_effect [OF ok, of routing_cs] by (auto simp: orientations rs_consts)
  have "sync_request_critical_section RS_ROUTING (lock_of d1) = Some l"
    using ok l(1) by (simp add: sync_request_critical_section_def board_ok_def)
  then obtain d where d: "sync_request_critical_section RS_ROUTING d1 = Some d" "l = lock_of d"
    by (auto simp: request_of)
  have "link_step (lk d1) (lk d)"
    using request_only_lock [OF _ d(1)] ok by (simp add: only_lock_def board_ok_def)
  from told_link_step [OF this] d1 have "told d = told ?d @ [grant_bytes 1 routing_cs]"
    using l(2) by (simp add: d(2) lock_kept_def)
  with start d(1) show ?thesis by (simp add: news_def)
qed

theorem no_table_change_is_lost_witness:
  "\<exists>n. node_goes new_node n \<and> inbox n 1 = [grant_bytes 1 routing_cs] \<and>
     node_table (members n 1) = heard_table (inbox n 2) (node_table (members n 2))"
proof -
  obtain d where d: "rt_on_start (members new_node 5) = Some d" "news (members new_node 5) d = [grant_bytes 1 routing_cs]"
    using center_starts by blast
  let ?n = "pass 5 d new_node"
  have b: "(5 :: u8) \<in> set all_boards" "(1 :: u8) \<in> set all_boards" "(2 :: u8) \<in> set all_boards"
    by (simp_all add: all_boards_def)
  have step: "node_goes new_node ?n" by (rule acts [OF b(1) starts [OF d(1)]])
  have q: "inbox ?n 1 = [grant_bytes 1 routing_cs]" using d(2) by (simp add: pass_def new_node_def)
  have "node_goes\<^sup>*\<^sup>* new_node ?n" by (rule r_into_rtranclp) (rule step)
  from no_table_change_is_lost [OF new_node_begins this] q b(2,3)
  have "node_table (members ?n 1) = heard_table (inbox ?n 2) (node_table (members ?n 2))" by metis
  with step q show ?thesis by blast
qed

end
