(* ===== verification/Node_Traffic.thy ===== *)
theory Node_Traffic
  imports Node_Tables
begin

text \<open>
  The tables of a node and its packets together: what a board does and hears leaves its place in the
  node and the hook that was selected for it alone, so that once no table is on its way all boards
  send a packet to the same board.
\<close>

section \<open>The place of a board\<close>

definition same_place :: "'a hk_sys_scheme \<Rightarrow> 'b hk_sys_scheme \<Rightarrow> bool" where
  "same_place d d' \<longleftrightarrow> rt_orientation (rt d') = rt_orientation (rt d) \<and> hk d' = hk d"

lemma section_orientation: "on_critical_section d = Some d' \<Longrightarrow> rt_orientation (rt d') = rt_orientation (rt d)"
  using critical_section_queues [of d d'] by (auto simp: queues_def split: if_splits)

text \<open>The lock keeps the place of a board, with the routing in the critical section.\<close>

interpretation place_lock: lock_client "\<lambda>d. rt_wf d \<and> rt_orientation (rt d) = o'" run_cs for o'
proof unfold_locales
  fix d d' :: "'a rt_sys_scheme" and cb
  assume "rt_wf d \<and> rt_orientation (rt d) = o'" "run_cs cb d = Some d'"
  then show "rt_wf d' \<and> rt_orientation (rt d') = o'"
    using critical_section_wf [of d d'] section_orientation [of d d'] by (cases cb) (simp add: run_cs_def)
qed (simp_all add: rt_wf_def names_ok_def lock_calls)

lemma request_orientation:
  "rt_wf d \<Longrightarrow> sync_request_critical_section c d = Some d' \<Longrightarrow> rt_orientation (rt d') = rt_orientation (rt d)"
  using place_lock.P_request [of d "rt_orientation (rt d)" c d'] by simp

lemma queue_event_orientation:
  assumes "rt_wf d"
  shows "rt_on_sibling_message raw d = Some d' \<Longrightarrow> rt_orientation (rt d') = rt_orientation (rt d)"
    and "peer_event_ok e \<Longrightarrow> queue_peer_message e d = Some d' \<Longrightarrow> rt_orientation (rt d') = rt_orientation (rt d)"
proof -
  have u: "rt_orientation (rt (upd_rt (\<lambda>r. r\<lparr>internal_queue := q\<rparr>) d)) = rt_orientation (rt d)"
    "rt_orientation (rt (upd_rt (\<lambda>r. r\<lparr>external_queue := q'\<rparr>) d)) = rt_orientation (rt d)"
    "rt_orientation (rt (board_panic m d)) = rt_orientation (rt d)" for q q' m
    by (simp_all add: upd_rt_def board_panic_def)
  show "rt_orientation (rt d') = rt_orientation (rt d)" if "rt_on_sibling_message raw d = Some d'"
    using that request_orientation [OF queue_events_wf(1) [OF assms decoded_ok(1)]] u
    by (fastforce simp: rt_on_sibling_message_def rt_consts upd_rt_def split: if_splits)
  show "rt_orientation (rt d') = rt_orientation (rt d)" if "peer_event_ok e" "queue_peer_message e d = Some d'"
    using that request_orientation [OF queue_events_wf(2) [OF assms that(1)]] u
    by (fastforce simp: queue_peer_message_def rt_consts upd_rt_def split: if_splits)
qed

lemma callback_orientation:
  assumes "rt_wf d" "component_callback cb msg d = Some d'"
  shows "rt_orientation (rt d') = rt_orientation (rt d)"
proof (cases cb)
  case SyncOnSibling
  with assms place_lock.P_message [of d "rt_orientation (rt d)" msg d'] show ?thesis
    by (simp add: component_callback_def)
next
  case RoutingOnSibling
  with assms queue_event_orientation(1) [of d msg d'] show ?thesis by (simp add: component_callback_def)
next
  case SharedStateOnSibling
  with assms(2) show ?thesis
    by (auto simp: component_callback_def ss_on_sibling_message_def ss_poke_def board_panic_def Let_def
        split: list.splits if_splits option.splits)
next
  case ChannelManagerOnSibling
  with assms(2) show ?thesis
    by (auto simp: component_callback_def node_on_channel_message_def Let_def node_disable_sta_def
        device_disable_station_def station_disconnect_def board_updates split: Option.bind_splits)
qed (use assms(2) in \<open>auto simp: component_callback_def split: prod.splits\<close>)

lemma more_hook:
  assumes "im_sys.more d' = im_sys.more (d :: 'a hk_sys_scheme)"
  shows "hk d' = hk d"
  using assms by (cases d; cases d'; simp)

lemma hears_place:
  fixes d :: board
  assumes "in_node d" "lock_message m \<or> turn_message m" "board_on_sibling_message m d = Some d'"
  shows "same_place d d'"
proof -
  have wf: "rt_wf d" "im_ok (im d)" using assms(1) by (simp_all add: in_node_def board_wf_def)
  have "im_sys.more d' = im_sys.more d"
    using board_message_wf [OF wf _ assms(3)] node_messages_ok [OF assms(2)] by blast
  moreover have "rt_orientation (rt d') = rt_orientation (rt d)"
  proof -
    obtain call l where r: "rs_on_sibling_message (rsh d) m (lk d) = (call, l)"
      by (cases "rs_on_sibling_message (rsh d) m (lk d)")
    show ?thesis
    proof (cases call)
      case None
      with assms(3) r have "d' = d\<lparr>lk := l\<rparr>" by (simp add: board_on_sibling_message_def)
      then show ?thesis by simp
    next
      case (Some c)
      obtain cb bytes where "c = (cb, bytes)" by (cases c)
      with Some assms(3) r have "component_callback cb bytes (d\<lparr>lk := l\<rparr>) = Some d'"
        by (simp add: board_on_sibling_message_def)
      from callback_orientation [OF _ this] wf(1) show ?thesis by simp
    qed
  qed
  ultimately show ?thesis using more_hook [of d' d] by (simp add: same_place_def)
qed

lemma rt_more_hook:
  assumes "rt_sys.more d' = rt_sys.more (d :: 'a hk_sys_scheme)"
  shows "hk d' = hk d"
  using assms by (cases d; cases d'; simp)

lemma keeps_place: "keeps_routing d d' \<Longrightarrow> same_place d d'"
  using rt_more_hook [of d' d] by (simp add: keeps_routing_def same_place_def)

lemma acts_place:
  assumes "board_does d d'" "board_wf d"
  shows "same_place d d'"
  using assms
proof (induction rule: board_does.induct)
  case (starts d d')
  then have wf: "rt_wf d" by (simp add: board_wf_def)
  from starts(1) request_orientation [OF before_start_wf [OF wf], of RS_ROUTING d'] show ?case
    using on_start_keeps [OF wf starts(1)] rt_more_hook [of d' d] by (simp add: same_place_def rt_on_start_split)
next
  case (serves network msk d d')
  then show ?case using keeps_place [OF node_set_as_ap_keeps] by blast
next
  case (joins d d')
  then show ?case using keeps_place [OF node_set_as_sta_keeps] by blast
next
  case (peer_message raw d d')
  have wf: "rt_wf d" using peer_message(2) by (simp add: board_wf_def)
  have "rt_orientation (rt d') = rt_orientation (rt d)"
    using peer_message(1) queue_event_orientation(2) [OF wf decoded_ok(2), of raw d']
    by (auto simp: rt_on_peer_message_def board_panic_def split: if_splits)
  then show ?case using peer_message_wf [OF wf peer_message(1)] rt_more_hook [of d' d] by (simp add: same_place_def)
next
  case (peer_connected network msk d d')
  have wf: "rt_wf d" using peer_connected(2) by (simp add: board_wf_def)
  show ?case
    using peer_connected(1) queue_event_orientation(2) [OF wf, of "PeerConnected (NETWORK network msk)" d']
      peer_event_wf(1) [OF wf peer_connected(1)] rt_more_hook [of d' d]
    by (simp add: same_place_def rt_on_peer_connected_def)
next
  case (peer_lost network msk d d')
  have wf: "rt_wf d" using peer_lost(2) by (simp add: board_wf_def)
  show ?case
    using peer_lost(1) queue_event_orientation(2) [OF wf, of "PeerLost (NETWORK network msk)" d']
      peer_event_wf(2) [OF wf peer_lost(1)] rt_more_hook [of d' d]
    by (simp add: same_place_def rt_on_peer_lost_def)
next
  case (time_passes d dt)
  have "rt_orientation (rt (rt_on_tick dt d)) = rt_orientation (rt d)"
    using only_link_rt_broadcast
    by (auto simp: rt_on_tick_def root_on_tick_def set_root_def upd_rt_def only_link_fields split: rt_role.splits)
  then show ?case
    using tick_wf(2) [of dt d] rt_more_hook [of "rt_on_tick dt d" d] by (simp add: same_place_def)
qed

section \<open>A settled node\<close>

lemma goes_place:
  assumes "node_goes n n'" "tables_ok n"
  shows "same_place (members n i) (members n' i)"
  using assms
proof cases
  case (acts j d)
  then show ?thesis using acts_place [OF acts(3)] assms(2)
    by (simp add: pass_def tables_ok_def in_node_def) (simp add: same_place_def)
next
  case (hears j m q d)
  then have "in_node (members n j)" "lock_message m \<or> turn_message m"
    using assms(2) by (auto simp: tables_ok_def)
  from hears_place [OF this hears(4)] hears(1) show ?thesis
    by (simp add: pass_def) (simp add: same_place_def)
qed

lemma node_places:
  assumes "node_begins n0" "node_goes\<^sup>*\<^sup>* n0 n" and i: "i \<in> set all_boards"
  shows "rt_orientation (rt (members n i)) = i"
    and "i \<noteq> ORIENTATION_CENTER \<Longrightarrow> selected_routing_hook (hk (members n i)) = HookForwarder"
    and "selected_routing_hook (hk (members n ORIENTATION_CENTER)) \<in> {HookRootCenter, HookHome}"
proof -
  have run: "tables_ok n \<and> same_place (members n0 j) (members n j)" for j
    using assms(2)
  proof (induction rule: rtranclp_induct)
    case base
    then show ?case using begins_ok [OF assms(1)] by (simp add: same_place_def)
  next
    case (step n1 n2)
    then show ?case using goes_ok goes_place [of n1 n2 j] by (auto simp: same_place_def)
  qed
  have start: "rt_orientation (rt (members n0 j)) = j \<and> (\<exists>root. selected_routing_hook (hk (members n0 j)) = hook_of (j - 1) root)"
    if j: "j \<in> set all_boards" for j
  proof -
    obtain s where s: "board_wf s" "node_orientation (nd s) + 1 = j" "members n0 j = main_create True True s"
      using bspec [OF assms(1) [unfolded node_begins_def] j] by blast
    have len: "length (rs_components (rsh s)) = RS_MAX_COMPONENTS"
      using s(1) by (simp add: board_wf_def rt_wf_def rs_ok_def)
    have o: "node_orientation (nd s) = j - 1" using s(2) by (metis add_diff_cancel_right')
    have "rt_orientation (rt (members n0 j)) = j" by (simp add: s(3) main_create_roles(1) [OF len] o)
    moreover have "selected_routing_hook (hk (members n0 j)) = hook_of (j - 1) (node_is_center_root (nd s))"
      by (simp add: s(3) main_create_roles(5) [OF len] o)
    ultimately show ?thesis by blast
  qed
  show "rt_orientation (rt (members n i)) = i" using run [of i] start [OF i] by (simp add: same_place_def)
  show "selected_routing_hook (hk (members n i)) = HookForwarder" if "i \<noteq> ORIENTATION_CENTER"
    using run [of i] start [OF i] that i
    by (auto simp: same_place_def hook_of_def all_boards_def orientations NODE_DEVICE_ORIENTATION_CENTER_def)
  show "selected_routing_hook (hk (members n ORIENTATION_CENTER)) \<in> {HookRootCenter, HookHome}"
    using run [of ORIENTATION_CENTER] start [OF center_board]
    by (auto simp: same_place_def hook_of_def orientations NODE_DEVICE_ORIENTATION_CENTER_def split: if_splits)
qed

text \<open>
  The center asks its own network and not its table: a home keeps the addresses of its network, a
  root those outside of it. It agrees with its table when the table gives it the same addresses.
\<close>

definition center_keeps :: "u32 \<Rightarrow> 'a hk_sys_scheme \<Rightarrow> bool" where
  "center_keeps dst d \<longleftrightarrow>
     (if selected_routing_hook (hk d) = HookHome then node_is_packet_for_this_subnet dst d
      else node_is_point_to_point_message dst d \<or> \<not> node_is_packet_for_this_subnet dst d)"

definition center_agrees :: "u32 \<Rightarrow> 'a hk_sys_scheme \<Rightarrow> bool" where
  "center_agrees dst d \<longleftrightarrow>
     (center_keeps dst d \<longleftrightarrow> routing_table_route (node_table d) dst = ORIENTATION_CENTER)"

lemma center_choice:
  assumes "netifs_ready d" "selected_routing_hook (hk d) \<in> {HookRootCenter, HookHome}"
  shows "node_do_routing impl user src dst d = (if center_keeps dst d then WifiNetif else SpiNetif)"
  using assms by (auto simp: center_keeps_def hook_defs netifs_ready_def)

lemma outer_choice:
  assumes "netifs_ready d" "selected_routing_hook (hk d) = HookForwarder" "\<not> node_is_point_to_point_message dst d"
  shows "node_do_routing impl user src dst d =
    (if routing_table_route (node_table d) dst = rt_orientation (rt d) then WifiNetif else SpiNetif)"
  by (rule routes_by_table_choice) (use assms in \<open>simp add: routes_by_table_def\<close>)

text \<open>
  Property C9 (lock, shared table, routing and hooks together): in a node of five boards, started by
  the program on a ring that takes every frame and brings every notice in time, whatever has
  happened before, once no routing table is on its way to a board: where the center agrees with its
  table about an address, a packet for it leaves the ring, from every board it enters, at the same
  board, the output that the table of the center gives for it, after fewer links than there are
  boards, in whatever order the boards sit on the ring. Where the table gives the center, or no board,
  and the center sends the address back to the ring, no board takes the packet off the ring or drops
  it: after any number of links it is at the board that many places further on. Every board must
  have its interfaces, and the outer boards no link to the address itself.
\<close>

theorem settled_node_carries:
  assumes "node_begins n0" "node_goes\<^sup>*\<^sup>* n0 n" and "\<forall>i \<in> set all_boards. no_table (inbox n i)"
    and "\<forall>i \<in> set all_boards. netifs_ready (members n i) \<and>
      (i \<noteq> ORIENTATION_CENTER \<longrightarrow> \<not> node_is_point_to_point_message dst (members n i))"
    and "set ring = set all_boards" "distinct ring" "i < length ring"
    and "center = members n ORIENTATION_CENTER" "out = routing_table_route (node_table center) dst"
  shows "(center_agrees dst center \<longrightarrow> (\<forall>j < length ring. ring ! j = out \<longrightarrow>
      ring_walk (node_do_routing impl user src dst) (length ring) (map (members n) ring) i = LeavesAt j)) \<and>
    (\<not> center_keeps dst center \<and> (out = ORIENTATION_CENTER \<or> out \<notin> set all_boards) \<longrightarrow>
      (\<forall>k. ring_walk (node_do_routing impl user src dst) k (map (members n) ring) i = OnRing ((i + k) mod length ring)))"
proof -
  note place = node_places [OF assms(1,2)]
  have "tables_ok n" using assms(2,1) by (induction rule: rtranclp_induct) (auto intro: begins_ok goes_ok)
  then obtain t where t: "\<And>i. i \<in> set all_boards \<Longrightarrow> node_table (members n i) = t"
    using assms(3) heard_none unfolding tables_ok_def by metis
  have out: "out = routing_table_route t dst" using t [OF center_board] assms(8,9) by simp
  have outer: "node_do_routing impl user src dst (members n m) = (if out = m then WifiNetif else SpiNetif)"
    if "m \<in> set all_boards" "m \<noteq> ORIENTATION_CENTER" for m
    using outer_choice [of "members n m" dst] assms(4) that place(1,2) [OF that(1)] t [OF that(1)] out by simp
  have center: "node_do_routing impl user src dst (members n ORIENTATION_CENTER) =
      (if center_keeps dst center then WifiNetif else SpiNetif)"
    unfolding assms(8) by (rule center_choice) (use assms(4) center_board place(3) [OF center_board] in simp_all)
  have O: "rt_orientation (rt (members n m)) = m" if "m \<in> set all_boards" for m using place(1) [OF that] .
  let ?bs = "map (members n) ring"
  have ori: "map (\<lambda>d. rt_orientation (rt d)) ?bs = ring"
    unfolding map_map by (rule map_idI) (use O assms(5) in simp)
  have "ring_walk (node_do_routing impl user src dst) (length ring) ?bs i = LeavesAt j"
    if "center_agrees dst center" "j < length ring" "ring ! j = out" for j
  proof -
    have "center_keeps dst center \<longleftrightarrow> out = ORIENTATION_CENTER" using that(1) assms(9) by (simp add: center_agrees_def)
    then have "\<forall>d \<in> set ?bs. node_do_routing impl user src dst d = (if out = rt_orientation (rt d) then WifiNetif else SpiNetif)"
      using outer center O assms(5) by (metis (no_types, lifting) imageE list.set_map)
    from ring_walk_by_output(1) [OF this, unfolded ori length_map, OF assms(6,7) that(2)]
    show ?thesis using that O assms(5) by (metis nth_map nth_mem)
  qed
  moreover have "ring_walk (node_do_routing impl user src dst) k ?bs i = OnRing ((i + k) mod length ring)"
    if "\<not> center_keeps dst center" "out = ORIENTATION_CENTER \<or> out \<notin> set all_boards" for k
  proof -
    have "\<forall>d \<in> set ?bs. node_do_routing impl user src dst d = SpiNetif"
      using outer center that assms(5) by (metis (no_types, lifting) imageE list.set_map)
    from ring_walk_none [OF this, of i k] show ?thesis using assms(7) by simp
  qed
  ultimately show ?thesis by blast
qed

theorem settled_node_carries_witness:
  "ring_walk (node_do_routing True (\<lambda>_ _. NullNetif) 0 0x08080808) 5 (map (members new_node) [4, 3, 2, 1, 5]) 1 =
     LeavesAt 4 \<and>
   ring_walk (node_do_routing True (\<lambda>_ _. NullNetif) 0 0x0A123456) 99 (map (members new_node) [4, 3, 2, 1, 5]) 1 =
     OnRing 0"
proof -
  let ?c = "members new_node ORIENTATION_CENTER"
  have m: "members new_node i = main_create True True (new_board i)" for i by (simp add: new_node_def)
  have fields: "dev (main_create True True d) = dev d \<and> nif (main_create True True d) = nif d \<and>
      nd (main_create True True d) = nd d" for d :: board
    by (simp add: main_create_def sync_init_def ss_init_def rt_create_def ss_watch_def node_set_routing_hook_def
        rt_init_root_def rt_init_home_def rt_init_forwarder_def create_root_core_def create_home_core_def
        create_forwarder_core_def set_root_def upd_rt_def Let_def)
  have ready: "netifs_ready (members new_node i) \<and> \<not> node_is_point_to_point_message dst (members new_node i)"
    if "dst \<in> {0x08080808, 0x0A123456}" for i dst
    using that
    by (auto simp: m netifs_ready_def node_get_wifi_netif_def node_get_spi_netif_def fields new_board_def
        device_get_netif_def get_ring_link_tx_netif_def node_is_point_to_point_message_def
        device_is_point_to_point_message_def device_start_def ap_zero_def netifs_zero_def)
  have len: "length (rs_components (rsh (new_board 5))) = RS_MAX_COMPONENTS"
    by (simp add: new_board_def ring_share_zero_def)
  have out: "routing_table_route (node_table ?c) 0x08080808 = ORIENTATION_CENTER"
    "routing_table_route (node_table ?c) 0x0A123456 = ORIENTATION_CENTER"
    using main_create_roles(2) [OF len] by (simp_all add: m orientations) code_simp+
  have "node_orientation (nd (new_board 5)) = NODE_DEVICE_ORIENTATION_CENTER" "node_is_center_root (nd (new_board 5))"
    by (simp_all add: new_board_def NODE_DEVICE_ORIENTATION_CENTER_def)
  then have "selected_routing_hook (hk ?c) = HookRootCenter"
    using main_create_roles(5) [OF len] by (simp add: m orientations hook_of_def)
  moreover have "\<not> node_is_packet_for_this_subnet 0x08080808 ?c" "node_is_packet_for_this_subnet 0x0A123456 ?c"
    by (simp_all add: m fields orientations node_is_packet_for_this_subnet_def new_board_def ROOT_NETWORK_def ROOT_MASK_def)
  moreover have "\<not> node_is_point_to_point_message 0x0A123456 ?c" using ready by simp
  ultimately have center: "center_agrees 0x08080808 ?c" "\<not> center_keeps 0x0A123456 ?c"
    using out by (simp_all add: center_agrees_def center_keeps_def)
  have quiet: "\<forall>i \<in> set all_boards. no_table (inbox new_node i)" by (simp add: new_node_def)
  have ring: "set [4, 3, 2, 1, 5] = set all_boards" "[4, 3, 2, 1, 5 :: u8] ! 4 = ORIENTATION_CENTER"
    by (auto simp: all_boards_def orientations)
  have five: "Suc (Suc (Suc (Suc (Suc 0)))) = 5" by simp
  have all_ready: "\<forall>i \<in> set all_boards. netifs_ready (members new_node i) \<and>
      (i \<noteq> ORIENTATION_CENTER \<longrightarrow> \<not> node_is_point_to_point_message dst (members new_node i))"
    if "dst \<in> {0x08080808, 0x0A123456}" for dst
    using ready [OF that] by blast
  note carries = settled_node_carries [OF new_node_begins rtranclp.rtrancl_refl quiet all_ready ring(1) _ _ HOL.refl HOL.refl,
      of _ 1 True "\<lambda>_ _. NullNetif" 0]
  have "ring_walk (node_do_routing True (\<lambda>_ _. NullNetif) 0 0x08080808) 5 (map (members new_node) [4, 3, 2, 1, 5]) 1 =
      LeavesAt 4"
    using carries [of "0x08080808", THEN conjunct1, THEN mp, THEN spec, of 4] center(1) ring(2) out(1)
    by (simp add: five del: ring_walk.simps list.map)
  moreover have "ring_walk (node_do_routing True (\<lambda>_ _. NullNetif) 0 0x0A123456) 99 (map (members new_node) [4, 3, 2, 1, 5]) 1 =
      OnRing 0"
    using carries [of "0x0A123456", THEN conjunct2, THEN mp, THEN spec, of 99] center(2) out(2)
    by (simp del: ring_walk.simps list.map)
  ultimately show ?thesis ..
qed

end
