(* ===== verification/Table_Log.thy ===== *)
theory Table_Log
  imports Info_Manager
begin

text \<open>
  What a board writes to its log: \<open>os_log\<close> with its array of 512 bytes
  (\<open>routing/os\<close>) and the routing table line by line (\<open>routing_table_show\<close>,
  \<open>node_print_routing_table\<close>), each line through an array of 30 bytes. No line is cut,
  and the log determines the routes of the table. A text is the bytes before the zero byte that ends
  it.
\<close>

section \<open>The log\<close>

datatype os_log_level = OS_LOG_LEVEL_INFO | OS_LOG_LEVEL_WARNING | OS_LOG_LEVEL_ERROR | OS_LOG_LEVEL_CRITICAL

datatype esp_log = ESP_LOGI | ESP_LOGW | ESP_LOGE

definition LOG_MESSAGE_BUFFER_SIZE :: nat where "LOG_MESSAGE_BUFFER_SIZE = 512"

text \<open>The text that \<open>snprintf\<close> leaves in an array of \<open>n\<close> bytes.\<close>

definition printed :: "nat \<Rightarrow> byte list \<Rightarrow> byte list" where
  "printed n s = take (n - 1) s"

type_synonym log_line = "esp_log \<times> string \<times> byte list"

definition os_log :: "os_log_level \<Rightarrow> string \<Rightarrow> byte list \<Rightarrow> log_line" where
  "os_log level tag s =
     (let buffer = printed LOG_MESSAGE_BUFFER_SIZE s
      in case level of
           OS_LOG_LEVEL_INFO \<Rightarrow> (ESP_LOGI, tag, buffer)
         | OS_LOG_LEVEL_WARNING \<Rightarrow> (ESP_LOGW, tag, buffer)
         | OS_LOG_LEVEL_ERROR \<Rightarrow> (ESP_LOGE, tag, buffer)
         | OS_LOG_LEVEL_CRITICAL \<Rightarrow> (ESP_LOGE, tag, buffer))"

section \<open>The routing table\<close>

definition route_text :: "rt_routing_entry \<Rightarrow> byte list" where
  "route_text e = chars '' '' @ dotted (re_network e) @ chars ''/'' @ dec_digits (unat (mask_size (re_mask e))) @
     chars '' -> '' @ dec_digits (unat (re_output e))"

definition table_texts :: "rt_routing_table \<Rightarrow> byte list list" where
  "table_texts t =
     [chars ''========= ROUTING TABLE =========='',
      chars ''                default gateway: '' @ dec_digits (unat (default_gateway t))] @
     map (\<lambda>e. printed 30 (route_text e)) (used t) @
     [chars ''=================================='']"

definition routing_table_show :: "rt_routing_table \<Rightarrow> log_line list" where
  "routing_table_show t = map (os_log OS_LOG_LEVEL_INFO ''routing'') (table_texts t)"

definition node_print_routing_table :: "'a ss_sys_scheme \<Rightarrow> log_line list" where
  "node_print_routing_table d = routing_table_show (node_table d)"

section \<open>No line is cut\<close>

lemma dec_size_length: "m \<le> 32 \<Longrightarrow> length (dec_digits m) \<le> 2"
  using dec_digits_length [of m 1] by simp

lemma mask_size_le: "unat (mask_size m) \<le> 32"
  using mask_size_total [of m] by (simp add: word_le_nat_alt)

lemma route_text_length: "length (route_text e) \<le> 26"
  using dotted_length [of "re_network e"] dec_size_length [OF mask_size_le, of "re_mask e"] dec_u8_length [of "re_output e"]
  by (simp add: route_text_def chars_def)

lemma route_text_printed: "printed 30 (route_text e) = route_text e"
  using route_text_length [of e] by (simp add: printed_def)

lemma os_log_whole: "length s < LOG_MESSAGE_BUFFER_SIZE \<Longrightarrow> snd (snd (os_log level tag s)) = s"
  by (simp add: os_log_def printed_def split: os_log_level.split)

theorem table_show_whole:
  "routing_table_show t = map (\<lambda>s. (ESP_LOGI, ''routing'', s))
     (chars ''========= ROUTING TABLE =========='' #
      (chars ''                default gateway: '' @ dec_digits (unat (default_gateway t))) #
      map route_text (used t) @ [chars ''==================================''])"
proof -
  have "os_log OS_LOG_LEVEL_INFO tag s = (ESP_LOGI, tag, s)" if "length s < 512" for tag s
    using that by (simp add: os_log_def printed_def LOG_MESSAGE_BUFFER_SIZE_def)
  moreover have "length (route_text e) < 512" for e using route_text_length [of e] by simp
  moreover have "length (dec_digits (unat (default_gateway t))) \<le> 3" by (rule dec_u8_length)
  ultimately show ?thesis
    by (simp add: routing_table_show_def table_texts_def route_text_printed chars_def)
qed

section \<open>The log determines the table\<close>

text \<open>A number is read back from its digits, and a field ends at the first byte that is no digit.\<close>

definition read_dec :: "byte list \<Rightarrow> nat" where
  "read_dec ds = foldl (\<lambda>n d. 10 * n + (unat d - 48)) 0 ds"

definition digit :: "byte \<Rightarrow> bool" where
  "digit d \<longleftrightarrow> 48 \<le> unat d \<and> unat d < 58"

lemma digit_byte: "n < 10 \<Longrightarrow> unat (of_nat (48 + n) :: byte) = 48 + n"
  by (subst unat_of_nat) simp

lemma dec_digits_read: "read_dec (dec_digits n) = n \<and> list_all digit (dec_digits n)"
proof (induction n rule: dec_digits.induct)
  case (1 n)
  show ?case
  proof (cases "n < 10")
    case True
    then show ?thesis using digit_byte [OF True] by (subst (1 2) dec_digits.simps) (simp add: read_dec_def digit_def)
  next
    case False
    then show ?thesis using 1 [OF False] digit_byte [of "n mod 10"]
      by (subst (1 2) dec_digits.simps) (simp add: read_dec_def digit_def [abs_def])
  qed
qed

lemma dec_digits_eq [simp]: "dec_digits m = dec_digits n \<longleftrightarrow> m = n"
  using dec_digits_read by metis

lemma digits_then:
  assumes "list_all digit xs" "list_all digit ys" "\<not> digit c" "\<not> digit d"
  shows "xs @ c # us = ys @ d # vs \<longleftrightarrow> xs = ys \<and> c = d \<and> us = vs"
proof
  assume eq: "xs @ c # us = ys @ d # vs"
  have "takeWhile digit (xs @ c # us) = xs" "takeWhile digit (ys @ d # vs) = ys"
    using assms by (simp_all add: takeWhile_append list_all_iff)
  with eq show "xs = ys \<and> c = d \<and> us = vs" by simp
qed simp

lemma dec_field:
  "\<not> digit c \<Longrightarrow> dec_digits m @ c # us = dec_digits n @ c # vs \<longleftrightarrow> m = n \<and> us = vs"
  using digits_then [of "dec_digits m" "dec_digits n" c c us vs] dec_digits_read by simp

lemma separators [simp]: "\<not> digit 32" "\<not> digit 46" "\<not> digit 47"
  by (simp_all add: digit_def)

lemma address_bytes:
  assumes "(ucast (drop_bit 24 a) :: u8) = ucast (drop_bit 24 b)" "(ucast (drop_bit 16 a) :: u8) = ucast (drop_bit 16 b)"
    and "(ucast (drop_bit 8 a) :: u8) = ucast (drop_bit 8 b)" "(ucast a :: u8) = ucast (b :: u32)"
  shows "a = b"
proof (rule bit_word_eqI)
  fix i assume i: "i < LENGTH(32)"
  have B: "bit (ucast (drop_bit k a) :: u8) j = bit a (k + j) \<and> bit (ucast (drop_bit k b) :: u8) j = bit b (k + j)"
    if "j < 8" for k j using that by (simp add: bit_simps)
  consider "i < 8" | "8 \<le> i" "i < 16" | "16 \<le> i" "i < 24" | "24 \<le> i" by linarith
  then show "bit a i = bit b i"
  proof cases
    case 1
    then show ?thesis using B [of i 0] assms(4) by (metis add_0 drop_bit_0 id_apply)
  next
    case 2
    then have "i - 8 < 8" "8 + (i - 8) = i" using i by simp_all
    then show ?thesis using B [of "i - 8" 8] assms(3) by metis
  next
    case 3
    then have "i - 16 < 8" "16 + (i - 16) = i" using i by simp_all
    then show ?thesis using B [of "i - 16" 16] assms(2) by metis
  next
    case 4
    then have "i - 24 < 8" "24 + (i - 24) = i" using i by simp_all
    then show ?thesis using B [of "i - 24" 24] assms(1) by metis
  qed
qed

lemma unat_eq_bytes: "unat (x :: u8) = unat y \<Longrightarrow> x = y"
  by (simp add: word_unat_eq_iff)

lemma route_text_inject:
  assumes "re_mask e = prefix_mask p" "p \<le> 32" "re_mask e' = prefix_mask p'" "p' \<le> 32"
    and "route_text e = route_text e'"
  shows "re_network e = re_network e' \<and> re_mask e = re_mask e' \<and> re_output e = re_output e'"
proof -
  have "unat (of_nat p :: u32) = p" "unat (of_nat p' :: u32) = p'"
    using assms(2,4) by (simp_all add: unat_of_nat)
  then have s: "unat (mask_size (re_mask e)) = p" "unat (mask_size (re_mask e')) = p'"
    using assms(1-4) by (simp_all add: mask_size_prefix)
  have eq: "p = p' \<and> unat (re_output e) = unat (re_output e') \<and> re_network e = re_network e'"
    using assms(5) unfolding route_text_def s dotted_def chars_def
    by (auto simp: dec_field dest!: unat_eq_bytes intro: address_bytes)
  then show ?thesis using assms(1,3) by (simp add: word_unat_eq_iff)
qed

theorem table_show_faithful:
  assumes "\<forall>e \<in> set (used t) \<union> set (used t'). \<exists>p \<le> 32. re_mask e = prefix_mask p"
    and "routing_table_show t = routing_table_show t'"
  shows "route_map t = route_map t' \<and> default_gateway t = default_gateway t'"
proof -
  let ?line = "\<lambda>s. (ESP_LOGI, ''routing'', s)"
  have inj: "inj ?line" by (simp add: inj_on_def)
  have "default_gateway t = default_gateway t'" and T: "map route_text (used t) = map route_text (used t')"
    using assms(2) unfolding table_show_whole inj_map_eq_map [OF inj] by (simp_all add: word_unat_eq_iff)
  moreover have "map (\<lambda>e. (entry_key e, re_output e)) (used t) = map (\<lambda>e. (entry_key e, re_output e)) (used t')"
  proof (rule nth_equalityI)
    show "length (map (\<lambda>e. (entry_key e, re_output e)) (used t)) = length (map (\<lambda>e. (entry_key e, re_output e)) (used t'))"
      using arg_cong [OF T, of length] by simp
    fix i assume i: "i < length (map (\<lambda>e. (entry_key e, re_output e)) (used t))"
    then have i': "i < length (used t)" "i < length (used t')" using arg_cong [OF T, of length] by simp_all
    then have "route_text (used t ! i) = route_text (used t' ! i)" using arg_cong [OF T, of "\<lambda>xs. xs ! i"] by simp
    moreover obtain p p' where "p \<le> 32" "re_mask (used t ! i) = prefix_mask p" "p' \<le> 32" "re_mask (used t' ! i) = prefix_mask p'"
      using assms(1) i' by (meson UnI1 UnI2 nth_mem)
    ultimately have "re_network (used t ! i) = re_network (used t' ! i) \<and> re_mask (used t ! i) = re_mask (used t' ! i) \<and>
        re_output (used t ! i) = re_output (used t' ! i)" by (meson route_text_inject)
    then show "map (\<lambda>e. (entry_key e, re_output e)) (used t) ! i = map (\<lambda>e. (entry_key e, re_output e)) (used t') ! i"
      using i' by (simp add: entry_key_def)
  qed
  ultimately show ?thesis by (simp add: route_map_def)
qed

end
