(* ===== verification/Spec2Isabelle.thy ===== *)
theory Spec2Isabelle
  imports Mesh Node_Join OS_Mutex Table_Race Board_Defined Sibling_Queue Node_Traffic Table_Log
begin

text \<open>
  A verification library for the firmware of a mesh of ESP32 boards. A node of the mesh is a ring of up to five
  boards, one for each direction and one in the center, that pass frames to each other over SPI. The outer
  boards of two nodes are linked by wifi, one as an access point and one as a station; the center is the home
  network of the node or, in one node, the way to the internet. Paths below are those of
  \<open>src/components\<close>.

  \<^bold>\<open>Conventions.\<close> A struct is a record, an enum or a tagged union a datatype, an integer a
  word of its width. Operations are functions of the source's names that return the new state; where C leaves an
  operation undefined (an index out of range, a shift by the width) or aborts (\<open>ESP_ERROR_CHECK\<close>)
  the result is \<open>None\<close>. A board is one record that every layer extends: \<open>sys\<close> (the
  ring and the lock), \<open>wifi_sys\<close>, \<open>node_sys\<close>, \<open>ss_sys\<close> (the shared
  table), \<open>rt_sys\<close> (the routing), \<open>im_sys\<close>, \<open>cb_sys\<close> (the queues of the
  tasks), \<open>sk_sys\<close>, \<open>hk_sys\<close> and \<open>board\<close>; an operation is polymorphic in
  what the layers above add. Calls that leave the repository (the SPI, wifi and socket drivers, timers) append
  an \<open>effect\<close> to the trace of the board, and their answers come from a record
  \<open>environment\<close>, numbered by the clock of the board, or are arguments. Theorems hold for every
  environment unless they name what it does; \<open>reliable\<close> is a ring that takes every frame and brings
  every notice in time.

  \<^bold>\<open>The ring.\<close> \<open>Config\<close> (\<open>internal/config\<close>): role and addresses
  from three pins. \<open>Hardware\<close>: the pins, the SPI buses and the parameters of the tasks
  (\<open>task_config\<close>). \<open>Ring_Link\<close> (\<open>internal/ring_link\<close>,
  \<open>ring_link_lowlevel\<close>, \<open>ring_link_internal\<close>): payloads, broadcast, forwarding.
  \<open>Ring_Broadcast\<close>: frames on their way round the ring; whom a broadcast reaches.
  \<open>Rtos_Queue\<close>: the bounded queues of the RTOS, an interface with the laws of a bounded first-in
  first-out queue. \<open>Spi_Pool\<close> (\<open>internal/spi\<close> and the tasks of
  \<open>ring_link\<close>): the eight receive buffers on their way through queues and tasks as a step relation;
  each buffer is in one place, and the pool implements queues of payloads. \<open>Sibling_Queue\<close>: the
  pool together with the queue of ten messages in which the internal task waits for the task of the siblings;
  the tasks are never all stuck, and every buffer comes back.
  \<open>Ring_Netif\<close> (\<open>internal/ring_link_netif\<close>): IP packets on the ring.

  \<^bold>\<open>The node.\<close> \<open>Ring_Share\<close> (\<open>routing/ring_share\<close>,
  \<open>siblings\<close>): messages between the same component of two boards. \<open>Sync\<close>,
  \<open>Sync_System\<close> (\<open>routing/sync\<close>): the lock that a token of the center carries; five
  boards on a bus as a step relation, mutual exclusion, one token, progress, and what one late notice or a
  missing board does. \<open>Shared_State\<close>: the table that the holder of the lock sends to the others.
  \<open>Routing_Table\<close> and \<open>Subnets\<close>: insertion, removal and lookup refine a finite map and
  a longest prefix match; the blocks of a node partition its network. \<open>Routing_Events\<close>,
  \<open>Routing\<close>, \<open>Routing_Facts\<close>, \<open>Routing_Properties\<close>
  (\<open>routing/routing\<close>): the protocol of root, home and forwarder, invariants over every history of a
  forwarder, and provisioning of a node. \<open>Node_Join\<close>: the bytes by which two linked nodes become
  parent and child. \<open>Mesh\<close>: where the tables of a tree of nodes send a packet.
  \<open>OS_Mutex\<close> (\<open>routing/os\<close>): mutexes, the blocks that they lock, and the blocks that
  take the first word of the mutex for a handle, whatever that word is. \<open>Table_Race\<close>: the loads of a
  lookup among the stores of another task, field by field, and the routes that it misses.
  \<open>Channel_Manager\<close>, \<open>Priority_Manager\<close>, \<open>Reset_Manager\<close>,
  \<open>Info_Manager\<close> (\<open>integration\<close>): the small protocols for channels, the order of
  connecting, restarts and reports.

  \<^bold>\<open>The board.\<close> \<open>Wifi\<close> (\<open>wireless\<close>): station, access point,
  device, sockets. \<open>Node\<close> (\<open>integration/node\<close>): roles and addresses.
  \<open>Callbacks\<close> (\<open>integration/callbacks\<close>): the queues and tasks between transports and
  components. \<open>Sockets\<close>: the TCP tasks. \<open>Routing_Hooks\<close>: where a packet leaves a
  board, and whether it leaves a node, is dropped or stays on its ring. \<open>Remote_Control\<close>: the commands of a gateway. \<open>Startup\<close>
  (\<open>app/main\<close>, \<open>node_setup\<close>): the start, its waits, and the role a board has after it.
  \<open>Board_Types\<close>, \<open>Board_Life\<close>, \<open>Board_Defined\<close>: the whole board; what its
  memory keeps through every order of start, tasks, frames and events, and which messages can bring it into
  undefined behaviour. \<open>Table_Agreement\<close>, \<open>Node_Tables\<close>: five whole boards with the
  messages on their way; a run of such a node is one of \<open>Sync_System\<close>, what the holder of the lock
  broadcasts makes his table out of the one he found, and so no change of the table is lost.
  \<open>Node_Traffic\<close>: the same node with its hooks; once no table is on its way a packet leaves
  at the one board that the common table gives, or stays on the ring where no board takes it. \<open>Table_Log\<close>: the log and the table in it.

  \<^bold>\<open>Interfaces.\<close> \<open>wire_format\<close> (\<open>I4A_Prelude\<close>): a structure that
  is copied raw between boards, its length and its round trip; interpreted for every message.
  \<open>prefix_router\<close> (\<open>Routing_Table\<close>): what a client may rely on of a longest prefix
  match. \<open>bounded_fifo\<close> (\<open>Rtos_Queue\<close>). \<open>lock_client\<close>
  (\<open>Board_Types\<close>): what a board keeps around the lock when the callbacks of the critical sections
  keep it; interpreted for the whole board, for the lock alone (\<open>Node_Tables\<close>) and for the place of
  a board (\<open>Node_Traffic\<close>);
  \<open>total_lock_client\<close> (\<open>Board_Defined\<close>) extends it to callbacks that are defined. The
  properties rest on the facts of their interpretations.

  \<^bold>\<open>Bounds.\<close> Loops of the code are structural recursions. The endless waits of
  \<open>node_setup\<close> take fuel, and the theorem on them says how much is enough. Frames travel at most as
  far as their hop limit. A task's endless loop is the relation of its rounds.

  \<^bold>\<open>Not modelled.\<close> The interleaving of two operations of one board: an operation is one
  step, as if each lock were taken; \<open>OS_Mutex\<close> shows which locks are, and \<open>Table_Race\<close>
  has the lookups that take none. A callback of the task of the siblings is one step that comes to its end:
  the waits for the ring in it have time limits, those for drivers and sockets are theirs. Boards of
  \<open>Node_Tables\<close> get concurrent broadcasts in one order; a broadcast waits until its frame has come
  round, which the ring of \<open>Ring_Broadcast\<close> gives for each frame, but not in this order. Logging
  and printing other than in \<open>Table_Log\<close>. What lwIP, esp_netif and the wifi stack do inside. A frame that the SPI hardware still writes
  into a buffer already given back. Pointers to the strings of another component, which are copies here. The
  scheduler. \<open>lwip_custom_hooks\<close>, which only declares the hook that \<open>Routing_Hooks\<close>
  defines.
\<close>

end
